(* ===== verification/Edge_Prelude.thy ===== *)
theory Edge_Prelude
  imports Complex_Main "HOL-Library.Word" "HOL-Library.AList"
begin

text \<open>
  Shared vocabulary of the development: the machine integers of the Rust code, fallible
  stateful actions (a Rust method with a mutable receiver that returns a \<open>Result\<close>) with
  the \<open>?\<close> operator and a small Hoare calculus for them, generic facts on lists and maps that the
  components share, and runs of event-driven systems.
\<close>

section \<open>Machine integers\<close>

type_synonym u8 = "8 word"
type_synonym u32 = "32 word"
type_synonym u64 = "64 word"
type_synonym u128 = "128 word"
type_synonym bytes = "u8 list"

text \<open>Rust's \<open>saturating_mul\<close>, \<open>saturating_add\<close> and \<open>saturating_sub\<close>.\<close>

definition saturating_mul :: "'n::len word \<Rightarrow> 'n word \<Rightarrow> 'n word" where
  "saturating_mul a b = (if unat a * unat b < 2 ^ LENGTH('n) then a * b else - 1)"

definition saturating_add :: "'n::len word \<Rightarrow> 'n word \<Rightarrow> 'n word" where
  "saturating_add a b = (if unat a + unat b < 2 ^ LENGTH('n) then a + b else - 1)"

definition saturating_sub :: "'n::len word \<Rightarrow> 'n word \<Rightarrow> 'n word" where
  "saturating_sub a b = (if b \<le> a then a - b else 0)"

lemma unat_saturating_mul:
  "unat (saturating_mul (a :: 'n::len word) b) = min (unat a * unat b) (2 ^ LENGTH('n) - 1)"
proof (cases "unat a * unat b < 2 ^ LENGTH('n)")
  case True
  then have "unat (saturating_mul a b) = unat a * unat b"
    by (simp add: saturating_mul_def unat_mult_lem [THEN iffD1])
  with True show ?thesis by linarith
next
  case False
  then have "unat (saturating_mul a b) = 2 ^ LENGTH('n) - 1"
    by (simp add: saturating_mul_def unsigned_minus_1_eq_mask mask_eq_exp_minus_1)
  with False show ?thesis by linarith
qed

lemma unat_saturating_add:
  "unat (saturating_add (a :: 'n::len word) b) = min (unat a + unat b) (2 ^ LENGTH('n) - 1)"
proof (cases "unat a + unat b < 2 ^ LENGTH('n)")
  case True
  then have "unat (saturating_add a b) = unat a + unat b"
    by (simp add: saturating_add_def unat_add_lem [THEN iffD1])
  with True show ?thesis by linarith
next
  case False
  then have "unat (saturating_add a b) = 2 ^ LENGTH('n) - 1"
    by (simp add: saturating_add_def unsigned_minus_1_eq_mask mask_eq_exp_minus_1)
  with False show ?thesis by linarith
qed

lemma unat_saturating_sub: "unat (saturating_sub a b) = unat a - unat b"
  by (simp add: saturating_sub_def unat_sub word_le_nat_alt)

lemma unat_min: "unat (min a b) = min (unat a) (unat (b :: 'n::len word))"
  by (simp add: min_def word_le_nat_alt)

lemma unat_max: "unat (max a b) = max (unat a) (unat (b :: 'n::len word))"
  by (simp add: max_def word_le_nat_alt)

lemma unat_div_word: "unat (a div b) = unat a div unat (b :: 'n::len word)"
  by (rule unat_div_distrib)

lemma unat_ucast_mod:
  "unat (ucast (a :: 'a::len word) :: 'b::len word) = unat a mod 2 ^ LENGTH('b)"
  by (simp add: unsigned_ucast_eq take_bit_eq_mod)

lemma unat_ucast_le:
  "unat (a :: 'a::len word) < 2 ^ LENGTH('b) \<Longrightarrow> unat (ucast a :: 'b::len word) = unat a"
  by (simp add: unat_ucast_mod)

lemma unat_ucast_up:
  "LENGTH('a) \<le> LENGTH('b) \<Longrightarrow> unat (ucast (a :: 'a::len word) :: 'b::len word) = unat a"
  by (rule unat_ucast_le)
    (meson le_trans linorder_not_le one_le_numeral power_increasing unsigned_less less_le_trans)


section \<open>Fallible stateful actions\<close>

text \<open>
  An action reads and updates a state and ends with an error (\<open>Inl\<close>) or a value (\<open>Inr\<close>).
  The state after an error is kept: a Rust method that returns \<open>Err\<close> has already made the
  assignments that precede the failing call.
\<close>

type_synonym ('s, 'e, 'a) act = "'s \<Rightarrow> ('e + 'a) \<times> 's"

definition act_ok :: "'a \<Rightarrow> ('s, 'e, 'a) act" where
  "act_ok x = (\<lambda>s. (Inr x, s))"

definition act_err :: "'e \<Rightarrow> ('s, 'e, 'a) act" where
  "act_err e = (\<lambda>s. (Inl e, s))"

definition act_update :: "('s \<Rightarrow> 's) \<Rightarrow> ('s, 'e, unit) act" where
  "act_update f = (\<lambda>s. (Inr (), f s))"

text \<open>\<open>act_try m f\<close> is \<open>let x = m?; f x\<close>.\<close>

definition act_try :: "('s, 'e, 'a) act \<Rightarrow> ('a \<Rightarrow> ('s, 'e, 'b) act) \<Rightarrow> ('s, 'e, 'b) act" where
  "act_try m f = (\<lambda>s. case m s of (Inl e, t) \<Rightarrow> (Inl e, t) | (Inr x, t) \<Rightarrow> f x t)"

text \<open>\<open>act_with f\<close> reads the state first: \<open>f\<close> gives the action to run in it.\<close>

definition act_with :: "('s \<Rightarrow> ('s, 'e, 'a) act) \<Rightarrow> ('s, 'e, 'a) act" where
  "act_with f = (\<lambda>s. f s s)"

definition act_map_err :: "('d \<Rightarrow> 'e) \<Rightarrow> ('s, 'd, 'a) act \<Rightarrow> ('s, 'e, 'a) act" where
  "act_map_err g m = (\<lambda>s. case m s of (Inl e, t) \<Rightarrow> (Inl (g e), t) | (Inr x, t) \<Rightarrow> (Inr x, t))"

text \<open>\<open>let _ = m\<close>: the outcome is dropped, the effect stays.\<close>

definition act_ignore :: "('s, 'd, 'a) act \<Rightarrow> ('s, 'e, unit) act" where
  "act_ignore m = (\<lambda>s. (Inr (), snd (m s)))"

definition act_of_option :: "'e \<Rightarrow> 'a option \<Rightarrow> ('s, 'e, 'a) act" where
  "act_of_option e x = (case x of None \<Rightarrow> act_err e | Some y \<Rightarrow> act_ok y)"

named_theorems act_defs \<open>definitions of the action combinators\<close>

lemmas [act_defs] = act_ok_def act_err_def act_update_def act_try_def act_with_def
  act_map_err_def act_ignore_def act_of_option_def

lemma act_try_Inr_iff:
  "act_try m f s = (Inr y, u) \<longleftrightarrow> (\<exists>x t. m s = (Inr x, t) \<and> f x t = (Inr y, u))"
  by (auto simp: act_try_def split: prod.splits sum.splits)

lemma act_try_Inl_iff:
  "act_try m f s = (Inl e, u) \<longleftrightarrow>
     m s = (Inl e, u) \<or> (\<exists>x t. m s = (Inr x, t) \<and> f x t = (Inl e, u))"
  by (auto simp: act_try_def split: prod.splits sum.splits)

lemma act_try_after_ok: "m s = (Inr x, t) \<Longrightarrow> act_try m f s = f x t"
  by (simp add: act_try_def)

lemma act_try_after_err: "m s = (Inl e, t) \<Longrightarrow> act_try m f s = (Inl e, t)"
  by (simp add: act_try_def)

lemma act_try_simps [simp]:
  "act_try (act_ok x) f = f x" "act_try (act_err e) f = act_err e"
  "act_of_option e None = act_err e" "act_of_option e (Some x) = act_ok x"
  by (simp_all add: act_defs)

lemma act_try_assoc:
  "act_try (act_try m f) g = act_try m (\<lambda>x. act_try (f x) g)"
  by (rule ext) (auto simp: act_try_def split: prod.splits sum.splits)

text \<open>
  A Hoare triple with two postconditions: \<open>Q\<close> for the value, \<open>E\<close> for the state an error
  leaves behind.
\<close>

definition act_valid ::
  "('s \<Rightarrow> bool) \<Rightarrow> ('s, 'e, 'a) act \<Rightarrow> ('a \<Rightarrow> 's \<Rightarrow> bool) \<Rightarrow> ('s \<Rightarrow> bool) \<Rightarrow> bool" where
  "act_valid P m Q E \<longleftrightarrow>
     (\<forall>s. P s \<longrightarrow> (case m s of (Inl e, t) \<Rightarrow> E t | (Inr x, t) \<Rightarrow> Q x t))"

named_theorems act_rules \<open>Hoare rules for the action combinators\<close>

lemma act_validI:
  assumes "\<And>s x t. P s \<Longrightarrow> m s = (Inr x, t) \<Longrightarrow> Q x t"
    and "\<And>s e t. P s \<Longrightarrow> m s = (Inl e, t) \<Longrightarrow> E t"
  shows "act_valid P m Q E"
  using assms by (auto simp: act_valid_def split: prod.splits sum.splits)

lemma act_valid_Inr: "act_valid P m Q E \<Longrightarrow> P s \<Longrightarrow> m s = (Inr x, t) \<Longrightarrow> Q x t"
  by (auto simp: act_valid_def)

lemma act_valid_Inl: "act_valid P m Q E \<Longrightarrow> P s \<Longrightarrow> m s = (Inl e, t) \<Longrightarrow> E t"
  by (auto simp: act_valid_def)

lemma act_valid_conseq:
  assumes "act_valid P' m Q' E'" and "\<And>s. P s \<Longrightarrow> P' s"
    and "\<And>x s. Q' x s \<Longrightarrow> Q x s" and "\<And>s. E' s \<Longrightarrow> E s"
  shows "act_valid P m Q E"
  using assms by (fastforce simp: act_valid_def split: prod.splits sum.splits)

lemma act_valid_ok [act_rules]: "(\<And>s. P s \<Longrightarrow> Q x s) \<Longrightarrow> act_valid P (act_ok x) Q E"
  by (simp add: act_valid_def act_ok_def)

lemma act_valid_err [act_rules]: "(\<And>s. P s \<Longrightarrow> E s) \<Longrightarrow> act_valid P (act_err e) Q E"
  by (simp add: act_valid_def act_err_def)

lemma act_valid_update [act_rules]:
  "(\<And>s. P s \<Longrightarrow> Q () (f s)) \<Longrightarrow> act_valid P (act_update f) Q E"
  by (simp add: act_valid_def act_update_def)

lemma act_valid_try:
  assumes "act_valid P m R E" and "\<And>x. act_valid (R x) (f x) Q E"
  shows "act_valid P (act_try m f) Q E"
  unfolding act_valid_def
proof (intro allI impI)
  fix s assume "P s"
  with assms(1) have m: "case m s of (Inl e, t) \<Rightarrow> E t | (Inr x, t) \<Rightarrow> R x t"
    by (auto simp: act_valid_def)
  show "case act_try m f s of (Inl e, t) \<Rightarrow> E t | (Inr x, t) \<Rightarrow> Q x t"
  proof (cases "m s")
    case (Pair r t)
    then show ?thesis using m assms(2) by (cases r) (auto simp: act_try_def act_valid_def)
  qed
qed

lemma act_valid_with [act_rules]:
  "(\<And>s. P s \<Longrightarrow> act_valid (\<lambda>t. t = s) (f s) Q E) \<Longrightarrow> act_valid P (act_with f) Q E"
  by (auto simp: act_valid_def act_with_def)

lemma act_valid_if [act_rules]:
  "(c \<Longrightarrow> act_valid P m Q E) \<Longrightarrow> (\<not> c \<Longrightarrow> act_valid P n Q E)
     \<Longrightarrow> act_valid P (if c then m else n) Q E"
  by simp

lemma act_valid_map_err: "act_valid P m Q E \<Longrightarrow> act_valid P (act_map_err g m) Q E"
  by (rule act_validI)
    (auto simp: act_map_err_def split: prod.splits sum.splits dest: act_valid_Inr act_valid_Inl)

lemma act_valid_state:
  "act_valid P m (\<lambda>_. I) I \<Longrightarrow> P s \<Longrightarrow> I (snd (m s))"
  by (cases "m s"; cases "fst (m s)") (auto simp: act_valid_def)

text \<open>An action keeps an invariant when both outcomes do.\<close>

abbreviation act_keeps :: "('s \<Rightarrow> bool) \<Rightarrow> ('s, 'e, 'a) act \<Rightarrow> bool" where
  "act_keeps I m \<equiv> act_valid I m (\<lambda>_. I) I"

lemma act_keepsI: "(\<And>s r t. I s \<Longrightarrow> m s = (r, t) \<Longrightarrow> I t) \<Longrightarrow> act_keeps I m"
  by (rule act_validI) blast+

lemma act_keeps_try: "act_keeps I m \<Longrightarrow> (\<And>x. act_keeps I (f x)) \<Longrightarrow> act_keeps I (act_try m f)"
  by (rule act_valid_try)

lemma act_keeps_with: "(\<And>s. act_keeps I (f s)) \<Longrightarrow> act_keeps I (act_with f)"
  by (auto simp: act_valid_def act_with_def)

lemma act_keeps_of_option: "act_keeps I (act_of_option e x)"
  by (cases x) (simp_all add: act_valid_ok act_valid_err)

lemmas act_keeps_rules = act_keeps_try act_keeps_with act_keeps_of_option act_valid_map_err
  act_valid_if act_valid_ok act_valid_err


section \<open>Lists and association lists\<close>

lemma map_of_update: "map_of (AList.update k v xs) = (map_of xs)(k \<mapsto> v)"
  by (simp add: AList.update_conv')

lemma map_of_rev_distinct: "distinct (map fst xs) \<Longrightarrow> map_of (rev xs) = map_of xs"
  by (subst map_of_inject_set) (simp_all add: rev_map [symmetric])

lemma keys_update: "fst ` set (AList.update k v xs) = insert k (fst ` set xs)"
  by (simp add: dom_update)

section \<open>Runs\<close>

text \<open>
  Systems whose behaviour is a sequence of events: the events executed one after the other, and
  the interface of a step relation that says the same.
\<close>

fun exec_all :: "('e \<Rightarrow> 's \<Rightarrow> 's option) \<Rightarrow> 'e list \<Rightarrow> 's \<Rightarrow> 's option" where
  "exec_all exec [] w = Some w"
| "exec_all exec (e # es) w = (case exec e w of None \<Rightarrow> None | Some v \<Rightarrow> exec_all exec es v)"

lemma exec_all_append: "exec_all exec (es @ fs) w = Option.bind (exec_all exec es w) (exec_all exec fs)"
  by (induction es arbitrary: w) (auto split: option.splits)

lemma exec_all_invariant [consumes 1, case_names start step]:
  assumes "exec_all exec es w = Some u" and "I [] w"
    and "\<And>fs e f g. I fs f \<Longrightarrow> exec e f = Some g \<Longrightarrow> I (fs @ [e]) g"
  shows "I es u"
  using assms(1)
proof (induction es arbitrary: u rule: rev_induct)
  case (snoc e es)
  then obtain v where "exec_all exec es w = Some v" "exec e v = Some u"
    by (auto simp: exec_all_append bind_eq_Some_conv split: option.splits)
  with snoc.IH assms(3) show ?case by blast
qed (use assms(2) in simp)

locale stepped_run =
  fixes exec :: "'e \<Rightarrow> 's \<Rightarrow> 's option" and run :: "'s \<Rightarrow> 'e list \<Rightarrow> 's \<Rightarrow> bool"
  assumes Nil_iff: "run w [] u \<longleftrightarrow> u = w"
    and snoc_iff: "run w (es @ [e]) u \<longleftrightarrow> (\<exists>v. run w es v \<and> exec e v = Some u)"
begin

lemma iff_exec_all: "run w es u \<longleftrightarrow> exec_all exec es w = Some u"
  by (induction es arbitrary: u rule: rev_induct)
    (auto simp: Nil_iff snoc_iff exec_all_append bind_eq_Some_conv split: option.splits)

lemma append_iff: "run w (es @ fs) u \<longleftrightarrow> (\<exists>v. run w es v \<and> run v fs u)"
  by (simp add: iff_exec_all exec_all_append bind_eq_Some_conv)

end

end
