(* ===== verification/Backoff.thy ===== *)
theory Backoff
  imports Edge_Prelude
begin

text \<open>
  The reconnect helper of \<open>crates/edge-protocol/src/lib.rs\<close>: jittered exponential backoff.
  Durations are those of \<open>std::time\<close> (whole seconds and nanoseconds); millisecond
  arithmetic is done on 128-bit words and narrowed to 64 bits, as in the code. The random
  number comes from the \<open>rand\<close> crate: \<open>gen_range(0..=hi)\<close> is the parameter \<open>rng hi\<close>,
  of which the code relies on \<open>rng hi \<le> hi\<close>.
\<close>

section \<open>Durations\<close>

record duration =
  secs :: u64
  nanos :: u32

definition as_millis :: "duration \<Rightarrow> u128" where
  "as_millis d = ucast (secs d) * 1000 + ucast (nanos d div 1000000)"

definition as_nanos :: "duration \<Rightarrow> nat" where
  "as_nanos d = unat (secs d) * 1000000000 + unat (nanos d)"

definition from_millis :: "u64 \<Rightarrow> duration" where
  "from_millis ms = \<lparr>secs = ms div 1000, nanos = ucast (ms mod 1000) * 1000000\<rparr>"

definition from_secs :: "u64 \<Rightarrow> duration" where
  "from_secs s = \<lparr>secs = s, nanos = 0\<rparr>"

section \<open>Backoff\<close>

record Backoff =
  base :: duration
  cap :: duration
  attempt :: u32

definition Backoff_new :: "duration \<Rightarrow> duration \<Rightarrow> Backoff" where
  "Backoff_new b c = \<lparr>base = b, cap = c, attempt = 0\<rparr>"

definition next_delay :: "(u128 \<Rightarrow> u128) \<Rightarrow> Backoff \<Rightarrow> duration \<times> Backoff" where
  "next_delay rng b =
     (let exp = saturating_mul (as_millis (base b)) (push_bit (unat (min (attempt b) 10)) 1);
          capped = min exp (as_millis (cap b));
          jitter = rng (max capped 1)
      in (from_millis (ucast (min (capped div 2 + jitter div 2) capped)),
          b\<lparr>attempt := saturating_add (attempt b) 1\<rparr>))"

definition delay_for_attempt :: "duration \<Rightarrow> duration \<Rightarrow> u32 \<Rightarrow> duration" where
  "delay_for_attempt b c n =
     (let exp = saturating_mul (as_millis b) (push_bit (unat (min n 10)) 1)
      in from_millis (ucast (min exp (as_millis c))))"

definition reset :: "Backoff \<Rightarrow> Backoff" where
  "reset b = b\<lparr>attempt := 0\<rparr>"

definition attempts :: "Backoff \<Rightarrow> u32" where
  "attempts b = attempt b"


section \<open>Reference and bounds\<close>

text \<open>
  The reference: the exponential delay in milliseconds on natural numbers, with the
  exponent clamped at ten as in the code.
\<close>

definition delay_spec :: "nat \<Rightarrow> nat \<Rightarrow> nat \<Rightarrow> nat" where
  "delay_spec base_ms cap_ms n = min (base_ms * 2 ^ min n 10) cap_ms"

abbreviation millis :: "duration \<Rightarrow> nat" where
  "millis d \<equiv> unat (as_millis d)"

lemma unat_as_millis: "millis d = unat (secs d) * 1000 + unat (nanos d) div 1000000"
proof -
  have s: "unat (ucast (secs d) :: u128) = unat (secs d)"
    and n: "unat (ucast (nanos d div 1000000) :: u128) = unat (nanos d) div 1000000"
    by (simp_all add: unat_div_word unat_ucast_up)
  have "unat (secs d) < 2 ^ 64" "unat (nanos d) < 2 ^ 32"
    using unsigned_less [of "secs d"] unsigned_less [of "nanos d"] by simp_all
  then show ?thesis
    unfolding as_millis_def by (simp add: unat_word_ariths s n)
qed

lemma millis_from_millis: "millis (from_millis m) = unat m"
proof -
  have lt: "unat m mod 1000 * 1000000 < 2 ^ 32"
    by (rule le_less_trans [of _ "999 * 1000000"]) (simp_all add: le_simps)
  have "unat (ucast (m mod 1000) :: u32) = unat m mod 1000"
    by (rule trans [OF unat_ucast_mod]) (simp add: unat_mod_distrib)
  then have "unat (ucast (m mod 1000) * 1000000 :: u32) = unat m mod 1000 * 1000000"
    using lt by (simp add: unat_word_ariths)
  then show ?thesis
    by (simp add: unat_as_millis from_millis_def unat_div_word)
qed

lemma millis_from_secs: "millis (from_secs s) = unat s * 1000"
  by (simp add: unat_as_millis from_secs_def)

lemma unat_pow2_attempt: "unat (push_bit (unat (min (n :: u32) 10)) 1 :: u128) = 2 ^ min (unat n) 10"
proof -
  have "(2::nat) ^ min (unat n) 10 \<le> 2 ^ 10"
    by (rule power_increasing) simp_all
  then have "(2::nat) ^ min (unat n) 10 < 2 ^ 128" by (rule le_less_trans) simp
  moreover have "push_bit (unat (min n 10)) 1 = (of_nat (2 ^ min (unat n) 10) :: u128)"
    by (simp add: unat_min)
  ultimately show ?thesis by (simp only: unat_of_nat) simp
qed

lemma capped_eq:
  "unat (min (saturating_mul (as_millis b) (push_bit (unat (min (n :: u32) 10)) 1)) (as_millis c)) =
   delay_spec (millis b) (millis c) (unat n)"
proof -
  have "millis c < 2 ^ 128" using unsigned_less [of "as_millis c", where 'a = nat] by simp
  moreover have "unat (saturating_mul (as_millis b) (push_bit (unat (min n 10)) 1))
      = min (millis b * 2 ^ min (unat n) 10) (2 ^ 128 - 1)"
    by (simp only: unat_saturating_mul unat_pow2_attempt) simp
  ultimately show ?thesis
    by (simp only: unat_min [of "saturating_mul _ _"] delay_spec_def) linarith
qed

section \<open>Properties\<close>

text \<open>
  The deterministic delay is \<open>min(cap, base * 2^attempt)\<close> milliseconds with the exponent
  clamped at 10, computed exactly (no saturation or truncation) whenever that value fits in
  the 64-bit millisecond argument of \<open>Duration::from_millis\<close>.
\<close>

theorem delay_for_attempt_spec:
  assumes "delay_spec (millis b) (millis c) (unat n) < 2 ^ 64"
  shows "millis (delay_for_attempt b c n) = delay_spec (millis b) (millis c) (unat n)"
  using assms unfolding delay_for_attempt_def Let_def millis_from_millis unat_ucast_mod capped_eq
  by simp

text \<open>
  C37. The jittered delay never leaves the upper half of the exponential delay: it lies between
  half of \<open>min(cap, base * 2^attempt)\<close> and that value, hence never above the cap, whatever
  number in range the generator draws; and the attempt counter goes up by one and saturates.
\<close>

theorem next_delay_bounds:
  assumes rng: "\<And>hi. rng hi \<le> hi" and cap: "millis (cap b) < 2 ^ 64"
    and step: "next_delay rng b = (d, b')"
  shows "delay_spec (millis (base b)) (millis (cap b)) (unat (attempt b)) div 2 \<le> millis d
    \<and> millis d \<le> delay_spec (millis (base b)) (millis (cap b)) (unat (attempt b))
    \<and> millis d \<le> millis (cap b)
    \<and> unat (attempts b') = min (unat (attempts b) + 1) (2 ^ 32 - 1)"
proof -
  define C where
    "C = min (saturating_mul (as_millis (base b)) (push_bit (unat (min (attempt b) 10)) 1))
           (as_millis (cap b))"
  define F where "F = delay_spec (millis (base b)) (millis (cap b)) (unat (attempt b))"
  have c: "unat C = F" unfolding C_def F_def by (rule capped_eq)
  have le: "F \<le> millis (cap b)" by (simp add: F_def delay_spec_def)
  have j: "unat (rng (max C 1)) \<le> max F 1"
    using rng [of "max C 1"] by (simp add: word_le_nat_alt unat_max c)
  have lt: "F < 2 ^ 64" using le cap by simp
  have "unat (C div 2 + rng (max C 1) div 2) = F div 2 + unat (rng (max C 1)) div 2"
    using j lt by (simp add: unat_word_ariths unat_div_word c)
  then have m: "unat (min (C div 2 + rng (max C 1) div 2) C)
      = min (F div 2 + unat (rng (max C 1)) div 2) F"
    by (simp add: unat_min c)
  have "d = from_millis (ucast (min (C div 2 + rng (max C 1) div 2) C))"
    using step by (simp add: next_delay_def Let_def C_def)
  then have d: "millis d = min (F div 2 + unat (rng (max C 1)) div 2) F"
    using m lt by (simp add: millis_from_millis unat_ucast_mod min.strict_coboundedI2)
  have "unat (attempts b') = min (unat (attempts b) + 1) (2 ^ 32 - 1)"
    using step by (auto simp: next_delay_def Let_def attempts_def unat_saturating_add)
  with d le show ?thesis unfolding F_def [symmetric] by auto
qed

end
