(* ===== verification/Rust_Std.thy ===== *)
theory Rust_Std
  imports Edge_Prelude "HOL-Library.Char_ord" "HOL-Library.List_Lexorder"
begin

text \<open>
  What the code uses of Rust's core types beyond integers: \<open>Ordering\<close>, strings as their UTF-8
  bytes (\<open>split\<close>, \<open>trim\<close>, \<open>to_string\<close>, \<open>parse::<u64>\<close>) and the comparisons and
  fixed-precision formatting of \<open>f64\<close>.
\<close>

section \<open>Three-way comparison\<close>

datatype ordering = Less | Equal | Greater

definition cmp :: "'a::linorder \<Rightarrow> 'a \<Rightarrow> ordering" where
  "cmp x y = (if x < y then Less else if x = y then Equal else Greater)"

lemma cmp_simps [simp]:
  "cmp x y = Less \<longleftrightarrow> x < y" "cmp x y = Equal \<longleftrightarrow> x = y" "cmp x y = Greater \<longleftrightarrow> y < x"
  by (auto simp: cmp_def)

fun flip_ordering :: "ordering \<Rightarrow> ordering" where
  "flip_ordering Less = Greater"
| "flip_ordering Equal = Equal"
| "flip_ordering Greater = Less"

lemma cmp_flip: "cmp y x = flip_ordering (cmp x y)"
  by (auto simp: cmp_def)

section \<open>Strings\<close>

abbreviation code_of :: "char \<Rightarrow> nat" where
  "code_of c \<equiv> of_char c"

text \<open>\<open>str::split(char)\<close>: always at least one piece.\<close>

fun split_on :: "char \<Rightarrow> string \<Rightarrow> string list" where
  "split_on c [] = [[]]"
| "split_on c (x # xs) =
     (if x = c then [] # split_on c xs
      else (case split_on c xs of [] \<Rightarrow> [[x]] | p # ps \<Rightarrow> (x # p) # ps))"

lemma split_on_not_Nil [simp]: "split_on c xs \<noteq> []"
  by (induction xs) (auto split: list.splits)

fun join_on :: "char \<Rightarrow> string list \<Rightarrow> string" where
  "join_on c [] = []"
| "join_on c [p] = p"
| "join_on c (p # q # ps) = p @ c # join_on c (q # ps)"

lemma join_split: "join_on c (split_on c xs) = xs"
proof (induction xs)
  case Nil
  show ?case by simp
next
  case (Cons x xs)
  obtain p ps where s: "split_on c xs = p # ps" by (cases "split_on c xs") auto
  with Cons show ?case by (cases ps) auto
qed

lemma split_on_inj: "split_on c xs = split_on c ys \<Longrightarrow> xs = ys"
  by (metis join_split)

text \<open>
  The number of bytes of the Unicode \<open>White_Space\<close> character at the head of a UTF-8
  string, 0 if there is none.
\<close>

definition ws_len :: "string \<Rightarrow> nat" where
  "ws_len s =
     (let x = (case s of a # _ \<Rightarrow> code_of a | _ \<Rightarrow> 0);
          y = (case s of _ # b # _ \<Rightarrow> code_of b | _ \<Rightarrow> 0);
          z = (case s of _ # _ # d # _ \<Rightarrow> code_of d | _ \<Rightarrow> 0)
      in if 9 \<le> x \<and> x \<le> 13 \<or> x = 32 then 1
         else if x = 0xC2 \<and> (y = 0x85 \<or> y = 0xA0) then 2
         else if x = 0xE1 \<and> y = 0x9A \<and> z = 0x80
               \<or> x = 0xE2 \<and> y = 0x80 \<and> (0x80 \<le> z \<and> z \<le> 0x8A \<or> z = 0xA8 \<or> z = 0xA9 \<or> z = 0xAF)
               \<or> x = 0xE2 \<and> y = 0x81 \<and> z = 0x9F
               \<or> x = 0xE3 \<and> y = 0x80 \<and> z = 0x80 then 3
         else 0)"

lemma ws_len_Nil [simp]: "ws_len [] = 0"
  by (simp add: ws_len_def)

function trim_start :: "string \<Rightarrow> string" where
  "trim_start s = (if ws_len s = 0 then s else trim_start (drop (ws_len s) s))"
  by pat_completeness auto
termination
proof (relation "measure length")
  show "wf (measure (length :: string \<Rightarrow> nat))" by simp
next
  fix s :: string
  assume "ws_len s \<noteq> 0"
  then have "s \<noteq> []" by auto
  with \<open>ws_len s \<noteq> 0\<close> show "(drop (ws_len s) s, s) \<in> measure length" by simp
qed

definition ws_suffix_len :: "string \<Rightarrow> nat" where
  "ws_suffix_len s =
     (if ws_len (drop (length s - 1) s) = 1 then 1
      else if ws_len (drop (length s - 2) s) = 2 \<and> 2 \<le> length s then 2
      else if ws_len (drop (length s - 3) s) = 3 \<and> 3 \<le> length s then 3
      else 0)"

function trim_end :: "string \<Rightarrow> string" where
  "trim_end s = (if ws_suffix_len s = 0 then s
                 else trim_end (take (length s - ws_suffix_len s) s))"
  by pat_completeness auto
termination
proof (relation "measure length")
  show "wf (measure (length :: string \<Rightarrow> nat))" by simp
next
  fix s :: string
  assume "ws_suffix_len s \<noteq> 0"
  then have "s \<noteq> []" by (auto simp: ws_suffix_len_def)
  with \<open>ws_suffix_len s \<noteq> 0\<close> show "(take (length s - ws_suffix_len s) s, s) \<in> measure length"
    by simp
qed

declare trim_start.simps [simp del] trim_end.simps [simp del]

definition trim :: "string \<Rightarrow> string" where
  "trim s = trim_end (trim_start s)"

lemma ws_len_ascii: "32 < code_of c \<Longrightarrow> code_of c < 128 \<Longrightarrow> ws_len (c # t) = 0"
  by (simp add: ws_len_def Let_def)

lemma trim_no_ws:
  assumes "\<And>c. c \<in> set s \<Longrightarrow> 32 < code_of c \<and> code_of c < 128"
  shows "trim s = s"
proof -
  have hd: "ws_len t = 0" if "set t \<subseteq> set s" for t
    using that assms by (cases t) (simp_all add: ws_len_ascii)
  then have "ws_len s = 0" "ws_suffix_len s = 0"
    by (simp_all add: ws_suffix_len_def set_drop_subset)
  then show ?thesis
    by (simp add: trim_def trim_start.simps [of s] trim_end.simps [of s])
qed

text \<open>\<open>str::lines\<close>: a final newline ends the last line, and a carriage return before it is dropped.\<close>

definition chomp_cr :: "string \<Rightarrow> string" where
  "chomp_cr l = (if l \<noteq> [] \<and> last l = CHR 0x0D then butlast l else l)"

definition lines :: "string \<Rightarrow> string list" where
  "lines s = (let ps = split_on (CHR 0x0A) s
     in map chomp_cr (butlast ps) @ (if last ps = [] then [] else [last ps]))"

definition unlines :: "string list \<Rightarrow> string" where
  "unlines ls = concat (map (\<lambda>l. l @ [CHR 0x0A]) ls)"

fun strip_prefix :: "string \<Rightarrow> string \<Rightarrow> string option" where
  "strip_prefix [] s = Some s"
| "strip_prefix (p # ps) (c # cs) = (if p = c then strip_prefix ps cs else None)"
| "strip_prefix _ _ = None"

text \<open>The bytes in front of the first white space: the first item of \<open>split_whitespace\<close> on a trimmed string.\<close>

fun take_word :: "string \<Rightarrow> string" where
  "take_word [] = []"
| "take_word (c # cs) = (if ws_len (c # cs) \<noteq> 0 then [] else c # take_word cs)"

definition first_word :: "string \<Rightarrow> string option" where
  "first_word s = (let t = trim_start s in if t = [] then None else Some (take_word t))"

lemma strip_prefix_append [simp]: "strip_prefix p (p @ s) = Some s"
  by (induction p) simp_all

lemma strip_prefix_Some: "strip_prefix p s = Some r \<longleftrightarrow> s = p @ r"
  by (induction p s rule: strip_prefix.induct) auto

lemma split_on_append:
  "c \<notin> set xs \<Longrightarrow> split_on c (xs @ c # ys) = xs # split_on c ys"
  by (induction xs) auto

lemma lines_unlines:
  assumes "\<And>l. l \<in> set ls \<Longrightarrow> CHR 0x0A \<notin> set l \<and> chomp_cr l = l"
  shows "lines (unlines ls) = ls"
proof -
  have "split_on (CHR 0x0A) (unlines ls) = ls @ [[]]"
    using assms by (induction ls) (simp_all add: unlines_def split_on_append)
  then show ?thesis using assms by (simp add: lines_def map_idI)
qed

lemma trim_start_ascii: "32 < code_of c \<Longrightarrow> code_of c < 128 \<Longrightarrow> trim_start (c # t) = c # t"
  by (subst trim_start.simps) (simp add: ws_len_ascii)

lemma ws_len_blank: "c \<in> {CHR '' '', CHR 0x09} \<Longrightarrow> ws_len (c # t) = 1"
proof -
  assume "c \<in> {CHR '' '', CHR 0x09}"
  then have "code_of c = 32 \<or> code_of c = 9" by auto
  then show ?thesis by (elim disjE) (simp_all add: ws_len_def Let_def)
qed

lemma trim_start_ws: "c \<in> {CHR '' '', CHR 0x09} \<Longrightarrow> trim_start (c # t) = trim_start t"
  by (subst trim_start.simps) (simp only: ws_len_blank, simp)

lemma trim_start_all_ws:
  "set w \<subseteq> {CHR '' '', CHR 0x09} \<Longrightarrow> trim_start (w @ t) = trim_start t"
  by (induction w) (auto simp: trim_start_ws simp del: insert_iff)

lemma take_word_ascii:
  assumes "\<And>c. c \<in> set w \<Longrightarrow> 32 < code_of c \<and> code_of c < 128"
  shows "take_word (w @ CHR '' '' # t) = w"
  using assms by (induction w) (simp_all add: ws_len_ascii ws_len_blank)

lemma first_word_ascii:
  assumes "\<And>c. c \<in> set w \<Longrightarrow> 32 < code_of c \<and> code_of c < 128" and "w \<noteq> []"
    and "set b \<subseteq> {CHR '' '', CHR 0x09}"
  shows "first_word (b @ w @ CHR '' '' # t) = Some w"
proof -
  obtain c cs where c: "w = c # cs" using assms(2) by (cases w) auto
  have "trim_start (b @ w @ CHR '' '' # t) = w @ CHR '' '' # t"
    using assms(1) [of c] c by (simp add: trim_start_all_ws [OF assms(3)] trim_start_ascii)
  moreover have "take_word (w @ CHR '' '' # t) = w" using assms(1) by (rule take_word_ascii)
  ultimately show ?thesis using assms(2) by (simp add: first_word_def)
qed

text \<open>
  \<open>str::to_lowercase\<close> on ASCII letters. Other characters are kept: no Unicode character
  outside ASCII has a lower case in \<open>0-9a-f\<close>, and the code only compares the result with a
  lower-case hexadecimal string.
\<close>

definition lower_char :: "char \<Rightarrow> char" where
  "lower_char c = (if 65 \<le> code_of c \<and> code_of c \<le> 90 then char_of (code_of c + 32) else c)"

definition to_lowercase :: "string \<Rightarrow> string" where
  "to_lowercase = map lower_char"

section \<open>Decimal numbers\<close>

definition digit_char :: "nat \<Rightarrow> char" where
  "digit_char d = ''0123456789'' ! d"

fun show_nat :: "nat \<Rightarrow> string" where
  "show_nat n = (if n < 10 then [digit_char n] else show_nat (n div 10) @ [digit_char (n mod 10)])"

declare show_nat.simps [simp del]

definition show_u64 :: "u64 \<Rightarrow> string" where
  "show_u64 w = show_nat (unat w)"

definition digit_val :: "char \<Rightarrow> nat option" where
  "digit_val c = (if 48 \<le> code_of c \<and> code_of c \<le> 57 then Some (code_of c - 48) else None)"

fun digits_val :: "nat \<Rightarrow> string \<Rightarrow> nat option" where
  "digits_val acc [] = Some acc"
| "digits_val acc (c # cs) =
     (case digit_val c of None \<Rightarrow> None | Some d \<Rightarrow> digits_val (acc * 10 + d) cs)"

text \<open>\<open>str::parse::<u64>\<close>: an optional plus sign, at least one digit, no overflow.\<close>

definition parse_u64 :: "string \<Rightarrow> u64 option" where
  "parse_u64 s =
     (let body = (case s of [] \<Rightarrow> [] | c # cs \<Rightarrow> if c = CHR ''+'' then cs else s)
      in if body = [] then None
         else (case digits_val 0 body of
                 None \<Rightarrow> None
               | Some n \<Rightarrow> if n < 2 ^ 64 then Some (of_nat n) else None))"

lemma digit_val_char: "d < 10 \<Longrightarrow> digit_val (digit_char d) = Some d"
proof -
  assume "d < 10"
  then have "d \<in> {0,1,2,3,4,5,6,7,8,9}" by auto
  then show ?thesis by (auto simp: digit_char_def digit_val_def)
qed

lemma digits_val_append:
  "digits_val acc (xs @ ys) =
     (case digits_val acc xs of None \<Rightarrow> None | Some n \<Rightarrow> digits_val n ys)"
  by (induction acc xs rule: digits_val.induct) (auto split: option.splits)

lemma digits_val_show: "digits_val 0 (show_nat n) = Some n"
proof (induction n rule: show_nat.induct)
  case (1 n)
  show ?case
  proof (cases "n < 10")
    case True
    then show ?thesis by (simp add: show_nat.simps [of n] digit_val_char)
  next
    case False
    with "1.IH" show ?thesis
      by (simp add: show_nat.simps [of n] digits_val_append digit_val_char)
  qed
qed

lemma show_nat_digits: "c \<in> set (show_nat n) \<Longrightarrow> digit_val c \<noteq> None"
proof (induction n rule: show_nat.induct)
  case (1 n)
  then show ?case by (cases "n < 10") (auto simp: show_nat.simps [of n] digit_val_char)
qed

lemma show_nat_not_Nil [simp]: "show_nat n \<noteq> []"
  by (subst show_nat.simps) simp

lemma show_nat_length: "n < 10 ^ d \<Longrightarrow> 0 < d \<Longrightarrow> length (show_nat n) \<le> d"
proof (induction n arbitrary: d rule: show_nat.induct)
  case (1 n)
  show ?case
  proof (cases "n < 10")
    case False
    then have "1 < d" using 1(2,3) by (cases d) (auto simp: not_less_eq_eq intro: ccontr)
    moreover from this have "n div 10 < 10 ^ (d - 1)"
      using 1(2) by (cases d) (simp_all add: less_mult_imp_div_less mult.commute)
    ultimately show ?thesis using 1(1) [of "d - 1"] False by (simp add: show_nat.simps [of n])
  qed (use 1(3) in \<open>simp add: show_nat.simps [of n]\<close>)
qed

lemma parse_show_u64: "parse_u64 (show_u64 w) = Some w"
proof -
  obtain c cs where s: "show_nat (unat w) = c # cs" by (cases "show_nat (unat w)") auto
  then have "digit_val c \<noteq> None" using show_nat_digits [of c "unat w"] by simp
  then have "c \<noteq> CHR ''+''" by (auto simp: digit_val_def)
  moreover have "digits_val 0 (c # cs) = Some (unat w)" using digits_val_show [of "unat w"] s by simp
  moreover have "unat w < 2 ^ 64" using unsigned_less [of w, where 'a = nat] by simp
  ultimately show ?thesis by (simp add: parse_u64_def show_u64_def s del: digits_val.simps)
qed

section \<open>Floating point\<close>

text \<open>
  A \<open>f64\<close> is a NaN, an infinity or a signed finite value; the sign is \<open>True\<close> for negative
  values (so both zeros exist). Comparisons follow IEEE 754: every comparison with a NaN
  is false.
\<close>

datatype f64 = F64_nan | F64_inf bool | F64 bool rat

fun f64_lt :: "f64 \<Rightarrow> f64 \<Rightarrow> bool" where
  "f64_lt F64_nan _ = False"
| "f64_lt _ F64_nan = False"
| "f64_lt (F64_inf s) (F64_inf t) = (s \<and> \<not> t)"
| "f64_lt (F64_inf s) (F64 _ _) = s"
| "f64_lt (F64 _ _) (F64_inf t) = (\<not> t)"
| "f64_lt (F64 s x) (F64 t y) = ((if s then - x else x) < (if t then - y else y))"

abbreviation f64_gt :: "f64 \<Rightarrow> f64 \<Rightarrow> bool" where
  "f64_gt a b \<equiv> f64_lt b a"

lemma f64_lt_nan [simp]: "\<not> f64_lt x F64_nan"
  by (cases x) auto

lemma f64_lt_asym: "f64_lt x y \<Longrightarrow> \<not> f64_lt y x"
  by (cases "(x, y)" rule: f64_lt.cases) auto

lemma f64_lt_trans: "f64_lt x y \<Longrightarrow> f64_lt y z \<Longrightarrow> f64_lt x z"
  by (cases x; cases y; cases z) auto

abbreviation f64_zero :: f64 where
  "f64_zero \<equiv> F64 False 0"

text \<open>
  \<open>format!("{:.n}", x)\<close>: the exact value rounded to \<open>n\<close> decimals, ties to even.
\<close>

definition round_half_even :: "rat \<Rightarrow> int" where
  "round_half_even x =
     (let k = \<lfloor>x\<rfloor>; r = x - of_int k
      in if r < 1 / 2 \<or> r = 1 / 2 \<and> even k then k else k + 1)"

definition pad_zeros :: "nat \<Rightarrow> string \<Rightarrow> string" where
  "pad_zeros n s = replicate (n - length s) (CHR ''0'') @ s"

fun fmt_fixed :: "nat \<Rightarrow> f64 \<Rightarrow> string" where
  "fmt_fixed n F64_nan = ''NaN''"
| "fmt_fixed n (F64_inf s) = (if s then ''-inf'' else ''inf'')"
| "fmt_fixed n (F64 s x) =
     (let k = nat (round_half_even (x * 10 ^ n))
      in (if s then ''-'' else []) @ show_nat (k div 10 ^ n) @
         (if n = 0 then [] else ''.'' @ pad_zeros n (show_nat (k mod 10 ^ n))))"

end
