(* ===== verification/Ota_Version.thy ===== *)
theory Ota_Version
  imports Rust_Std
begin

text \<open>
  \<open>compare_versions\<close> of \<open>crates/edge-ota/src/lib.rs\<close>, on which rollback protection rests:
  dotted versions compared component by component, numerically where both components are
  \<open>u64\<close> numbers and as strings otherwise.
\<close>

definition cmp_component :: "string \<Rightarrow> string \<Rightarrow> ordering" where
  "cmp_component x y =
     (case (parse_u64 x, parse_u64 y) of (Some nx, Some ny) \<Rightarrow> cmp nx ny | _ \<Rightarrow> cmp x y)"

fun cmp_components :: "string list \<Rightarrow> string list \<Rightarrow> ordering" where
  "cmp_components [] [] = Equal"
| "cmp_components [] (_ # _) = Less"
| "cmp_components (_ # _) [] = Greater"
| "cmp_components (x # xs) (y # ys) =
     (let ord = cmp_component x y in if ord \<noteq> Equal then ord else cmp_components xs ys)"

definition compare_versions :: "string \<Rightarrow> string \<Rightarrow> ordering" where
  "compare_versions a b = cmp_components (split_on (CHR ''.'') a) (split_on (CHR ''.'') b)"

text \<open>A numeric version and its components as a list of numbers.\<close>

definition numeric_version :: "string \<Rightarrow> bool" where
  "numeric_version v \<longleftrightarrow> (\<forall>x \<in> set (split_on (CHR ''.'') v). parse_u64 x \<noteq> None)"

definition version_key :: "string \<Rightarrow> u64 list" where
  "version_key v = map (\<lambda>x. the (parse_u64 x)) (split_on (CHR ''.'') v)"

section \<open>Lemmas\<close>

lemma cmp_component_flip: "cmp_component y x = flip_ordering (cmp_component x y)"
  by (cases "parse_u64 x"; cases "parse_u64 y") (auto simp: cmp_component_def cmp_def)

lemma flip_ordering_eq [simp]:
  "flip_ordering x = Equal \<longleftrightarrow> x = Equal" "flip_ordering x = Less \<longleftrightarrow> x = Greater"
  "flip_ordering x = Greater \<longleftrightarrow> x = Less"
  by (cases x; simp)+

lemma cmp_components_flip: "cmp_components ys xs = flip_ordering (cmp_components xs ys)"
proof (induction xs ys rule: cmp_components.induct)
  case (4 x xs y ys)
  then show ?case using cmp_component_flip [of y x] by (auto simp: Let_def)
qed simp_all

lemma cmp_components_numeric:
  assumes "\<forall>x \<in> set xs. parse_u64 x \<noteq> None" and "\<forall>y \<in> set ys. parse_u64 y \<noteq> None"
  shows "cmp_components xs ys = cmp (map (\<lambda>x. the (parse_u64 x)) xs) (map (\<lambda>x. the (parse_u64 x)) ys)"
  using assms
  by (induction xs ys rule: cmp_components.induct)
    (auto simp: Let_def cmp_component_def cmp_def split: option.splits)

lemma compare_versions_key:
  "numeric_version a \<Longrightarrow> numeric_version b \<Longrightarrow> compare_versions a b = cmp (version_key a) (version_key b)"
  using cmp_components_numeric by (simp add: compare_versions_def numeric_version_def version_key_def)

section \<open>Properties\<close>

text \<open>
  C35. On numeric versions \<open>compare_versions\<close> is the lexicographic order of the component
  numbers (a shorter version is below its extensions), hence a linear preorder: the
  comparison that the rollback protection needs.
\<close>

theorem compare_versions_numeric:
  assumes "numeric_version a" and "numeric_version b"
  shows "compare_versions a b = cmp (version_key a) (version_key b)"
  using assms by (rule compare_versions_key)

text \<open>
  For any two strings the comparison is antisymmetric: swapping the arguments flips the
  answer, so a version never counts as above and below another at once.
\<close>

theorem compare_versions_flip: "compare_versions b a = flip_ordering (compare_versions a b)"
  by (simp add: compare_versions_def cmp_components_flip [of "split_on _ b"])

text \<open>
  Outside numeric versions the comparison is not an order: \<open>9\<close> is below \<open>10\<close>, \<open>10\<close> is
  below \<open>1a\<close> and \<open>1a\<close> is below \<open>9\<close> again.
\<close>

theorem compare_versions_cycle:
  "compare_versions ''9'' ''10'' = Less \<and> compare_versions ''10'' ''1a'' = Less
   \<and> compare_versions ''1a'' ''9'' = Less"
  by (simp add: compare_versions_def cmp_component_def parse_u64_def digit_val_def Let_def)

end
