(* ===== verification/Durable_File.thy ===== *)
theory Durable_File
  imports Edge_Prelude
begin

text \<open>
  The file operations of \<open>std::fs\<close> and \<open>tokio::fs\<close> that the stores use, and the contract
  of an atomic save. A file system is a map from paths to contents together with a schedule
  of faults: every operation takes the next entry of the schedule, and an empty schedule
  means that nothing fails. A failed write may leave any prefix of the new contents in the
  file. All stores return at the first failed operation, so the disk after a crash in front
  of (or inside) an operation is the disk after that operation has failed: quantifying over
  all schedules also quantifies over all crash points. Component states extend the record
  of the file system, so the operations apply to them directly.
\<close>

section \<open>Paths\<close>

type_synonym path = "string list"

definition file_stem :: "string \<Rightarrow> string" where
  "file_stem f =
     (if f = ''..'' then f
      else (case dropWhile (\<lambda>c. c \<noteq> CHR ''.'') (rev f) of
              [] \<Rightarrow> f
            | _ # before \<Rightarrow> if before = [] then f else rev before))"

definition with_extension :: "path \<Rightarrow> string \<Rightarrow> path" where
  "with_extension p e =
     (if p = [] \<or> last p = ''..'' \<or> last p = ''/'' then p
      else butlast p @ [file_stem (last p) @ ''.'' @ e])"

abbreviation tmp_of :: "path \<Rightarrow> path" where
  "tmp_of p \<equiv> with_extension p ''tmp''"

definition parent :: "path \<Rightarrow> path option" where
  "parent p = (if p = [] \<or> p = [''/''] then None else Some (butlast p))"

section \<open>Operations that may fail\<close>

datatype io_error = NotFound | InvalidData | OtherIo

text \<open>
  \<open>IoErr None\<close>: the operation fails and changes nothing. \<open>IoErr (Some n)\<close>: a write fails
  after the file was truncated and \<open>n\<close> bytes were written (for the other operations the
  number has no meaning).
\<close>

datatype io_outcome = IoOk | IoErr "nat option"

record fs =
  files :: "path \<Rightarrow> bytes option"
  faults :: "io_outcome list"

definition fs_next :: "('z fs_scheme \<Rightarrow> io_outcome \<Rightarrow> 'r) \<Rightarrow> 'z fs_scheme \<Rightarrow> 'r" where
  "fs_next k s =
     (case faults s of [] \<Rightarrow> k s IoOk | o1 # os \<Rightarrow> k (s\<lparr>faults := os\<rparr>) o1)"

definition fs_write :: "path \<Rightarrow> bytes \<Rightarrow> ('z fs_scheme, io_error, unit) act" where
  "fs_write p b = fs_next (\<lambda>s out.
     case out of
       IoOk \<Rightarrow> (Inr (), s\<lparr>files := (files s)(p \<mapsto> b)\<rparr>)
     | IoErr None \<Rightarrow> (Inl OtherIo, s)
     | IoErr (Some n) \<Rightarrow> (Inl OtherIo, s\<lparr>files := (files s)(p \<mapsto> take n b)\<rparr>))"

definition fs_rename :: "path \<Rightarrow> path \<Rightarrow> ('z fs_scheme, io_error, unit) act" where
  "fs_rename a b = fs_next (\<lambda>s out.
     case out of
       IoOk \<Rightarrow> (case files s a of
                  None \<Rightarrow> (Inl NotFound, s)
                | Some c \<Rightarrow> (Inr (), s\<lparr>files := ((files s)(a := None))(b \<mapsto> c)\<rparr>))
     | IoErr _ \<Rightarrow> (Inl OtherIo, s))"

definition fs_read :: "path \<Rightarrow> ('z fs_scheme, io_error, bytes) act" where
  "fs_read p = fs_next (\<lambda>s out.
     case out of
       IoOk \<Rightarrow> (case files s p of None \<Rightarrow> (Inl NotFound, s) | Some c \<Rightarrow> (Inr c, s))
     | IoErr _ \<Rightarrow> (Inl OtherIo, s))"

text \<open>\<open>Path::exists\<close> answers \<open>false\<close> when the file's metadata cannot be read.\<close>

definition fs_exists :: "path \<Rightarrow> ('z fs_scheme, 'e, bool) act" where
  "fs_exists p = fs_next (\<lambda>s out.
     case out of IoOk \<Rightarrow> (Inr (files s p \<noteq> None), s) | IoErr _ \<Rightarrow> (Inr False, s))"

text \<open>
  Operations that touch no file contents: \<open>create_dir_all\<close> (directories are not tracked;
  a missing directory is one of the reasons for which a write may fail), opening a file and
  \<open>sync_all\<close>.
\<close>

definition fs_touch :: "('z fs_scheme, io_error, unit) act" where
  "fs_touch = fs_next (\<lambda>s out.
     case out of IoOk \<Rightarrow> (Inr (), s) | IoErr _ \<Rightarrow> (Inl OtherIo, s))"

text \<open>\<open>if let Ok(f) = File::open(p) { let _ = f.sync_all(); }\<close>\<close>

definition fs_sync :: "('z fs_scheme, 'e, unit) act" where
  "fs_sync = act_ignore (act_try fs_touch (\<lambda>_. fs_touch))"

lemmas fs_defs = fs_write_def fs_rename_def fs_read_def fs_exists_def fs_touch_def fs_sync_def
  fs_next_def

lemma fs_touch_files:
  "files (snd (fs_touch s)) = files s" "\<exists>G. snd (fs_touch s) = s\<lparr>faults := G\<rparr>"
  by (auto simp: fs_touch_def fs_next_def split: list.splits io_outcome.splits)
    (metis fs.surjective fs.update_convs(2))

lemma fs_sync_result: "\<exists>G. fs_sync s = (Inr (), s\<lparr>faults := G\<rparr>)"
proof -
  obtain G where g: "snd (fs_touch s) = s\<lparr>faults := G\<rparr>" using fs_touch_files(2) by blast
  show ?thesis
  proof (cases "fs_touch s")
    case (Pair r t)
    then have t: "t = s\<lparr>faults := G\<rparr>" using g by simp
    obtain H where h: "snd (fs_touch t) = t\<lparr>faults := H\<rparr>" using fs_touch_files(2) by blast
    show ?thesis using Pair t h by (cases r) (auto simp: fs_sync_def act_defs)
  qed
qed

lemma fs_write_cases:
  obtains (err) e F G where "fs_write p b s = (Inl e, s\<lparr>files := F, faults := G\<rparr>)"
      "\<And>q. q \<noteq> p \<Longrightarrow> F q = files s q"
  | (ok) G where "fs_write p b s = (Inr (), s\<lparr>files := (files s)(p \<mapsto> b), faults := G\<rparr>)"
proof (cases "faults s")
  case Nil
  then show thesis using ok [of "[]"] by (cases s) (simp add: fs_defs)
next
  case (Cons x xs)
  show thesis
  proof (cases x)
    case IoOk
    then show thesis using Cons ok [of xs] by (cases s) (simp add: fs_defs)
  next
    case (IoErr n)
    then show thesis
      using Cons err [where e = OtherIo and F = "files s" and G = xs]
        err [where e = OtherIo and F = "(files s)(p \<mapsto> take (the n) b)" and G = xs]
      by (cases s; cases n) (simp_all add: fs_defs)
  qed
qed

lemma fs_write_effect:
  assumes "fs_write p b s = (r, t)"
  shows "\<exists>F G. t = s\<lparr>files := F, faults := G\<rparr> \<and> (\<forall>q. q \<noteq> p \<longrightarrow> F q = files s q)
    \<and> (r = Inr () \<longrightarrow> F = (files s)(p \<mapsto> b))"
  by (cases rule: fs_write_cases [where p = p and b = b and s = s]) (use assms in auto)

lemma fs_rename_cases:
  obtains (err) e G where "fs_rename a b s = (Inl e, s\<lparr>faults := G\<rparr>)"
  | (ok) c G where "files s a = Some c"
      "fs_rename a b s = (Inr (), s\<lparr>files := ((files s)(a := None))(b \<mapsto> c), faults := G\<rparr>)"
proof (cases "faults s")
  case Nil
  then show thesis
    using err [of NotFound "[]"] ok [of _ "[]"]
    by (cases s; cases "files s a") (simp_all add: fs_defs)
next
  case (Cons x xs)
  then show thesis
    using err [of NotFound xs] err [of OtherIo xs] ok [of _ xs]
    by (cases s; cases "files s a"; cases x) (simp_all add: fs_defs)
qed

section \<open>Saving a file\<close>

text \<open>
  The two save protocols: write a temporary file and rename it (\<open>edge-state\<close> and the
  registry), and the same with best-effort \<open>fsync\<close> of the file before and of the
  directory after the rename (\<open>edge-ota\<close>).
\<close>

definition write_rename :: "path \<Rightarrow> bytes \<Rightarrow> ('z fs_scheme, io_error, unit) act" where
  "write_rename p b = act_try (fs_write (tmp_of p) b) (\<lambda>_. fs_rename (tmp_of p) p)"

definition write_sync_rename :: "path \<Rightarrow> bytes \<Rightarrow> ('z fs_scheme, io_error, unit) act" where
  "write_sync_rename p b =
     act_try (fs_write (tmp_of p) b) (\<lambda>_.
     act_try fs_sync (\<lambda>_.
     act_try (fs_rename (tmp_of p) p) (\<lambda>_.
     fs_sync)))"

text \<open>
  The contract: only the file and its temporary sibling change; a save that succeeds has
  replaced the contents, a save that fails has left them as they were.
\<close>

locale atomic_save =
  fixes save :: "path \<Rightarrow> bytes \<Rightarrow> ('z fs_scheme, io_error, unit) act"
  assumes save_ok: "save p b s = (Inr (), t) \<Longrightarrow> files t p = Some b"
    and save_err: "tmp_of p \<noteq> p \<Longrightarrow> save p b s = (Inl e, t) \<Longrightarrow> files t p = files s p"
    and save_frame: "q \<noteq> p \<Longrightarrow> q \<noteq> tmp_of p \<Longrightarrow> files (snd (save p b s)) q = files s q"
    and save_only_disk: "\<exists>F G. snd (save p b s) = s\<lparr>files := F, faults := G\<rparr>"
    and save_reliable: "faults s = [] \<Longrightarrow> fst (save p b s) = Inr () \<and> faults (snd (save p b s)) = []"
begin

lemma old_or_new:
  assumes "tmp_of p \<noteq> p"
  shows "files (snd (save p b s)) p = files s p \<or> files (snd (save p b s)) p = Some b"
proof (cases "save p b s")
  case (Pair r t)
  show ?thesis
  proof (cases r)
    case (Inl e)
    with Pair save_err [OF assms] show ?thesis by simp
  next
    case (Inr x)
    with Pair save_ok show ?thesis by simp
  qed
qed

end

lemma write_rename_frame:
  "q \<noteq> p \<Longrightarrow> q \<noteq> tmp_of p \<Longrightarrow> files (snd (write_rename p b s)) q = files s q"
  by (auto simp: write_rename_def act_defs fs_defs
      split: list.splits io_outcome.splits option.splits)

lemma write_rename_only_disk: "\<exists>F G. snd (write_rename p b s) = s\<lparr>files := F, faults := G\<rparr>"
  by (cases s) (auto simp: write_rename_def act_defs fs_defs
      split: list.splits io_outcome.splits option.splits)

interpretation wr: atomic_save write_rename
proof unfold_locales
  show "q \<noteq> p \<Longrightarrow> q \<noteq> tmp_of p \<Longrightarrow> files (snd (write_rename p b s)) q = files s q"
    for q p b and s :: "'z fs_scheme" by (rule write_rename_frame)
  show "\<exists>F G. snd (write_rename p b s) = s\<lparr>files := F, faults := G\<rparr>"
    for p b and s :: "'z fs_scheme" by (rule write_rename_only_disk)
qed (auto simp: write_rename_def act_defs fs_defs
    split: list.splits io_outcome.splits option.splits if_splits)

text \<open>
  The syncs only consume faults, so the journal's protocol is \<open>write_rename\<close> on the
  file contents.
\<close>

lemma write_sync_rename_cases:
  obtains (failed) e F G where "write_sync_rename p b s = (Inl e, s\<lparr>files := F, faults := G\<rparr>)"
      "\<And>q. q \<noteq> tmp_of p \<Longrightarrow> F q = files s q"
  | (saved) G where "write_sync_rename p b s =
      (Inr (), s\<lparr>files := ((files s)(tmp_of p := None))(p \<mapsto> b), faults := G\<rparr>)"
proof (rule fs_write_cases [where p = "tmp_of p" and b = b and s = s])
  fix e F G
  assume "fs_write (tmp_of p) b s = (Inl e, s\<lparr>files := F, faults := G\<rparr>)"
    and "\<And>q. q \<noteq> tmp_of p \<Longrightarrow> F q = files s q"
  then show thesis by (intro failed [where e = e and F = F and G = G]) (auto simp: write_sync_rename_def act_try_def)
next
  fix G
  assume ok: "fs_write (tmp_of p) b s = (Inr (), s\<lparr>files := (files s)(tmp_of p \<mapsto> b), faults := G\<rparr>)"
  let ?t = "s\<lparr>files := (files s)(tmp_of p \<mapsto> b), faults := G\<rparr>"
  obtain H where "fs_sync ?t = (Inr () :: io_error + unit, ?t\<lparr>faults := H\<rparr>)"
    using fs_sync_result by blast
  then have w: "write_sync_rename p b s =
      act_try (fs_rename (tmp_of p) p) (\<lambda>_. fs_sync) (?t\<lparr>faults := H\<rparr>)"
    using ok by (simp add: write_sync_rename_def act_try_def)
  show thesis
  proof (rule fs_rename_cases [where a = "tmp_of p" and b = p and s = "?t\<lparr>faults := H\<rparr>"])
    fix e K
    assume "fs_rename (tmp_of p) p (?t\<lparr>faults := H\<rparr>) = (Inl e, ?t\<lparr>faults := H, faults := K\<rparr>)"
    then show thesis
      using w by (intro failed [where e = e and F = "(files s)(tmp_of p \<mapsto> b)" and G = K])
        (auto simp: act_try_def)
  next
    fix c K
    assume ok: "files (?t\<lparr>faults := H\<rparr>) (tmp_of p) = Some c"
      "fs_rename (tmp_of p) p (?t\<lparr>faults := H\<rparr>) = (Inr (), ?t\<lparr>faults := H,
         files := ((files (?t\<lparr>faults := H\<rparr>))(tmp_of p := None))(p \<mapsto> c), faults := K\<rparr>)"
    let ?u = "s\<lparr>files := ((files s)(tmp_of p := None))(p \<mapsto> b), faults := K\<rparr>"
    obtain L where "fs_sync ?u = (Inr () :: io_error + unit, ?u\<lparr>faults := L\<rparr>)"
      using fs_sync_result by blast
    then show thesis using w ok by (intro saved) (auto simp: act_try_def)
  qed
qed

lemma write_sync_rename_reliable:
  "faults s = [] \<Longrightarrow> fst (write_sync_rename p b s) = Inr () \<and> faults (snd (write_sync_rename p b s)) = []"
  by (simp add: write_sync_rename_def act_defs fs_defs)

interpretation wsr: atomic_save write_sync_rename
proof unfold_locales
  fix p b e and s t :: "'z fs_scheme"
  show "files t p = Some b" if "write_sync_rename p b s = (Inr (), t)"
    by (cases rule: write_sync_rename_cases [where p = p and b = b and s = s]) (use that in auto)
  show "files t p = files s p" if "tmp_of p \<noteq> p" "write_sync_rename p b s = (Inl e, t)"
    by (cases rule: write_sync_rename_cases [where p = p and b = b and s = s]) (use that in auto)
  show "files (snd (write_sync_rename p b s)) q = files s q" if "q \<noteq> p" "q \<noteq> tmp_of p" for q
    by (cases rule: write_sync_rename_cases [where p = p and b = b and s = s]) (use that in auto)
  show "\<exists>F G. snd (write_sync_rename p b s) = s\<lparr>files := F, faults := G\<rparr>"
    by (cases rule: write_sync_rename_cases [where p = p and b = b and s = s]) auto
qed (rule write_sync_rename_reliable)

end
