(* ===== verification/Edge_State.thy ===== *)
theory Edge_State
  imports Durable_File
begin

text \<open>
  \<open>crates/edge-state/src/lib.rs\<close>: desired against reported state and the durable
  last-known-good store. \<open>serde_json\<close> is a parameter (\<open>json\<close>): an encoder that may fail and
  a decoder, of which the code relies on \<open>json_ok\<close>, that what was encoded decodes again.
\<close>

section \<open>Data\<close>

record Policy =
  version :: u64
  max_connections :: u32
  idle_timeout_secs :: u64
  default_upstream :: string
  rules_json :: string

definition default_policy :: Policy where
  "default_policy = \<lparr>version = 0, max_connections = 512, idle_timeout_secs = 300,
     default_upstream = ''127.0.0.1:18081'', rules_json = ''{}''\<rparr>"

record DesiredState =
  seq :: u64
  policy :: Policy
  d_software_version :: string

record ReportedState =
  policy_version :: u64
  r_software_version :: string
  applied_seq :: u64

definition default_reported :: ReportedState where
  "default_reported = \<lparr>policy_version = 0, r_software_version = [], applied_seq = 0\<rparr>"

datatype ReconcileAction = Noop | ApplyPolicy Policy | StageOta string

datatype StateError = StIo io_error | StDecode | StStale (got: u64) (applied: u64)

section \<open>Pure reconciliation\<close>

definition diff :: "ReportedState \<Rightarrow> DesiredState \<Rightarrow> ReconcileAction" where
  "diff r d =
     (if seq d \<le> applied_seq r \<and> version (policy d) = policy_version r
         \<and> d_software_version d = r_software_version r then Noop
      else if seq d \<le> applied_seq r then Noop
      else if version (policy d) \<noteq> policy_version r then ApplyPolicy (policy d)
      else if d_software_version d \<noteq> r_software_version r \<and> d_software_version d \<noteq> []
        then StageOta (d_software_version d)
      else Noop)"

definition apply_policy :: "Policy \<Rightarrow> u64 \<Rightarrow> ReportedState \<Rightarrow> bool \<times> ReportedState" where
  "apply_policy p q r =
     (let (c1, r1) = (if policy_version r \<noteq> version p
                      then (True, r\<lparr>policy_version := version p\<rparr>) else (False, r));
          (c2, r2) = (if applied_seq r1 < q then (True, r1\<lparr>applied_seq := q\<rparr>) else (c1, r1))
      in (c2, r2))"

section \<open>The store\<close>

record StateStore =
  st_path :: path
  desired :: "DesiredState option"
  reported :: ReportedState
  last_good_policy :: Policy

record Persisted =
  p_desired :: "DesiredState option"
  p_reported :: ReportedState
  p_last_good_policy :: Policy

record 'a json =
  encode :: "'a \<Rightarrow> bytes option"
  decode :: "bytes \<Rightarrow> 'a option"

definition json_ok :: "'a json \<Rightarrow> bool" where
  "json_ok js \<longleftrightarrow> (\<forall>x b. encode js x = Some b \<longrightarrow> decode js b = Some x)"

record store_sys = fs +
  store :: StateStore

definition to_persisted :: "StateStore \<Rightarrow> Persisted" where
  "to_persisted st = \<lparr>p_desired = desired st, p_reported = reported st,
     p_last_good_policy = last_good_policy st\<rparr>"

definition of_persisted :: "path \<Rightarrow> Persisted \<Rightarrow> StateStore" where
  "of_persisted p x = \<lparr>st_path = p, desired = p_desired x, reported = p_reported x,
     last_good_policy = p_last_good_policy x\<rparr>"

definition fresh_store :: "path \<Rightarrow> StateStore" where
  "fresh_store p = \<lparr>st_path = p, desired = None, reported = default_reported,
     last_good_policy = default_policy\<rparr>"

definition StateStore_open :: "Persisted json \<Rightarrow> path \<Rightarrow> ('z fs_scheme, StateError, StateStore) act" where
  "StateStore_open js p =
     act_try (fs_exists p) (\<lambda>ex.
     if ex then
       act_try (act_map_err StIo (fs_read p)) (\<lambda>b.
       act_try (act_of_option StDecode (decode js b)) (\<lambda>x.
       act_ok (of_persisted p x)))
     else act_ok (fresh_store p))"

definition persist :: "Persisted json \<Rightarrow> ('z store_sys_scheme, StateError, unit) act" where
  "persist js = act_with (\<lambda>s.
     act_try (case parent (st_path (store s)) of
                None \<Rightarrow> act_ok ()
              | Some d \<Rightarrow> if d \<noteq> [] then act_map_err StIo fs_touch else act_ok ()) (\<lambda>_.
     act_try (act_of_option StDecode (encode js (to_persisted (store s)))) (\<lambda>b.
     act_map_err StIo (write_rename (st_path (store s)) b))))"

definition ingest ::
  "Persisted json \<Rightarrow> DesiredState \<Rightarrow> ('z store_sys_scheme, StateError, ReconcileAction) act" where
  "ingest js d = act_with (\<lambda>s.
     let action = diff (reported (store s)) d;
         is_newer = (case desired (store s) of None \<Rightarrow> True | Some d0 \<Rightarrow> seq d0 < seq d)
     in if is_newer then
          act_try (act_update (\<lambda>s. s\<lparr>store := (store s)\<lparr>desired := Some d\<rparr>\<rparr>)) (\<lambda>_.
          act_try (persist js) (\<lambda>_.
          act_ok action))
        else act_ok action)"

definition ingest_strict ::
  "Persisted json \<Rightarrow> DesiredState \<Rightarrow> ('z store_sys_scheme, StateError, ReconcileAction) act" where
  "ingest_strict js d = act_with (\<lambda>s.
     if seq d \<le> applied_seq (reported (store s))
     then act_err (StStale (seq d) (applied_seq (reported (store s))))
     else ingest js d)"

definition mark_policy_applied ::
  "Persisted json \<Rightarrow> Policy \<Rightarrow> u64 \<Rightarrow> ('z store_sys_scheme, StateError, bool) act" where
  "mark_policy_applied js p q = act_with (\<lambda>s.
     let (changed, r) = apply_policy p q (reported (store s))
     in act_try (act_update (\<lambda>s. s\<lparr>store := (store s)\<lparr>reported := r, last_good_policy := p\<rparr>\<rparr>)) (\<lambda>_.
        act_try (persist js) (\<lambda>_.
        act_ok changed)))"

section \<open>Reconciliation as a contract\<close>

text \<open>
  The abstract effect of one delivery on the reported state: diff, and apply if the diff
  says so. A client that feeds deliveries to the store changes the reported state by
  \<open>reconcile\<close> or, when an I/O operation fails first, not at all.
\<close>

definition reconcile :: "DesiredState \<Rightarrow> ReportedState \<Rightarrow> ReportedState" where
  "reconcile d r = (case diff r d of ApplyPolicy p \<Rightarrow> snd (apply_policy p (seq d) r) | _ \<Rightarrow> r)"

lemma snd_apply_policy:
  "snd (apply_policy p q r) =
     r\<lparr>policy_version := version p, applied_seq := max (applied_seq r) q\<rparr>"
  by (cases r) (auto simp: apply_policy_def max_def split: prod.splits if_splits)

lemma apply_policy_changed:
  "fst (apply_policy p q r) \<longleftrightarrow> snd (apply_policy p q r) \<noteq> r"
  by (cases r) (auto simp: apply_policy_def split: prod.splits if_splits)

lemma diff_ApplyPolicy_iff:
  "diff r d = ApplyPolicy p \<longleftrightarrow>
     p = policy d \<and> applied_seq r < seq d \<and> version (policy d) \<noteq> policy_version r"
  by (auto simp: diff_def)

lemma reconcile_eq:
  "reconcile d r =
     (if applied_seq r < seq d \<and> version (policy d) \<noteq> policy_version r
      then r\<lparr>policy_version := version (policy d), applied_seq := seq d\<rparr> else r)"
proof (cases "applied_seq r < seq d \<and> version (policy d) \<noteq> policy_version r")
  case True
  then have "diff r d = ApplyPolicy (policy d)" by (simp add: diff_ApplyPolicy_iff)
  with True show ?thesis by (simp add: reconcile_def snd_apply_policy max_absorb2 less_imp_le)
next
  case False
  then have "\<And>p. diff r d \<noteq> ApplyPolicy p" by (auto simp: diff_ApplyPolicy_iff)
  with False show ?thesis by (auto simp: reconcile_def split: ReconcileAction.splits)
qed

locale reconciler =
  fixes step :: "DesiredState \<Rightarrow> 's \<Rightarrow> 's" and rep :: "'s \<Rightarrow> ReportedState"
  assumes step_rep: "rep (step d s) = rep s \<or> rep (step d s) = reconcile d (rep s)"
begin

lemma applied_seq_step: "applied_seq (rep s) \<le> applied_seq (rep (step d s))"
  using step_rep [of d s] by (auto simp: reconcile_eq)

lemma applied_seq_mono: "applied_seq (rep s) \<le> applied_seq (rep (fold step ds s))"
proof (induction ds arbitrary: s)
  case (Cons d ds)
  have "applied_seq (rep (step d s)) \<le> applied_seq (rep (fold step ds (step d s)))"
    by (rule Cons.IH)
  with applied_seq_step [of s d] show ?case by simp
qed simp

lemma software_kept: "r_software_version (rep (fold step ds s)) = r_software_version (rep s)"
proof (induction ds arbitrary: s)
  case (Cons d ds)
  have "r_software_version (rep (step d s)) = r_software_version (rep s)"
    using step_rep [of d s] by (auto simp: reconcile_eq)
  with Cons.IH [of "step d s"] show ?case by simp
qed simp

text \<open>What the device reports was reported before or comes from one of the deliveries.\<close>

lemma provenance:
  "(policy_version (rep (fold step ds s)), applied_seq (rep (fold step ds s)))
     \<in> insert (policy_version (rep s), applied_seq (rep s))
         ((\<lambda>d. (version (policy d), seq d)) ` set ds)"
proof (induction ds arbitrary: s)
  case (Cons d ds)
  have "(policy_version (rep (step d s)), applied_seq (rep (step d s)))
      \<in> {(policy_version (rep s), applied_seq (rep s)), (version (policy d), seq d)}"
    using step_rep [of d s] by (auto simp: reconcile_eq split: if_splits)
  with Cons.IH [of "step d s"] show ?case by (auto simp: image_iff)
qed simp

end

text \<open>A client without I/O faults: every delivery takes effect.\<close>

locale reliable_reconciler = reconciler +
  fixes ok :: "'s \<Rightarrow> bool"
  assumes step_ok: "ok s \<Longrightarrow> ok (step d s) \<and> rep (step d s) = reconcile d (rep s)"
begin

lemma fold_ok: "ok s \<Longrightarrow> ok (fold step ds s)"
  by (induction ds arbitrary: s) (auto simp: step_ok)

text \<open>
  Convergence under at-least-once delivery: as long as no other delivery shares the version or the
  sequence number of the newest one, that one wins wherever it stands among the deliveries, and the
  stale ones after it change nothing.
\<close>

lemma newest_wins:
  assumes "ok s" and d: "d \<in> set ds" and fresh: "applied_seq (rep s) < seq d" "version (policy d) \<noteq> policy_version (rep s)"
    and newest: "\<And>e. e \<in> set ds \<Longrightarrow> seq e \<le> seq d"
    and own: "\<And>e. e \<in> set ds \<Longrightarrow> version (policy e) = version (policy d) \<longleftrightarrow> seq e = seq d"
  shows "rep (fold step ds s) = (rep s)\<lparr>policy_version := version (policy d), applied_seq := seq d\<rparr>"
proof -
  let ?top = "(rep s)\<lparr>policy_version := version (policy d), applied_seq := seq d\<rparr>"
  have stale: "rep (fold step ys t) = ?top" if "ok t" "rep t = ?top" "set ys \<subseteq> set ds" for ys t
    using that
  proof (induction ys arbitrary: t)
    case (Cons e ys)
    then have "rep (step e t) = ?top" using step_ok [of t e] newest [of e] by (auto simp: reconcile_eq)
    with Cons step_ok [of t e] show ?case by simp
  qed simp
  obtain xs ys where split: "ds = xs @ d # ys" using d by (auto simp: in_set_conv_decomp)
  let ?t = "fold step xs s"
  have t: "ok ?t" using assms(1) by (rule fold_ok)
  have "reconcile d (rep ?t) = (rep ?t)\<lparr>policy_version := version (policy d), applied_seq := seq d\<rparr>"
  proof -
    consider "policy_version (rep ?t) = policy_version (rep s)" "applied_seq (rep ?t) = applied_seq (rep s)"
      | e where "e \<in> set ds" "policy_version (rep ?t) = version (policy e)" "applied_seq (rep ?t) = seq e"
      using provenance [of xs s] split by auto
    then show ?thesis
    proof cases
      case 1
      with fresh show ?thesis by (simp add: reconcile_eq)
    next
      case (2 e)
      with newest [of e] own [of e] show ?thesis by (cases "seq e = seq d") (auto simp: reconcile_eq)
    qed
  qed
  then have "rep (step d ?t) = ?top" using step_ok [OF t, of d] software_kept [of xs s] by simp
  then have "rep (fold step ys (step d ?t)) = ?top"
    using stale [of "step d ?t" ys] step_ok [OF t, of d] split by (simp add: subset_insertI2)
  then show ?thesis using split by simp
qed

end

interpretation pr: reliable_reconciler reconcile "\<lambda>r. r" "\<lambda>_. True"
  by unfold_locales simp_all

section \<open>The store on disk\<close>

text \<open>What the next start of the process reads: \<open>None\<close> when the file does not decode.\<close>

definition reopen :: "Persisted json \<Rightarrow> path \<Rightarrow> (path \<Rightarrow> bytes option) \<Rightarrow> StateStore option" where
  "reopen js p F =
     (case F p of None \<Rightarrow> Some (fresh_store p) | Some b \<Rightarrow> map_option (of_persisted p) (decode js b))"

lemma of_to_persisted [simp]: "of_persisted (st_path st) (to_persisted st) = st"
  by (simp add: of_persisted_def to_persisted_def)

lemma open_reopen:
  "faults s = [] \<Longrightarrow>
     StateStore_open js p s =
       (case reopen js p (files s) of None \<Rightarrow> (Inl StDecode, s) | Some st \<Rightarrow> (Inr st, s))"
  by (auto simp: StateStore_open_def reopen_def act_defs fs_defs split: option.splits)

lemma open_any_fault:
  assumes "StateStore_open js p s = (Inr st, t)"
  shows "st = fresh_store p \<or> reopen js p (files s) = Some st"
    and "\<exists>G. t = s\<lparr>faults := G\<rparr>"
proof -
  show "st = fresh_store p \<or> reopen js p (files s) = Some st"
    using assms by (auto simp: StateStore_open_def reopen_def act_defs fs_defs
        split: option.splits list.splits io_outcome.splits if_splits)
  show "\<exists>G. t = s\<lparr>faults := G\<rparr>"
    using assms by (cases s) (auto simp: StateStore_open_def reopen_def act_defs fs_defs
        split: option.splits list.splits io_outcome.splits if_splits)
qed

lemma create_parent_result:
  assumes "(case parent p of None \<Rightarrow> act_ok ()
            | Some d \<Rightarrow> if d \<noteq> [] then act_map_err StIo fs_touch else act_ok ()) s = (r, t)"
  shows "\<exists>G. t = s\<lparr>faults := G\<rparr>"
  using assms fs_touch_files(2) [of s]
  by (cases s) (auto simp: act_defs split: option.splits if_splits prod.splits sum.splits)

lemma persist_cases:
  obtains (failed) e F G where "persist js s = (Inl e, s\<lparr>files := F, faults := G\<rparr>)"
      "tmp_of (st_path (store s)) \<noteq> st_path (store s)
         \<Longrightarrow> F (st_path (store s)) = files s (st_path (store s))"
  | (saved) b F G where "persist js s = (Inr (), s\<lparr>files := F, faults := G\<rparr>)"
      "encode js (to_persisted (store s)) = Some b" "F (st_path (store s)) = Some b"
proof -
  let ?p = "st_path (store s)"
  let ?m = "case parent ?p of None \<Rightarrow> act_ok ()
            | Some d \<Rightarrow> if d \<noteq> [] then act_map_err StIo fs_touch else act_ok ()"
  obtain r t where m: "?m s = (r, t)" by (cases "?m s") auto
  then obtain G where t: "t = s\<lparr>faults := G\<rparr>" using create_parent_result by blast
  show thesis
  proof (cases "\<exists>x b. r = Inr x \<and> encode js (to_persisted (store s)) = Some b")
    case False
    then obtain e where "persist js s = (Inl e, t)"
      using m by (cases r) (auto simp: persist_def act_defs)
    then show thesis using t failed [where e = e and F = "files s" and G = G] by simp
  next
    case True
    then obtain b where b: "encode js (to_persisted (store s)) = Some b" and r: "r = Inr ()" by auto
    then have w: "persist js s = act_map_err StIo (write_rename ?p b) t"
      using m by (simp add: persist_def act_defs)
    obtain F H where d: "snd (write_rename ?p b t) = s\<lparr>files := F, faults := H\<rparr>"
      using wr.save_only_disk [of ?p b t] t by auto
    show thesis
    proof (cases "write_rename ?p b t")
      case (Pair x u)
      with d have u: "u = s\<lparr>files := F, faults := H\<rparr>" by simp
      show thesis
      proof (cases x)
        case (Inl e)
        with Pair w u show thesis
          using wr.save_err [of ?p b t e u] t
          by (intro failed [where e = "StIo e" and F = F and G = H]) (auto simp: act_map_err_def)
      next
        case (Inr y)
        with Pair w u b show thesis
          using wr.save_ok [of ?p b t u]
          by (intro saved [where b = b and F = F and G = H]) (auto simp: act_map_err_def)
      qed
    qed
  qed
qed

lemma persist_reliable:
  assumes "faults s = []" and "encode js (to_persisted (store s)) = Some b"
  shows "fst (persist js s) = Inr ()" and "faults (snd (persist js s)) = []"
proof -
  have "fst (write_rename (st_path (store s)) b s) = Inr ()"
    "faults (snd (write_rename (st_path (store s)) b s)) = []"
    using wr.save_reliable [OF assms(1)] by blast+
  moreover have "persist js s = act_map_err StIo (write_rename (st_path (store s)) b) s"
    using assms by (auto simp: persist_def act_defs fs_touch_def fs_next_def split: option.splits)
  ultimately show "fst (persist js s) = Inr ()" and "faults (snd (persist js s)) = []"
    by (auto simp: act_map_err_def split: prod.splits sum.splits)
qed

section \<open>Operations\<close>

lemma ingest_cases:
  obtains (not_newer) "ingest js d s = (Inr (diff (reported (store s)) d), s)"
      "desired (store s) \<noteq> None"
  | (failed) e F G where
      "ingest js d s = (Inl e, s\<lparr>files := F, faults := G, store := (store s)\<lparr>desired := Some d\<rparr>\<rparr>)"
      "tmp_of (st_path (store s)) \<noteq> st_path (store s)
         \<Longrightarrow> F (st_path (store s)) = files s (st_path (store s))"
  | (saved) b F G where
      "ingest js d s = (Inr (diff (reported (store s)) d),
         s\<lparr>files := F, faults := G, store := (store s)\<lparr>desired := Some d\<rparr>\<rparr>)"
      "encode js (to_persisted ((store s)\<lparr>desired := Some d\<rparr>)) = Some b"
      "F (st_path (store s)) = Some b"
proof (cases "case desired (store s) of None \<Rightarrow> True | Some d0 \<Rightarrow> seq d0 < seq d")
  case False
  then show thesis using not_newer by (auto simp: ingest_def act_defs split: option.splits)
next
  case True
  let ?s = "s\<lparr>store := (store s)\<lparr>desired := Some d\<rparr>\<rparr>"
  have i: "ingest js d s = act_try (persist js) (\<lambda>_. act_ok (diff (reported (store s)) d)) ?s"
    using True by (simp add: ingest_def act_defs)
  show thesis
  proof (cases rule: persist_cases [where js = js and s = ?s])
    case (failed e F G)
    with i show thesis by (intro that(2) [where e = e and F = F and G = G]) (auto simp: act_defs)
  next
    case (saved b F G)
    with i show thesis by (intro that(3) [where b = b and F = F and G = G]) (auto simp: act_defs)
  qed
qed

lemma mark_cases:
  obtains (failed) e F G where
      "mark_policy_applied js p q s = (Inl e, s\<lparr>files := F, faults := G, store := (store s)
         \<lparr>reported := snd (apply_policy p q (reported (store s))), last_good_policy := p\<rparr>\<rparr>)"
      "tmp_of (st_path (store s)) \<noteq> st_path (store s)
         \<Longrightarrow> F (st_path (store s)) = files s (st_path (store s))"
  | (saved) b F G where
      "mark_policy_applied js p q s = (Inr (fst (apply_policy p q (reported (store s)))),
         s\<lparr>files := F, faults := G, store := (store s)
           \<lparr>reported := snd (apply_policy p q (reported (store s))), last_good_policy := p\<rparr>\<rparr>)"
      "encode js (to_persisted ((store s)
         \<lparr>reported := snd (apply_policy p q (reported (store s))), last_good_policy := p\<rparr>)) = Some b"
      "F (st_path (store s)) = Some b"
proof -
  let ?r = "snd (apply_policy p q (reported (store s)))"
  let ?s = "s\<lparr>store := (store s)\<lparr>reported := ?r, last_good_policy := p\<rparr>\<rparr>"
  have i: "mark_policy_applied js p q s =
      act_try (persist js) (\<lambda>_. act_ok (fst (apply_policy p q (reported (store s))))) ?s"
    by (cases "apply_policy p q (reported (store s))") (simp add: mark_policy_applied_def act_defs)
  show thesis
  proof (cases rule: persist_cases [where js = js and s = ?s])
    case (failed e F G)
    with i show thesis by (intro that(1) [where e = e and F = F and G = G]) (auto simp: act_defs)
  next
    case (saved b F G)
    with i show thesis by (intro that(2) [where b = b and F = F and G = G]) (auto simp: act_defs)
  qed
qed

text \<open>On a disk that does not fail, with an encoder that does not fail, the store does not fail.\<close>

definition disk_ok :: "Persisted json \<Rightarrow> 'z store_sys_scheme \<Rightarrow> bool" where
  "disk_ok js s \<longleftrightarrow> faults s = [] \<and> (\<forall>x. encode js x \<noteq> None)"

lemma persist_disk_ok:
  assumes "disk_ok js s"
  shows "\<exists>F. persist js s = (Inr (), s\<lparr>files := F\<rparr>)"
proof -
  obtain b where b: "encode js (to_persisted (store s)) = Some b"
    using assms by (auto simp: disk_ok_def)
  let ?p = "st_path (store s)"
  have ok: "faults s = []" using assms by (simp add: disk_ok_def)
  have "(case parent ?p of None \<Rightarrow> act_ok ()
      | Some d \<Rightarrow> if d \<noteq> [] then act_map_err StIo fs_touch else act_ok ()) s = (Inr (), s)"
    using ok by (auto simp: act_defs fs_defs split: option.splits)
  then have p: "persist js s = act_map_err StIo (write_rename ?p b) s"
    using b by (simp add: persist_def act_defs)
  obtain F G where fg: "snd (write_rename ?p b s) = s\<lparr>files := F, faults := G\<rparr>"
    using wr.save_only_disk by blast
  then have "write_rename ?p b s = (Inr (), s\<lparr>files := F, faults := G\<rparr>)" "G = []"
    using wr.save_reliable [OF ok, of ?p b] by (auto simp: prod_eq_iff)
  moreover have "s\<lparr>files := F, faults := []\<rparr> = s\<lparr>files := F\<rparr>" using ok by (cases s) simp
  ultimately show ?thesis using p by (auto simp: act_map_err_def)
qed

lemma ingest_reliable:
  assumes "disk_ok js s"
  shows "\<exists>t. ingest js d s = (Inr (diff (reported (store s)) d), t) \<and> disk_ok js t"
proof (cases "case desired (store s) of None \<Rightarrow> True | Some d0 \<Rightarrow> seq d0 < seq d")
  case True
  let ?s = "s\<lparr>store := (store s)\<lparr>desired := Some d\<rparr>\<rparr>"
  have "disk_ok js ?s" using assms by (simp add: disk_ok_def)
  then obtain F where "persist js ?s = (Inr (), ?s\<lparr>files := F\<rparr>)" using persist_disk_ok by blast
  with True assms show ?thesis by (auto simp: ingest_def act_defs disk_ok_def)
next
  case False
  with assms show ?thesis by (auto simp: ingest_def act_defs)
qed

lemma mark_reliable:
  assumes "disk_ok js s"
  shows "\<exists>t. mark_policy_applied js p q s = (Inr (fst (apply_policy p q (reported (store s)))), t)
     \<and> disk_ok js t"
proof -
  let ?s = "s\<lparr>store := (store s)\<lparr>reported := snd (apply_policy p q (reported (store s))), last_good_policy := p\<rparr>\<rparr>"
  have "disk_ok js ?s" using assms by (simp add: disk_ok_def)
  then obtain F where "persist js ?s = (Inr (), ?s\<lparr>files := F\<rparr>)" using persist_disk_ok by blast
  then show ?thesis
    using assms by (cases "apply_policy p q (reported (store s))")
      (auto simp: mark_policy_applied_def act_defs disk_ok_def)
qed

text \<open>
  A life of the store: operations in any order, each under its own schedule of faults, and
  restarts, which drop the memory and open the file again (a start that fails is retried).
\<close>

datatype store_op = Ingest DesiredState | IngestStrict DesiredState | Mark Policy u64 | Restart

fun run_op :: "Persisted json \<Rightarrow> store_op \<Rightarrow> store_sys \<Rightarrow> store_sys" where
  "run_op js (Ingest d) s = snd (ingest js d s)"
| "run_op js (IngestStrict d) s = snd (ingest_strict js d s)"
| "run_op js (Mark p q) s = snd (mark_policy_applied js p q s)"
| "run_op js Restart s =
     (case StateStore_open js (st_path (store s)) s of
        (Inl e, t) \<Rightarrow> t
      | (Inr st, t) \<Rightarrow> t\<lparr>store := st\<rparr>)"

fun run_ops :: "Persisted json \<Rightarrow> (store_op \<times> io_outcome list) list \<Rightarrow> store_sys \<Rightarrow> store_sys" where
  "run_ops js [] s = s"
| "run_ops js ((x, fl) # xs) s = run_ops js xs (run_op js x (s\<lparr>faults := fl\<rparr>))"

fun mem_states ::
  "Persisted json \<Rightarrow> (store_op \<times> io_outcome list) list \<Rightarrow> store_sys \<Rightarrow> StateStore list" where
  "mem_states js [] s = [store s]"
| "mem_states js ((x, fl) # xs) s = store s # mem_states js xs (run_op js x (s\<lparr>faults := fl\<rparr>))"

definition store_inv :: "StateStore \<Rightarrow> bool" where
  "store_inv st \<longleftrightarrow> version (last_good_policy st) = policy_version (reported st)"

text \<open>
  The invariant of a life: memory is consistent and the file holds a state that memory had
  (one of \<open>H\<close>).
\<close>

definition life_inv :: "Persisted json \<Rightarrow> path \<Rightarrow> StateStore set \<Rightarrow> store_sys \<Rightarrow> bool" where
  "life_inv js p H s \<longleftrightarrow>
     st_path (store s) = p \<and> store s \<in> H \<and> fresh_store p \<in> H \<and> (\<forall>st \<in> H. store_inv st) \<and>
     (\<exists>st \<in> H. reopen js p (files s) = Some st)"

lemma store_inv_fresh [simp]: "store_inv (fresh_store p)"
  by (simp add: store_inv_def fresh_store_def default_policy_def default_reported_def)

lemma reopen_saved:
  "json_ok js \<Longrightarrow> encode js (to_persisted st) = Some b \<Longrightarrow> F (st_path st) = Some b
     \<Longrightarrow> reopen js (st_path st) F = Some st"
  by (simp add: reopen_def json_ok_def)

lemma life_inv_memory:
  assumes "life_inv js p H s" and "store_inv st" and "st_path st = p" and "F p = files s p"
  shows "life_inv js p (insert st H) (s\<lparr>files := F, faults := G, store := st\<rparr>)"
  using assms by (auto simp: life_inv_def reopen_def)

lemma life_inv_saved:
  assumes "json_ok js" and "life_inv js p H s" and "store_inv st" and "st_path st = p"
    and "encode js (to_persisted st) = Some b" and "F p = Some b"
  shows "life_inv js p (insert st H) (s\<lparr>files := F, faults := G, store := st\<rparr>)"
  using assms reopen_saved [of js st b F] by (auto simp: life_inv_def)

lemma life_inv_ingest:
  assumes js: "json_ok js" and tmp: "tmp_of p \<noteq> p" and inv: "life_inv js p H s"
  shows "life_inv js p (insert (store (snd (ingest js d s))) H) (snd (ingest js d s))"
proof -
  let ?st = "(store s)\<lparr>desired := Some d\<rparr>"
  from inv have p: "st_path (store s) = p" "store s \<in> H" "store_inv ?st"
    by (auto simp: life_inv_def store_inv_def)
  show ?thesis
  proof (cases rule: ingest_cases [where js = js and d = d and s = s])
    case not_newer
    with inv p show ?thesis by (simp add: insert_absorb)
  next
    case (failed e F G)
    with p tmp life_inv_memory [OF inv, of ?st F G] show ?thesis by simp
  next
    case (saved b F G)
    with p life_inv_saved [OF js inv, of ?st b F G] show ?thesis by simp
  qed
qed

lemma life_inv_mark:
  assumes js: "json_ok js" and tmp: "tmp_of p \<noteq> p" and inv: "life_inv js p H s"
  shows "life_inv js p (insert (store (snd (mark_policy_applied js x q s))) H)
           (snd (mark_policy_applied js x q s))"
proof -
  let ?st = "(store s)\<lparr>reported := snd (apply_policy x q (reported (store s))), last_good_policy := x\<rparr>"
  from inv have p: "st_path (store s) = p" "store_inv ?st"
    by (auto simp: life_inv_def store_inv_def snd_apply_policy)
  show ?thesis
  proof (cases rule: mark_cases [where js = js and p = x and q = q and s = s])
    case (failed e F G)
    with p tmp life_inv_memory [OF inv, of ?st F G] show ?thesis by simp
  next
    case (saved b F G)
    with p life_inv_saved [OF js inv, of ?st b F G] show ?thesis by simp
  qed
qed

lemma life_inv_restart:
  assumes "life_inv js p H s"
  shows "life_inv js p (insert (store (run_op js Restart s)) H) (run_op js Restart s)"
proof (cases "StateStore_open js (st_path (store s)) s")
  case (Pair r t)
  show ?thesis
  proof (cases r)
    case (Inl e)
    then have "\<exists>G. t = s\<lparr>faults := G\<rparr>"
      using Pair by (cases s) (auto simp: StateStore_open_def act_defs fs_defs
          split: option.splits list.splits io_outcome.splits if_splits)
    with Inl Pair assms show ?thesis by (auto simp: life_inv_def insert_absorb)
  next
    case (Inr st)
    with Pair have "st = fresh_store p \<or> reopen js p (files s) = Some st" "\<exists>G. t = s\<lparr>faults := G\<rparr>"
      using open_any_fault [of js p s st t] assms by (auto simp: life_inv_def)
    with Inr Pair assms show ?thesis
      by (auto simp: life_inv_def insert_absorb reopen_def fresh_store_def of_persisted_def
          split: option.splits)
  qed
qed

lemma life_inv_faults [simp]: "life_inv js p H (s\<lparr>faults := G\<rparr>) = life_inv js p H s"
  by (simp add: life_inv_def)

lemma life_inv_run_op:
  assumes "json_ok js" and "tmp_of p \<noteq> p" and "life_inv js p H s"
  shows "life_inv js p (insert (store (run_op js x s)) H) (run_op js x s)"
proof (cases x)
  case (IngestStrict d)
  with assms life_inv_ingest [OF assms, of d] show ?thesis
    by (auto simp: ingest_strict_def act_defs life_inv_def insert_absorb)
qed (use assms life_inv_ingest life_inv_mark life_inv_restart in simp_all)

lemma life_inv_run:
  assumes "json_ok js" and "tmp_of p \<noteq> p" and "life_inv js p H s"
  shows "life_inv js p (H \<union> set (mem_states js xs s)) (run_ops js xs s)"
  using assms(3)
proof (induction xs arbitrary: s H)
  case Nil
  then show ?case by (simp add: life_inv_def insert_absorb)
next
  case (Cons y xs)
  obtain x fl where y: "y = (x, fl)" by (cases y)
  let ?s = "run_op js x (s\<lparr>faults := fl\<rparr>)"
  have "life_inv js p (insert (store ?s) H) ?s"
    using life_inv_run_op [OF assms(1,2)] Cons.prems by simp
  then have "life_inv js p (insert (store ?s) H \<union> set (mem_states js xs ?s)) (run_ops js xs ?s)"
    by (rule Cons.IH)
  moreover have "store ?s \<in> set (mem_states js xs ?s)" by (cases xs) auto
  moreover have "store s \<in> H" using Cons.prems by (simp add: life_inv_def)
  ultimately show ?case using y by (simp add: insert_absorb)
qed

section \<open>Properties\<close>

text \<open>
  C7. Crash consistency of the last-known-good store. Start on a disk without the file and
  run any sequence of store operations, each under any schedule of I/O faults (torn writes
  included), with restarts anywhere. The file can then always be opened: the next start gets
  a state the process held in memory at some point of the run, and in it the last-known-good
  policy is the policy whose version is reported. Relies on JSON decoding what it encoded,
  and on a file name that is not its own temporary name.
\<close>

theorem store_crash_consistent:
  assumes "json_ok js" and "tmp_of p \<noteq> p" and "F p = None"
    and "s0 = \<lparr>files = F, faults = [], store = fresh_store p\<rparr>"
  shows "\<exists>st \<in> set (mem_states js xs s0).
     fst (StateStore_open js p ((run_ops js xs s0)\<lparr>faults := []\<rparr>)) = Inr st
     \<and> version (last_good_policy st) = policy_version (reported st)"
proof -
  have "life_inv js p {fresh_store p} s0"
    using assms by (simp add: life_inv_def reopen_def) (simp add: fresh_store_def)
  then have "life_inv js p ({fresh_store p} \<union> set (mem_states js xs s0)) (run_ops js xs s0)"
    by (rule life_inv_run [OF assms(1,2)])
  moreover have "fresh_store p \<in> set (mem_states js xs s0)"
    using assms(4) by (cases xs) auto
  ultimately obtain st where "st \<in> set (mem_states js xs s0)" "store_inv st"
      "reopen js p (files (run_ops js xs s0)) = Some st"
    by (auto simp: life_inv_def)
  then show ?thesis
    by (intro bexI [of _ st]) (simp_all add: open_reopen store_inv_def)
qed

text \<open>
  C29. Durability of an applied policy: when \<open>mark_policy_applied\<close> returns \<open>Ok\<close>, a restart
  at that moment reads back exactly the state in memory, whose last-known-good policy is the
  applied one, whose reported version is its version and whose sequence number is the
  highest seen; the flag returned says whether the reported state changed. When it returns
  an error, the file still holds what it held before the call.
\<close>

theorem mark_policy_applied_durable:
  assumes "json_ok js" and "tmp_of (st_path (store s)) \<noteq> st_path (store s)"
  shows "case mark_policy_applied js x q s of
      (Inr changed, t) \<Rightarrow>
        StateStore_open js (st_path (store s)) (t\<lparr>faults := []\<rparr>) = (Inr (store t), t\<lparr>faults := []\<rparr>)
        \<and> last_good_policy (store t) = x
        \<and> policy_version (reported (store t)) = version x
        \<and> applied_seq (reported (store t)) = max (applied_seq (reported (store s))) q
        \<and> changed = (reported (store t) \<noteq> reported (store s))
    | (Inl e, t) \<Rightarrow> reopen js (st_path (store s)) (files t) = reopen js (st_path (store s)) (files s)"
proof (cases rule: mark_cases [where js = js and p = x and q = q and s = s])
  case (failed e F G)
  with assms show ?thesis by (simp add: reopen_def)
next
  case (saved b F G)
  let ?st = "(store s)\<lparr>reported := snd (apply_policy x q (reported (store s))), last_good_policy := x\<rparr>"
  have "reopen js (st_path (store s)) F = Some ?st"
    using reopen_saved [OF assms(1), of ?st b F] saved by simp
  then show ?thesis
    using saved by (simp add: open_reopen apply_policy_changed snd_apply_policy)
qed

text \<open>
  The diff against every delivery: a message whose sequence number is not above the
  applied one is ignored whatever it carries, a fresh one with another policy version is
  applied, and only a fresh one with the reported policy version may stage a (non-empty,
  different) software version.
\<close>

theorem diff_decision:
  "diff r d =
     (if seq d \<le> applied_seq r then Noop
      else if version (policy d) \<noteq> policy_version r then ApplyPolicy (policy d)
      else if d_software_version d \<in> {[], r_software_version r} then Noop
      else StageOta (d_software_version d))"
  by (auto simp: diff_def)


end
