(* ===== verification/Edge_Ota.thy ===== *)
theory Edge_Ota
  imports Ota_Version Edge_State
begin

text \<open>
  The A/B update state machine of \<open>crates/edge-ota/src/lib.rs\<close>: its journal, its operations
  with every early return, and its life under I/O faults, crashes and restarts. The crates
  \<open>serde_json\<close>, \<open>sha2\<close>, \<open>hex\<close> and \<open>ed25519_dalek\<close> are the parameter \<open>ota_env\<close>.
\<close>

section \<open>Data\<close>

datatype Slot = A | B

fun other :: "Slot \<Rightarrow> Slot" where
  "other A = B"
| "other B = A"

datatype OtaState = Idle | Downloading | Verifying | Staged | RebootPending | BootingCandidate
  | HealthChecking | Committed | RollbackPending | RolledBack | Failed

instantiation Slot :: default
begin

definition default_Slot :: Slot where
  "default_Slot = A"

instance ..

end

instantiation OtaState :: default
begin

definition default_OtaState :: OtaState where
  "default_OtaState = Idle"

instance ..

end

datatype OtaError = OtaIo io_error | OtaDecode | HashMismatch (expected: string) (got_hash: string)
  | BadSignature | InvalidTransition OtaState | HealthCheck string
  | DowngradeRejected (candidate: string) (committed: string) | BadKey string | OtaOther string

record OtaManifest =
  m_version :: string
  artifact_sha256_hex :: string
  signature_hex :: string
  size_bytes :: u64

record PersistedOta =
  j_state :: OtaState
  j_active_slot :: Slot
  j_candidate_slot :: "Slot option"
  j_candidate_version :: "string option"
  j_last_error :: "string option"
  j_highest_committed_version :: "string option"

record OtaManager =
  dir :: path
  state :: OtaState
  active_slot :: Slot
  candidate_slot :: "Slot option"
  candidate_version :: "string option"
  candidate_bytes :: "bytes option"
  last_error :: "string option"
  highest_committed_version :: "string option"
  verifying_key :: bytes

record 'k ota_env =
  journal :: "PersistedOta json"
  sha256 :: "bytes \<Rightarrow> bytes"
  hex_encode :: "bytes \<Rightarrow> string"
  hex_decode :: "string \<Rightarrow> bytes option"
  key_from_bytes :: "bytes \<Rightarrow> string + 'k"
  ed_verify :: "'k \<Rightarrow> bytes \<Rightarrow> bytes \<Rightarrow> bool"

record ota_sys = fs +
  mgr :: OtaManager

section \<open>Journal\<close>

definition journal_path :: "path \<Rightarrow> path" where
  "journal_path d = d @ [''ota-journal.json'']"

definition to_journal :: "OtaManager \<Rightarrow> PersistedOta" where
  "to_journal m = \<lparr>j_state = state m, j_active_slot = active_slot m,
     j_candidate_slot = candidate_slot m, j_candidate_version = candidate_version m,
     j_last_error = last_error m, j_highest_committed_version = highest_committed_version m\<rparr>"

definition ota_persist :: "'k ota_env \<Rightarrow> OtaManager \<Rightarrow> ('z fs_scheme, OtaError, unit) act" where
  "ota_persist env m =
     act_try (act_of_option OtaDecode (encode (journal env) (to_journal m))) (\<lambda>b.
     act_map_err OtaIo (write_sync_rename (journal_path (dir m)) b))"

definition OtaManager_open ::
  "'k ota_env \<Rightarrow> path \<Rightarrow> bytes \<Rightarrow> ('z fs_scheme, OtaError, OtaManager) act" where
  "OtaManager_open env d key =
     act_try (act_map_err OtaIo fs_touch) (\<lambda>_.
     act_try (fs_exists (journal_path d)) (\<lambda>ex.
     if ex then
       act_try (act_map_err OtaIo (fs_read (journal_path d))) (\<lambda>b.
       act_try (act_of_option OtaDecode (decode (journal env) b)) (\<lambda>p.
       act_ok \<lparr>dir = d, state = j_state p, active_slot = j_active_slot p,
         candidate_slot = j_candidate_slot p, candidate_version = j_candidate_version p,
         candidate_bytes = None, last_error = j_last_error p,
         highest_committed_version = j_highest_committed_version p, verifying_key = key\<rparr>))
     else
       (let m = \<lparr>dir = d, state = Idle, active_slot = A, candidate_slot = None,
          candidate_version = None, candidate_bytes = None, last_error = None,
          highest_committed_version = None, verifying_key = key\<rparr>
        in act_try (ota_persist env m) (\<lambda>_. act_ok m))))"

definition upd_mgr :: "(OtaManager \<Rightarrow> OtaManager) \<Rightarrow> ('z ota_sys_scheme, OtaError, unit) act" where
  "upd_mgr f = act_update (\<lambda>s. s\<lparr>mgr := f (mgr s)\<rparr>)"

definition set_state :: "'k ota_env \<Rightarrow> OtaState \<Rightarrow> ('z ota_sys_scheme, OtaError, unit) act" where
  "set_state env st =
     act_try (upd_mgr (\<lambda>m. m\<lparr>state := st\<rparr>)) (\<lambda>_.
     act_with (\<lambda>s. ota_persist env (mgr s)))"

section \<open>Operations\<close>

text \<open>The states in which no update is in flight.\<close>

fun quiescent :: "OtaState \<Rightarrow> bool" where
  "quiescent Idle = True"
| "quiescent Committed = True"
| "quiescent RolledBack = True"
| "quiescent Failed = True"
| "quiescent _ = False"

fun show_OtaState :: "OtaState \<Rightarrow> string" where
  "show_OtaState Idle = ''Idle''"
| "show_OtaState Downloading = ''Downloading''"
| "show_OtaState Verifying = ''Verifying''"
| "show_OtaState Staged = ''Staged''"
| "show_OtaState RebootPending = ''RebootPending''"
| "show_OtaState BootingCandidate = ''BootingCandidate''"
| "show_OtaState HealthChecking = ''HealthChecking''"
| "show_OtaState Committed = ''Committed''"
| "show_OtaState RollbackPending = ''RollbackPending''"
| "show_OtaState RolledBack = ''RolledBack''"
| "show_OtaState Failed = ''Failed''"

definition start_download ::
  "'k ota_env \<Rightarrow> OtaManifest \<Rightarrow> ('z ota_sys_scheme, OtaError, bool) act" where
  "start_download env man = act_with (\<lambda>s.
     let m = mgr s
     in if candidate_version m = Some (m_version man) \<and> \<not> quiescent (state m) then act_ok False
        else if candidate_version m \<noteq> None \<and> \<not> quiescent (state m)
          then act_err (OtaOther (''busy in '' @ show_OtaState (state m) @ '', cannot start ''
                 @ m_version man))
        else act_try (case highest_committed_version m of
                  None \<Rightarrow> act_ok ()
                | Some c \<Rightarrow> if compare_versions (m_version man) c \<noteq> Greater
                    then act_err (DowngradeRejected (m_version man) c) else act_ok ()) (\<lambda>_.
             act_try (upd_mgr (\<lambda>m. m\<lparr>candidate_slot := Some (other (active_slot m)),
                candidate_version := Some (m_version man), candidate_bytes := None,
                last_error := None\<rparr>)) (\<lambda>_.
             act_try (set_state env Downloading) (\<lambda>_.
             act_ok True))))"

text \<open>
  The size check adds one mebibyte to the declared size in 64-bit arithmetic, which wraps
  in a release build (and panics in a debug build) for sizes within a mebibyte of the top.
\<close>

definition ingest_chunk :: "bytes \<Rightarrow> OtaManifest \<Rightarrow> ('z ota_sys_scheme, OtaError, unit) act" where
  "ingest_chunk chunk man = act_with (\<lambda>s.
     if state (mgr s) \<noteq> Downloading then act_err (InvalidTransition (state (mgr s)))
     else if size_bytes man + 1024 * 1024 < of_nat (length chunk)
       then act_err (OtaOther ''chunk exceeds declared size'')
     else upd_mgr (\<lambda>m. m\<lparr>candidate_bytes :=
       Some ((case candidate_bytes m of None \<Rightarrow> [] | Some b \<Rightarrow> b) @ chunk)\<rparr>))"

fun show_Slot :: "Slot \<Rightarrow> string" where
  "show_Slot A = ''A''"
| "show_Slot B = ''B''"

definition slot_dir :: "path \<Rightarrow> Slot \<Rightarrow> path" where
  "slot_dir d sl = d @ [''slot-'' @ show_Slot sl]"

definition str_bytes :: "string \<Rightarrow> bytes" where
  "str_bytes s = map of_char s"

text \<open>A failed verification records the reason, journals \<open>Failed\<close> and returns the error.\<close>

definition fail_verify :: "'k ota_env \<Rightarrow> string \<Rightarrow> OtaError \<Rightarrow> ('z ota_sys_scheme, OtaError, unit) act" where
  "fail_verify env why e =
     act_try (upd_mgr (\<lambda>m. m\<lparr>last_error := Some why\<rparr>)) (\<lambda>_.
     act_try (set_state env Failed) (\<lambda>_.
     act_err e))"

definition stage_artifact ::
  "'k ota_env \<Rightarrow> path \<Rightarrow> bytes \<Rightarrow> OtaManifest \<Rightarrow> ('z ota_sys_scheme, OtaError, unit) act" where
  "stage_artifact env sd b man =
     act_try (act_map_err OtaIo fs_touch) (\<lambda>_.
     act_try (act_map_err OtaIo (fs_write (sd @ [''artifact.bin'']) b)) (\<lambda>_.
     act_try (act_map_err OtaIo (fs_write (sd @ [''version'']) (str_bytes (m_version man)))) (\<lambda>_.
     set_state env Staged)))"

text \<open>The body of \<open>verify\<close> once \<open>Verifying\<close> is journaled: hash, then signature, then staging.\<close>

definition check_artifact :: "'k ota_env \<Rightarrow> OtaManifest \<Rightarrow> ('z ota_sys_scheme, OtaError, unit) act" where
  "check_artifact env man = act_with (\<lambda>s.
     let m = mgr s;
         b = (case candidate_bytes m of None \<Rightarrow> [] | Some b \<Rightarrow> b);
         got = hex_encode env (sha256 env b)
     in if got \<noteq> to_lowercase (artifact_sha256_hex man)
        then fail_verify env ''hash mismatch'' (HashMismatch (artifact_sha256_hex man) got)
        else
          act_try (act_of_option BadSignature (hex_decode env (trim (signature_hex man)))) (\<lambda>sig.
          act_try (if length sig = 64 then act_ok () else act_err BadSignature) (\<lambda>_.
          act_try (case key_from_bytes env (verifying_key m) of
                     Inl e \<Rightarrow> act_err (BadKey e) | Inr k \<Rightarrow> act_ok k) (\<lambda>k.
          if \<not> ed_verify env k b sig then fail_verify env ''bad signature'' BadSignature
          else stage_artifact env
            (slot_dir (dir m) (case candidate_slot m of None \<Rightarrow> B | Some c \<Rightarrow> c)) b man))))"

definition verify :: "'k ota_env \<Rightarrow> OtaManifest \<Rightarrow> ('z ota_sys_scheme, OtaError, unit) act" where
  "verify env man = act_with (\<lambda>s.
     if state (mgr s) \<noteq> Downloading then act_err (InvalidTransition (state (mgr s)))
     else act_try (set_state env Verifying) (\<lambda>_. check_artifact env man))"

definition mark_reboot_pending :: "'k ota_env \<Rightarrow> ('z ota_sys_scheme, OtaError, unit) act" where
  "mark_reboot_pending env = act_with (\<lambda>s.
     if state (mgr s) \<noteq> Staged then act_err (InvalidTransition (state (mgr s)))
     else set_state env RebootPending)"

definition simulate_reboot :: "'k ota_env \<Rightarrow> ('z ota_sys_scheme, OtaError, unit) act" where
  "simulate_reboot env = act_with (\<lambda>s.
     if state (mgr s) \<noteq> RebootPending then act_err (InvalidTransition (state (mgr s)))
     else act_try (set_state env BootingCandidate) (\<lambda>_. set_state env HealthChecking))"

definition rollback :: "'k ota_env \<Rightarrow> ('z ota_sys_scheme, OtaError, unit) act" where
  "rollback env = act_with (\<lambda>s.
     if state (mgr s) \<notin> {RollbackPending, HealthChecking, Failed}
     then act_err (InvalidTransition (state (mgr s)))
     else
       act_try (upd_mgr (\<lambda>m. m\<lparr>candidate_slot := None, candidate_version := None,
         candidate_bytes := None\<rparr>)) (\<lambda>_.
       set_state env RolledBack))"

text \<open>The highest version ever committed, after committing \<open>v\<close>.\<close>

definition raise_highest :: "string option \<Rightarrow> string option \<Rightarrow> string option" where
  "raise_highest v h =
     (case v of
        None \<Rightarrow> h
      | Some v' \<Rightarrow> (case h of
            None \<Rightarrow> Some v'
          | Some h' \<Rightarrow> if compare_versions v' h' = Greater then Some v' else h))"

definition health_check ::
  "'k ota_env \<Rightarrow> bool \<Rightarrow> string \<Rightarrow> ('z ota_sys_scheme, OtaError, unit) act" where
  "health_check env healthy detail = act_with (\<lambda>s.
     if state (mgr s) \<noteq> HealthChecking then act_err (InvalidTransition (state (mgr s)))
     else if healthy then
       act_try (upd_mgr (\<lambda>m. m\<lparr>
          active_slot := (case candidate_slot m of None \<Rightarrow> other (active_slot m) | Some c \<Rightarrow> c),
          highest_committed_version :=
            raise_highest (candidate_version m) (highest_committed_version m),
          candidate_slot := None, candidate_version := None, candidate_bytes := None\<rparr>)) (\<lambda>_.
       set_state env Committed)
     else
       act_try (upd_mgr (\<lambda>m. m\<lparr>last_error := Some detail\<rparr>)) (\<lambda>_.
       act_try (set_state env RollbackPending) (\<lambda>_.
       rollback env)))"

definition recover :: "'k ota_env \<Rightarrow> ('z ota_sys_scheme, OtaError, OtaState) act" where
  "recover env =
     act_try (act_with (\<lambda>s.
       if state (mgr s) \<in> {Downloading, Verifying} then
         act_try (upd_mgr (\<lambda>m. m\<lparr>candidate_bytes := None\<rparr>)) (\<lambda>_. set_state env Idle)
       else if state (mgr s) \<in> {RebootPending, BootingCandidate, HealthChecking}
         then set_state env HealthChecking
       else act_ok ())) (\<lambda>_.
     act_with (\<lambda>s. act_ok (state (mgr s))))"

section \<open>Release signing\<close>

text \<open>
  The signing half of \<open>ed25519_dalek\<close>, used by release infrastructure: key generation from a
  seed, the public key and the signature, as a parameter.
\<close>

record 'sk signer =
  sk_from_bytes :: "bytes \<Rightarrow> 'sk"
  sk_public :: "'sk \<Rightarrow> bytes"
  sk_sign :: "'sk \<Rightarrow> bytes \<Rightarrow> bytes"

definition signing_key_from_seed :: "'sk signer \<Rightarrow> bytes \<Rightarrow> 'sk" where
  "signing_key_from_seed sg seed = sk_from_bytes sg seed"

definition verifying_key_bytes :: "'sk signer \<Rightarrow> 'sk \<Rightarrow> bytes" where
  "verifying_key_bytes sg sk = sk_public sg sk"

definition sign_artifact :: "'k ota_env \<Rightarrow> 'sk signer \<Rightarrow> bytes \<Rightarrow> 'sk \<Rightarrow> string \<times> string" where
  "sign_artifact env sg b sk = (hex_encode env (sha256 env b), hex_encode env (sk_sign sg sk b))"

section \<open>A life of the device\<close>

datatype ota_op = StartDownload OtaManifest | IngestChunk bytes OtaManifest | Verify OtaManifest
  | MarkRebootPending | SimulateReboot | HealthCheckOp bool string | Rollback | Recover | Reopen

text \<open>
  One call on the manager; \<open>Reopen\<close> is a crash or restart: memory is lost and the journal is
  opened again (a start that fails leaves the process down, to be started again).
\<close>

fun ota_run_op :: "'k ota_env \<Rightarrow> ota_op \<Rightarrow> ota_sys \<Rightarrow> ota_sys" where
  "ota_run_op env (StartDownload man) s = snd (start_download env man s)"
| "ota_run_op env (IngestChunk c man) s = snd (ingest_chunk c man s)"
| "ota_run_op env (Verify man) s = snd (verify env man s)"
| "ota_run_op env MarkRebootPending s = snd (mark_reboot_pending env s)"
| "ota_run_op env SimulateReboot s = snd (simulate_reboot env s)"
| "ota_run_op env (HealthCheckOp h detail) s = snd (health_check env h detail s)"
| "ota_run_op env Rollback s = snd (rollback env s)"
| "ota_run_op env Recover s = snd (recover env s)"
| "ota_run_op env Reopen s =
     (case OtaManager_open env (dir (mgr s)) (verifying_key (mgr s)) s of
        (Inl e, t) \<Rightarrow> t
      | (Inr m, t) \<Rightarrow> t\<lparr>mgr := m\<rparr>)"

text \<open>A sequence of calls, each under its own schedule of faults.\<close>

fun ota_run :: "'k ota_env \<Rightarrow> (ota_op \<times> io_outcome list) list \<Rightarrow> ota_sys \<Rightarrow> ota_sys" where
  "ota_run env [] s = s"
| "ota_run env ((x, fl) # xs) s = ota_run env xs (ota_run_op env x (s\<lparr>faults := fl\<rparr>))"

text \<open>
  The states a device can be in: opened on a disk without a journal, then any operations in
  any order, each under any schedule of faults.
\<close>

inductive ota_reach :: "'k ota_env \<Rightarrow> path \<Rightarrow> bytes \<Rightarrow> ota_sys \<Rightarrow> bool"
  for env :: "'k ota_env" and d :: path and key :: bytes where
  boot: "files s (journal_path d) = None \<Longrightarrow> OtaManager_open env d key s = (Inr m, t)
     \<Longrightarrow> ota_reach env d key (t\<lparr>mgr := m\<rparr>)"
| op: "ota_reach env d key s \<Longrightarrow> ota_reach env d key (ota_run_op env x (s\<lparr>faults := fl\<rparr>))"

end
