(* ===== verification/Ota_Safety.thy ===== *)
theory Ota_Safety
  imports Edge_Ota
begin

text \<open>
  Safety of the update state machine: the invariant that ties the journal, the memory and
  the slot contents together, its preservation by every operation under faults and crashes,
  and the properties that follow.
\<close>

section \<open>Invariant\<close>

definition artifact :: "path \<Rightarrow> Slot \<Rightarrow> path" where
  "artifact d sl = slot_dir d sl @ [''artifact.bin'']"

text \<open>Some signature of the release key covers the bytes.\<close>

definition release_signed :: "'k ota_env \<Rightarrow> bytes \<Rightarrow> bytes \<Rightarrow> bool" where
  "release_signed env key b \<longleftrightarrow>
     (\<exists>k sig. key_from_bytes env key = Inr k \<and> length sig = 64 \<and> ed_verify env k b sig)"

definition signed_slot :: "'k ota_env \<Rightarrow> bytes \<Rightarrow> path \<Rightarrow> (path \<Rightarrow> bytes option) \<Rightarrow> Slot \<Rightarrow> bool" where
  "signed_slot env key d F sl \<longleftrightarrow> (\<exists>b. F (artifact d sl) = Some b \<and> release_signed env key b)"

fun past_staging :: "OtaState \<Rightarrow> bool" where
  "past_staging Staged = True"
| "past_staging RebootPending = True"
| "past_staging BootingCandidate = True"
| "past_staging HealthChecking = True"
| "past_staging _ = False"

definition journaled :: "'k ota_env \<Rightarrow> path \<Rightarrow> (path \<Rightarrow> bytes option) \<Rightarrow> PersistedOta option" where
  "journaled env d F = Option.bind (F (journal_path d)) (decode (journal env))"

text \<open>
  A journal entry agrees with the slots: an update in flight has a candidate version and
  targets the inactive slot; once staged, the inactive slot holds a signed artifact; once
  something was committed, the active slot holds a signed artifact.
\<close>

definition view_inv :: "'k ota_env \<Rightarrow> bytes \<Rightarrow> path \<Rightarrow> (path \<Rightarrow> bytes option) \<Rightarrow> PersistedOta \<Rightarrow> bool" where
  "view_inv env key d F p \<longleftrightarrow>
     (\<not> quiescent (j_state p) \<longrightarrow>
        j_candidate_version p \<noteq> None \<and> j_candidate_slot p = Some (other (j_active_slot p))) \<and>
     (past_staging (j_state p) \<longrightarrow> signed_slot env key d F (other (j_active_slot p))) \<and>
     (j_highest_committed_version p \<noteq> None \<longrightarrow> signed_slot env key d F (j_active_slot p))"

definition journal_inv :: "'k ota_env \<Rightarrow> bytes \<Rightarrow> path \<Rightarrow> (path \<Rightarrow> bytes option) \<Rightarrow> bool" where
  "journal_inv env key d F \<longleftrightarrow> (\<exists>p. journaled env d F = Some p \<and> view_inv env key d F p)"

text \<open>
  The invariant of the device: journal and memory both agree with the slots. \<open>ota_pre\<close> is
  the same with the state the manager is about to enter.
\<close>

definition ota_pre :: "'k ota_env \<Rightarrow> bytes \<Rightarrow> path \<Rightarrow> OtaState \<Rightarrow> 'z ota_sys_scheme \<Rightarrow> bool" where
  "ota_pre env key d st s \<longleftrightarrow>
     dir (mgr s) = d \<and> verifying_key (mgr s) = key \<and> journal_inv env key d (files s) \<and>
     view_inv env key d (files s) ((to_journal (mgr s))\<lparr>j_state := st\<rparr>)"

definition ota_inv :: "'k ota_env \<Rightarrow> bytes \<Rightarrow> path \<Rightarrow> 'z ota_sys_scheme \<Rightarrow> bool" where
  "ota_inv env key d s \<longleftrightarrow> ota_pre env key d (state (mgr s)) s"

section \<open>Saving the journal\<close>

lemma other_neq [simp]: "other x \<noteq> x" "x \<noteq> other x" "other (other x) = x"
  by (cases x; simp)+

lemma tmp_of_journal: "tmp_of (journal_path d) = d @ [''ota-journal.tmp'']"
  by (simp add: journal_path_def with_extension_def file_stem_def)

lemma journal_neq_tmp [simp]: "tmp_of (journal_path d) \<noteq> journal_path d"
  unfolding tmp_of_journal by (simp add: journal_path_def)

lemma artifact_neq [simp]:
  "artifact d sl \<noteq> journal_path d" "artifact d sl \<noteq> tmp_of (journal_path d)"
  "journal_path d \<noteq> artifact d sl"
  "journal_path d \<noteq> slot_dir d sl @ [x]" "artifact d sl \<noteq> slot_dir d sl' @ [''version'']"
  unfolding tmp_of_journal by (simp_all add: artifact_def slot_dir_def journal_path_def)

lemma artifact_inj [simp]: "artifact d x = artifact d y \<longleftrightarrow> x = y"
  by (cases x; cases y; simp add: artifact_def slot_dir_def)

lemma signed_slot_cong:
  "F (artifact d sl) = F' (artifact d sl) \<Longrightarrow> signed_slot env key d F sl = signed_slot env key d F' sl"
  by (simp add: signed_slot_def)

lemma view_inv_cong:
  "(\<And>sl. F (artifact d sl) = F' (artifact d sl)) \<Longrightarrow> view_inv env key d F p = view_inv env key d F' p"
  by (simp add: view_inv_def signed_slot_def)

text \<open>
  The effect of saving: memory does not change, nor do the slots; the journal is the new
  one on success and the old one on failure.
\<close>

lemma ota_persist_effect:
  assumes js: "json_ok (journal env)" and run: "ota_persist env m s = (r, t)"
  shows "\<exists>F G. t = s\<lparr>files := F, faults := G\<rparr>"
    and "files t (artifact (dir m) sl) = files s (artifact (dir m) sl)"
    and "journaled env (dir m) (files t) =
      (if r = Inr () then Some (to_journal m) else journaled env (dir m) (files s))"
proof -
  show "\<exists>F G. t = s\<lparr>files := F, faults := G\<rparr>"
    "files t (artifact (dir m) sl) = files s (artifact (dir m) sl)"
    "journaled env (dir m) (files t) =
      (if r = Inr () then Some (to_journal m) else journaled env (dir m) (files s))"
  proof (atomize (full), cases "encode (journal env) (to_journal m)")
    case None
    then have "t = s" "r = Inl OtaDecode" using run by (simp_all add: ota_persist_def act_defs)
    then show "(\<exists>F G. t = s\<lparr>files := F, faults := G\<rparr>) \<and>
        files t (artifact (dir m) sl) = files s (artifact (dir m) sl) \<and>
        journaled env (dir m) (files t) =
        (if r = Inr () then Some (to_journal m) else journaled env (dir m) (files s))"
      by (cases s) auto
  next
    case (Some b)
    let ?p = "journal_path (dir m)"
    have w: "act_map_err OtaIo (write_sync_rename ?p b) s = (r, t)"
      using Some run by (simp add: ota_persist_def act_defs)
    then have t: "t = snd (write_sync_rename ?p b s)"
      by (auto simp: act_map_err_def split: prod.splits sum.splits)
    have "files t (artifact (dir m) sl) = files s (artifact (dir m) sl)"
      unfolding t by (rule wsr.save_frame) simp_all
    moreover have "\<exists>F G. t = s\<lparr>files := F, faults := G\<rparr>" unfolding t by (rule wsr.save_only_disk)
    moreover have "journaled env (dir m) (files t) =
        (if r = Inr () then Some (to_journal m) else journaled env (dir m) (files s))"
    proof (cases "write_sync_rename ?p b s")
      case (Pair x u)
      then have "u = t" and r: "r = (case x of Inl e \<Rightarrow> Inl (OtaIo e) | Inr y \<Rightarrow> Inr y)"
        using w t by (auto simp: act_map_err_def split: sum.splits)
      then show ?thesis
        using Pair wsr.save_err [of ?p b s _ t] wsr.save_ok [of ?p b s t] js Some
        by (cases x) (auto simp: journaled_def json_ok_def)
    qed
    ultimately show "(\<exists>F G. t = s\<lparr>files := F, faults := G\<rparr>) \<and>
        files t (artifact (dir m) sl) = files s (artifact (dir m) sl) \<and>
        journaled env (dir m) (files t) =
        (if r = Inr () then Some (to_journal m) else journaled env (dir m) (files s))" by blast
  qed
qed

lemma set_state_run:
  "set_state env st s = ota_persist env ((mgr s)\<lparr>state := st\<rparr>) (s\<lparr>mgr := (mgr s)\<lparr>state := st\<rparr>\<rparr>)"
  by (simp add: set_state_def upd_mgr_def act_defs)

lemma set_state_effect:
  assumes js: "json_ok (journal env)" and run: "set_state env st s = (r, t)"
  shows "mgr t = (mgr s)\<lparr>state := st\<rparr>"
    and "files t (artifact (dir (mgr s)) sl) = files s (artifact (dir (mgr s)) sl)"
    and "journaled env (dir (mgr s)) (files t) =
      (if r = Inr () then Some (to_journal (mgr t)) else journaled env (dir (mgr s)) (files s))"
  using ota_persist_effect [OF js run [unfolded set_state_run]] by auto

lemma set_state_inv:
  assumes js: "json_ok (journal env)" and pre: "ota_pre env key d st s"
    and run: "set_state env st s = (r, t)"
  shows "ota_inv env key d t"
proof -
  from pre have d: "dir (mgr s) = d" by (simp add: ota_pre_def)
  note eff = set_state_effect [OF js run, unfolded d]
  have v: "view_inv env key d (files t) p = view_inv env key d (files s) p" for p
    by (rule view_inv_cong) (simp add: eff(2))
  have m: "to_journal (mgr t) = (to_journal (mgr s))\<lparr>j_state := st\<rparr>"
    by (simp add: eff(1) to_journal_def)
  show ?thesis
    using pre eff(3) m
    by (cases "r = Inr ()") (auto simp: ota_inv_def ota_pre_def journal_inv_def v eff(1))
qed

lemma set_state_valid:
  assumes js: "json_ok (journal env)"
  shows "act_valid (ota_pre env key d st :: 'z ota_sys_scheme \<Rightarrow> bool) (set_state env st)
     (\<lambda>_ s. ota_inv env key d s \<and> state (mgr s) = st
        \<and> journaled env d (files s) = Some (to_journal (mgr s)))
     (ota_inv env key d)"
proof (rule act_validI)
  fix s t :: "'z ota_sys_scheme" and x
  assume pre: "ota_pre env key d st s" and run: "set_state env st s = (Inr x, t)"
  from pre have "dir (mgr s) = d" by (simp add: ota_pre_def)
  with set_state_inv [OF js pre run] set_state_effect [OF js run]
  show "ota_inv env key d t \<and> state (mgr t) = st
      \<and> journaled env d (files t) = Some (to_journal (mgr t))" by simp
next
  fix s t :: "'z ota_sys_scheme" and e
  assume "ota_pre env key d st s" and "set_state env st s = (Inl e, t)"
  then show "ota_inv env key d t" by (rule set_state_inv [OF js])
qed

lemma set_state_inv_valid:
  assumes "json_ok (journal env)" and "\<And>s. P s \<Longrightarrow> ota_pre env key d st s"
  shows "act_valid P (set_state env st) (\<lambda>_. ota_inv env key d) (ota_inv env key d)"
  by (rule act_valid_conseq [OF set_state_valid [OF assms(1)] assms(2)]) auto

section \<open>Every operation keeps the invariant\<close>

lemma upd_then_set_state_valid:
  assumes "json_ok (journal env)"
    and "\<And>s. P s \<Longrightarrow> ota_pre env key d st (s\<lparr>mgr := f (mgr s)\<rparr>)"
  shows "act_valid P (act_try (upd_mgr f) (\<lambda>_. set_state env st))
     (\<lambda>_. ota_inv env key d) (ota_inv env key d)"
  unfolding upd_mgr_def
proof (rule act_valid_try)
  show "act_valid P (act_update (\<lambda>s. s\<lparr>mgr := f (mgr s)\<rparr>)) (\<lambda>_. ota_pre env key d st) (ota_inv env key d)"
    using assms(2) by (rule act_valid_update)
qed (simp add: assms(1) set_state_inv_valid)

lemmas inv_unfold = ota_inv_def ota_pre_def view_inv_def to_journal_def

lemma mark_reboot_pending_inv:
  assumes "json_ok (journal env)"
  shows "act_valid (ota_inv env key d) (mark_reboot_pending env)
     (\<lambda>_. ota_inv env key d) (ota_inv env key d)"
  unfolding mark_reboot_pending_def
  by (intro act_valid_with act_valid_if act_valid_err set_state_inv_valid [OF assms])
    (auto simp: inv_unfold)

lemma set_state_keep_valid:
  assumes "json_ok (journal env)" and "\<And>s. P s \<Longrightarrow> ota_pre env key d st s"
  shows "act_valid P (set_state env st) (\<lambda>_ s. ota_inv env key d s \<and> state (mgr s) = st)
     (ota_inv env key d)"
  by (rule act_valid_conseq [OF set_state_valid [OF assms(1)] assms(2)]) auto

lemma simulate_reboot_inv:
  assumes "json_ok (journal env)"
  shows "act_valid (ota_inv env key d) (simulate_reboot env)
     (\<lambda>_. ota_inv env key d) (ota_inv env key d)"
  unfolding simulate_reboot_def
  by (intro act_valid_with act_valid_if act_valid_err
      act_valid_try [OF set_state_keep_valid [OF assms] set_state_inv_valid [OF assms]])
    (auto simp: inv_unfold)

lemma rollback_inv:
  assumes "json_ok (journal env)"
  shows "act_valid (ota_inv env key d) (rollback env) (\<lambda>_. ota_inv env key d) (ota_inv env key d)"
  unfolding rollback_def
  by (intro act_valid_with act_valid_if act_valid_err upd_then_set_state_valid [OF assms])
    (auto simp: inv_unfold)

lemma upd_mgr_valid:
  "act_valid R n Q E \<Longrightarrow> (\<And>s. P s \<Longrightarrow> R (s\<lparr>mgr := f (mgr s)\<rparr>))
     \<Longrightarrow> act_valid P (act_try (upd_mgr f) (\<lambda>_. n)) Q E"
  unfolding upd_mgr_def by (rule act_valid_try [OF act_valid_update]) simp_all

lemma set_state_then_valid:
  assumes "json_ok (journal env)" and "\<And>s. P s \<Longrightarrow> ota_pre env key d st s"
    and "act_valid (\<lambda>s. ota_inv env key d s \<and> state (mgr s) = st) n Q (ota_inv env key d)"
  shows "act_valid P (act_try (set_state env st) (\<lambda>_. n)) Q (ota_inv env key d)"
  by (rule act_valid_try [OF set_state_keep_valid [OF assms(1,2)] assms(3)])

lemma start_download_inv:
  assumes js: "json_ok (journal env)"
  shows "act_valid (ota_inv env key d) (start_download env man)
     (\<lambda>_. ota_inv env key d) (ota_inv env key d)"
proof -
  let ?f = "\<lambda>m. m\<lparr>candidate_slot := Some (other (active_slot m)),
      candidate_version := Some (m_version man), candidate_bytes := None, last_error := None\<rparr>"
  have start: "act_valid (ota_inv env key d) (act_try (upd_mgr ?f) (\<lambda>_.
      act_try (set_state env Downloading) (\<lambda>_. act_ok True)))
      (\<lambda>_. ota_inv env key d) (ota_inv env key d)"
    by (rule upd_mgr_valid [where R = "ota_pre env key d Downloading"],
        rule set_state_then_valid [OF js _ act_valid_ok]) (auto simp: inv_unfold)
  show ?thesis
    unfolding start_download_def Let_def
    by (intro act_valid_with act_valid_if act_valid_ok act_valid_err
        act_valid_try [OF _ start])
      (auto intro!: act_valid_ok act_valid_err split: option.splits)
qed

lemma ingest_chunk_inv:
  "act_valid (ota_inv env key d) (ingest_chunk c man) (\<lambda>_. ota_inv env key d) (ota_inv env key d)"
  unfolding ingest_chunk_def upd_mgr_def
  by (intro act_valid_with act_valid_if act_valid_err act_valid_update) (auto simp: inv_unfold)

lemma health_check_inv:
  assumes js: "json_ok (journal env)"
  shows "act_valid (ota_inv env key d) (health_check env h detail)
     (\<lambda>_. ota_inv env key d) (ota_inv env key d)"
proof -
  have bad: "act_valid (\<lambda>s. ota_inv env key d s \<and> state (mgr s) = HealthChecking)
      (act_try (upd_mgr (\<lambda>m. m\<lparr>last_error := Some detail\<rparr>)) (\<lambda>_.
       act_try (set_state env RollbackPending) (\<lambda>_. rollback env)))
      (\<lambda>_. ota_inv env key d) (ota_inv env key d)"
    by (rule upd_mgr_valid [where R = "ota_pre env key d RollbackPending"],
        rule set_state_then_valid [OF js _ act_valid_conseq [OF rollback_inv [OF js]]])
      (auto simp: inv_unfold)
  show ?thesis
    unfolding health_check_def
    by (intro act_valid_with act_valid_if act_valid_err upd_then_set_state_valid [OF js]
        act_valid_conseq [OF bad]) (auto simp: inv_unfold)
qed

lemma recover_inv:
  assumes js: "json_ok (journal env)"
  shows "act_valid (ota_inv env key d) (recover env) (\<lambda>_. ota_inv env key d) (ota_inv env key d)"
proof -
  have "act_valid (ota_inv env key d) (act_with (\<lambda>s.
       if state (mgr s) \<in> {Downloading, Verifying} then
         act_try (upd_mgr (\<lambda>m. m\<lparr>candidate_bytes := None\<rparr>)) (\<lambda>_. set_state env Idle)
       else if state (mgr s) \<in> {RebootPending, BootingCandidate, HealthChecking}
         then set_state env HealthChecking
       else act_ok ())) (\<lambda>_. ota_inv env key d) (ota_inv env key d)"
    by (intro act_valid_with act_valid_if act_valid_ok set_state_inv_valid [OF js]
        upd_then_set_state_valid [OF js]) (auto simp: inv_unfold)
  then show ?thesis
    unfolding recover_def by (rule act_valid_try) (intro act_valid_with act_valid_ok, simp)
qed

subsection \<open>Verification\<close>

text \<open>While an artifact is verified, the journal says so too.\<close>

definition verifying :: "'k ota_env \<Rightarrow> bytes \<Rightarrow> path \<Rightarrow> 'z ota_sys_scheme \<Rightarrow> bool" where
  "verifying env key d s \<longleftrightarrow> ota_inv env key d s \<and> state (mgr s) = Verifying \<and>
     journaled env d (files s) = Some (to_journal (mgr s))"

lemma verifying_frame:
  assumes v: "verifying env key d s" and "F (journal_path d) = files s (journal_path d)"
    and "F (artifact d (active_slot (mgr s))) = files s (artifact d (active_slot (mgr s)))"
  shows "verifying env key d (s\<lparr>files := F, faults := G\<rparr>)"
proof -
  have "journaled env d F = journaled env d (files s)"
    using assms(2) by (simp add: journaled_def)
  moreover have "signed_slot env key d F (active_slot (mgr s)) =
      signed_slot env key d (files s) (active_slot (mgr s))"
    using assms(3) by (rule signed_slot_cong)
  ultimately show ?thesis
    using v by (auto simp: verifying_def inv_unfold journal_inv_def)
qed

lemma verifying_inv: "verifying env key d s \<Longrightarrow> ota_inv env key d s"
  by (simp add: verifying_def)

lemma fail_verify_inv:
  assumes js: "json_ok (journal env)"
  shows "act_valid (verifying env key d) (fail_verify env why e)
     (\<lambda>_. ota_inv env key d) (ota_inv env key d)"
  unfolding fail_verify_def
  by (rule upd_mgr_valid [where R = "ota_pre env key d Failed"],
      rule set_state_then_valid [OF js _ act_valid_err]) (auto simp: verifying_def inv_unfold)

text \<open>Writing in the inactive slot (or beside the slots) disturbs nothing.\<close>

lemma slot_write_valid:
  assumes "p \<noteq> journal_path d" and "p \<noteq> artifact d (active_slot m)"
  shows "act_valid (\<lambda>s. verifying env key d s \<and> mgr s = m \<and> C (files s))
     (act_map_err OtaIo (fs_write p b))
     (\<lambda>_ s. verifying env key d s \<and> mgr s = m \<and> (\<exists>F. C F \<and> files s = F(p \<mapsto> b)))
     (ota_inv env key d)"
proof (intro act_valid_map_err act_validI)
  fix s t x
  assume s: "verifying env key d s \<and> mgr s = m \<and> C (files s)" and "fs_write p b s = (Inr x, t)"
  then obtain G where "t = s\<lparr>files := (files s)(p \<mapsto> b), faults := G\<rparr>"
    using fs_write_effect [of p b s "Inr x" t] by auto
  with s assms verifying_frame [of env key d s "(files s)(p \<mapsto> b)" G]
  show "verifying env key d t \<and> mgr t = m \<and> (\<exists>F. C F \<and> files t = F(p \<mapsto> b))" by auto
next
  fix s t e
  assume s: "verifying env key d s \<and> mgr s = m \<and> C (files s)" and "fs_write p b s = (Inl e, t)"
  then obtain F G where "t = s\<lparr>files := F, faults := G\<rparr>" "\<forall>q. q \<noteq> p \<longrightarrow> F q = files s q"
    using fs_write_effect [of p b s "Inl e" t] by auto
  with s assms verifying_frame [of env key d s F G] show "ota_inv env key d t"
    by (auto intro: verifying_inv)
qed

lemma touch_valid:
  "act_valid (\<lambda>s. verifying env key d s \<and> mgr s = m) (act_map_err OtaIo fs_touch)
     (\<lambda>_ s. verifying env key d s \<and> mgr s = m) (ota_inv env key d)"
proof -
  have "verifying env key d t \<and> mgr t = m"
    if v: "verifying env key d s \<and> mgr s = m" and run: "fs_touch s = (r, t)" for s t r
  proof -
    obtain G where "t = s\<lparr>faults := G\<rparr>" using fs_touch_files(2) [of s] run by auto
    with v verifying_frame [of env key d s "files s" G] show ?thesis by simp
  qed
  then show ?thesis by (intro act_valid_map_err act_validI) (blast intro: verifying_inv)+
qed

lemma stage_artifact_inv:
  assumes js: "json_ok (journal env)" and signed: "release_signed env key b"
  shows "act_valid (\<lambda>s. verifying env key d s \<and> mgr s = m)
     (stage_artifact env (slot_dir d (other (active_slot m))) b man)
     (\<lambda>_. ota_inv env key d) (ota_inv env key d)"
proof -
  let ?art = "artifact d (other (active_slot m))"
  let ?ver = "slot_dir d (other (active_slot m)) @ [''version'']"
  have w1: "act_valid (\<lambda>s. verifying env key d s \<and> mgr s = m) (act_map_err OtaIo (fs_write ?art b))
      (\<lambda>_ s. verifying env key d s \<and> mgr s = m \<and> files s ?art = Some b) (ota_inv env key d)"
    by (rule act_valid_conseq [OF slot_write_valid [where C = "\<lambda>_. True" and m = m]]) auto
  have w2: "act_valid (\<lambda>s. verifying env key d s \<and> mgr s = m \<and> files s ?art = Some b)
      (act_map_err OtaIo (fs_write ?ver v))
      (\<lambda>_ s. verifying env key d s \<and> mgr s = m \<and> files s ?art = Some b) (ota_inv env key d)" for v
    by (rule act_valid_conseq [OF slot_write_valid [where C = "\<lambda>F. F ?art = Some b" and m = m]])
      (auto simp: artifact_neq [THEN not_sym])
  have st: "act_valid (\<lambda>s. verifying env key d s \<and> mgr s = m \<and> files s ?art = Some b)
      (set_state env Staged) (\<lambda>_. ota_inv env key d) (ota_inv env key d)"
    by (rule set_state_inv_valid [OF js])
      (use signed in \<open>auto simp: verifying_def inv_unfold signed_slot_def\<close>)
  show ?thesis
    unfolding stage_artifact_def artifact_def [symmetric]
    by (rule act_valid_try [OF touch_valid], rule act_valid_try [OF w1], rule act_valid_try [OF w2],
        rule st)
qed

lemma check_artifact_inv:
  assumes js: "json_ok (journal env)"
  shows "act_valid (verifying env key d) (check_artifact env man)
     (\<lambda>_. ota_inv env key d) (ota_inv env key d)"
  unfolding check_artifact_def Let_def
proof (intro act_valid_with act_valid_if)
  fix s
  assume v: "verifying env key d s"
  show "act_valid (\<lambda>t. t = s) (fail_verify env why e) (\<lambda>_. ota_inv env key d) (ota_inv env key d)" for why e
    by (rule act_valid_conseq [OF fail_verify_inv [OF js]]) (use v in auto)
  then have fail: "act_valid (\<lambda>t. t = s) (fail_verify env why e) (\<lambda>_. ota_inv env key d) (ota_inv env key d)"
    for why e .
  let ?b = "case candidate_bytes (mgr s) of None \<Rightarrow> [] | Some b \<Rightarrow> b"
  have err: "act_valid (\<lambda>t. t = s) (act_err e) (\<lambda>_. ota_inv env key d) (ota_inv env key d)"
    for e by (rule act_valid_err) (use v in \<open>auto intro: verifying_inv\<close>)
  have stage: "act_valid (\<lambda>t. t = s) (stage_artifact env
        (slot_dir (dir (mgr s)) (case candidate_slot (mgr s) of None \<Rightarrow> B | Some c \<Rightarrow> c)) ?b man)
      (\<lambda>_. ota_inv env key d) (ota_inv env key d)" if "release_signed env key ?b"
  proof -
    have "dir (mgr s) = d" "candidate_slot (mgr s) = Some (other (active_slot (mgr s)))"
      using v by (auto simp: verifying_def inv_unfold)
    moreover have "act_valid (\<lambda>t. t = s) (stage_artifact env (slot_dir d (other (active_slot (mgr s)))) ?b man)
        (\<lambda>_. ota_inv env key d) (ota_inv env key d)"
      by (rule act_valid_conseq [OF stage_artifact_inv [OF js that, where m = "mgr s"]]) (use v in auto)
    ultimately show ?thesis by simp
  qed
  have key: "verifying_key (mgr s) = key" using v by (simp add: verifying_def inv_unfold)
  show "act_valid (\<lambda>t. t = s)
      (act_try (act_of_option BadSignature (hex_decode env (trim (signature_hex man)))) (\<lambda>sig.
       act_try (if length sig = 64 then act_ok () else act_err BadSignature) (\<lambda>_.
       act_try (case key_from_bytes env (verifying_key (mgr s)) of
                  Inl e \<Rightarrow> act_err (BadKey e) | Inr k \<Rightarrow> act_ok k) (\<lambda>k.
       if \<not> ed_verify env k ?b sig then fail_verify env ''bad signature'' BadSignature
       else stage_artifact env
         (slot_dir (dir (mgr s)) (case candidate_slot (mgr s) of None \<Rightarrow> B | Some c \<Rightarrow> c)) ?b man))))
      (\<lambda>_. ota_inv env key d) (ota_inv env key d)"
    using err fail stage key
    by (cases "hex_decode env (trim (signature_hex man))"; cases "key_from_bytes env key")
      (auto simp: release_signed_def)
qed

lemma verify_inv:
  assumes js: "json_ok (journal env)"
  shows "act_valid (ota_inv env key d) (verify env man) (\<lambda>_. ota_inv env key d) (ota_inv env key d)"
  unfolding verify_def
proof (intro act_valid_with act_valid_if act_valid_err)
  fix s
  assume "ota_inv env key d s" and "\<not> state (mgr s) \<noteq> Downloading"
  then have "ota_pre env key d Verifying s" by (simp add: inv_unfold)
  then have "act_valid (\<lambda>t. t = s) (set_state env Verifying) (\<lambda>_. verifying env key d) (ota_inv env key d)"
    by (intro act_valid_conseq [OF set_state_valid [OF js]]) (auto simp: verifying_def)
  then show "act_valid (\<lambda>t. t = s) (act_try (set_state env Verifying) (\<lambda>_. check_artifact env man))
      (\<lambda>_. ota_inv env key d) (ota_inv env key d)"
    by (rule act_valid_try) (rule check_artifact_inv [OF js])
qed simp

subsection \<open>Opening the journal\<close>

text \<open>
  A start either finds a journal and takes it over, or (no journal, or its metadata is
  unreadable) writes a fresh one.
\<close>

definition fresh_mgr :: "path \<Rightarrow> bytes \<Rightarrow> OtaManager" where
  "fresh_mgr d key = \<lparr>dir = d, state = Idle, active_slot = A, candidate_slot = None,
     candidate_version = None, candidate_bytes = None, last_error = None,
     highest_committed_version = None, verifying_key = key\<rparr>"

definition mgr_of_journal :: "path \<Rightarrow> bytes \<Rightarrow> PersistedOta \<Rightarrow> OtaManager" where
  "mgr_of_journal d key p = \<lparr>dir = d, state = j_state p, active_slot = j_active_slot p,
     candidate_slot = j_candidate_slot p, candidate_version = j_candidate_version p,
     candidate_bytes = None, last_error = j_last_error p,
     highest_committed_version = j_highest_committed_version p, verifying_key = key\<rparr>"

lemma open_cases:
  assumes run: "OtaManager_open env d key s = (Inr m, t)"
  obtains (taken_over) p G where "t = s\<lparr>faults := G\<rparr>" "journaled env d (files s) = Some p"
      "m = mgr_of_journal d key p"
  | (created) G where "ota_persist env (fresh_mgr d key) (s\<lparr>faults := G\<rparr>) = (Inr (), t)"
      "m = fresh_mgr d key"
proof -
  obtain s1 s2 ex where s1: "fs_touch s = (Inr (), s1)"
    and s2: "fs_exists (journal_path d) s1 = (Inr ex :: OtaError + bool, s2)"
    and body: "(if ex then
       act_try (act_map_err OtaIo (fs_read (journal_path d))) (\<lambda>b.
       act_try (act_of_option OtaDecode (decode (journal env) b)) (\<lambda>p. act_ok (mgr_of_journal d key p)))
     else act_try (ota_persist env (fresh_mgr d key)) (\<lambda>_. act_ok (fresh_mgr d key))) s2 = (Inr m, t)"
    using run unfolding OtaManager_open_def Let_def act_try_Inr_iff
      mgr_of_journal_def [symmetric] fresh_mgr_def [symmetric]
    by (auto simp: act_map_err_def split: prod.splits sum.splits)
  obtain G where g: "s1 = s\<lparr>faults := G\<rparr>" using fs_touch_files(2) [of s] s1 by auto
  obtain H where h: "s2 = s\<lparr>faults := H\<rparr>"
    using s2 g by (cases s) (auto simp: fs_defs split: list.splits io_outcome.splits)
  show thesis
  proof (cases ex)
    case False
    with body h show thesis by (intro created) (auto simp: act_try_Inr_iff act_ok_def)
  next
    case True
    with body h have "\<exists>p G. t = s\<lparr>faults := G\<rparr> \<and> journaled env d (files s) = Some p
        \<and> m = mgr_of_journal d key p"
      by (cases s) (auto simp: act_try_Inr_iff act_defs fs_defs journaled_def
          split: list.splits io_outcome.splits option.splits prod.splits sum.splits)
    then show thesis using taken_over by blast
  qed
qed

lemma open_inv:
  assumes js: "json_ok (journal env)"
    and run: "OtaManager_open env d key s = (Inr m, t)"
    and old: "\<And>b. files s (journal_path d) = Some b \<Longrightarrow> journal_inv env key d (files s)"
  shows "ota_inv env key d (t\<lparr>mgr := m\<rparr>)"
proof (cases rule: open_cases [OF run, case_names taken_over created])
  case (taken_over p G)
  moreover have "to_journal (mgr_of_journal d key p) = p"
    by (simp add: to_journal_def mgr_of_journal_def)
  moreover have "journal_inv env key d (files s)"
    using old taken_over(2) by (auto simp: journaled_def bind_eq_Some_conv)
  ultimately show ?thesis
    by (auto simp: ota_inv_def ota_pre_def journal_inv_def) (auto simp: mgr_of_journal_def to_journal_def)
next
  case (created G)
  have "dir (fresh_mgr d key) = d" by (simp add: fresh_mgr_def)
  then have "journaled env d (files t) = Some (to_journal (fresh_mgr d key))"
    using ota_persist_effect(3) [OF js created(1)] by simp
  moreover have "view_inv env key d F (to_journal (fresh_mgr d key))" for F
    by (simp add: view_inv_def to_journal_def fresh_mgr_def)
  ultimately show ?thesis
    using created(2) by (auto simp: ota_inv_def ota_pre_def journal_inv_def) (auto simp: fresh_mgr_def to_journal_def)
qed

lemma open_err_inv:
  assumes js: "json_ok (journal env)" and inv: "ota_inv env key d s"
    and run: "OtaManager_open env d key s = (Inl e, t)"
  shows "ota_inv env key d t"
proof -
  have same: "ota_inv env key d (s\<lparr>files := F, faults := G\<rparr>)"
    if "\<And>sl. F (artifact d sl) = files s (artifact d sl)" "journaled env d F = journaled env d (files s)"
    for F G
  proof -
    have "view_inv env key d F p = view_inv env key d (files s) p" for p
      by (rule view_inv_cong) (rule that(1))
    with inv that(2) show ?thesis by (auto simp: ota_inv_def ota_pre_def journal_inv_def)
  qed
  consider (untouched) G where "t = s\<lparr>faults := G\<rparr>"
    | (persist) G where "ota_persist env (fresh_mgr d key) (s\<lparr>faults := G\<rparr>) = (Inl e, t)"
    using run unfolding OtaManager_open_def Let_def fresh_mgr_def [symmetric]
    by (cases s) (auto simp: act_try_Inl_iff act_defs fs_defs
        split: list.splits io_outcome.splits option.splits prod.splits sum.splits if_splits)
  then show ?thesis
  proof cases
    case untouched
    then show ?thesis using same [of "files s" G] by (cases s) simp
  next
    case (persist G)
    have d: "dir (fresh_mgr d key) = d" by (simp add: fresh_mgr_def)
    from ota_persist_effect [OF js persist, unfolded d] show ?thesis
      using same by auto
  qed
qed

lemma ota_run_op_inv:
  assumes js: "json_ok (journal env)" and inv: "ota_inv env key d s"
  shows "ota_inv env key d (ota_run_op env x s)"
proof (cases x)
  case Reopen
  have d: "dir (mgr s) = d" "verifying_key (mgr s) = key" "journal_inv env key d (files s)"
    using inv by (simp_all add: ota_inv_def ota_pre_def)
  show ?thesis
  proof (cases "OtaManager_open env d key s")
    case (Pair r t)
    then show ?thesis
      using Reopen d open_inv [OF js, of d key s] open_err_inv [OF js inv] by (cases r) auto
  qed
qed (use act_valid_state [OF start_download_inv [OF js] inv]
    act_valid_state [OF ingest_chunk_inv inv] act_valid_state [OF verify_inv [OF js] inv]
    act_valid_state [OF mark_reboot_pending_inv [OF js] inv]
    act_valid_state [OF simulate_reboot_inv [OF js] inv]
    act_valid_state [OF health_check_inv [OF js] inv]
    act_valid_state [OF rollback_inv [OF js] inv] act_valid_state [OF recover_inv [OF js] inv]
    in simp_all)

lemma ota_inv_faults [simp]: "ota_inv env key d (s\<lparr>faults := G\<rparr>) = ota_inv env key d s"
  by (simp add: ota_inv_def ota_pre_def)

lemma ota_reach_inv:
  assumes js: "json_ok (journal env)" and "ota_reach env d key s"
  shows "ota_inv env key d s"
  using assms(2)
proof (induction rule: ota_reach.induct)
  case (boot s m t)
  then show ?case by (intro open_inv [OF js boot(2)]) simp
next
  case (op s x fl)
  then show ?case by (intro ota_run_op_inv [OF js]) simp
qed

section \<open>Properties\<close>

text \<open>
  C2. Nothing unsigned is ever booted or committed. In every state a device can reach, by
  any calls in any order, with I/O faults in any operation and crashes and restarts
  anywhere: once an update was committed, the active slot holds an artifact that carries a
  valid release signature, and from \<open>Staged\<close> to the health verdict so does the candidate
  slot, which is the inactive one. The same holds of the journal on disk, so a restart finds
  it too.
\<close>

theorem ota_slots_signed:
  assumes "json_ok (journal env)" and "ota_reach env d key s"
  shows "(highest_committed_version (mgr s) \<noteq> None
            \<longrightarrow> signed_slot env key d (files s) (active_slot (mgr s)))
     \<and> (past_staging (state (mgr s))
            \<longrightarrow> candidate_slot (mgr s) = Some (other (active_slot (mgr s)))
              \<and> signed_slot env key d (files s) (other (active_slot (mgr s))))
     \<and> (\<exists>p. journaled env d (files s) = Some p
            \<and> (j_highest_committed_version p \<noteq> None
                 \<longrightarrow> signed_slot env key d (files s) (j_active_slot p))
            \<and> (past_staging (j_state p)
                 \<longrightarrow> signed_slot env key d (files s) (other (j_active_slot p))))"
proof -
  have q: "past_staging st \<Longrightarrow> \<not> quiescent st" for st by (cases st) auto
  from ota_reach_inv [OF assms] show ?thesis
    by (auto simp: ota_inv_def ota_pre_def journal_inv_def view_inv_def to_journal_def q)
qed

end
