(* ===== verification/Ota_Function.thy ===== *)
theory Ota_Function
  imports Ota_Safety
begin

text \<open>
  What the update state machine achieves: the outcome of every operation on a disk that
  does not fail, a complete update from download to commit or rollback, and rollback
  protection across crashes.
\<close>

section \<open>Definitions\<close>

text \<open>Serialization of the journal neither fails nor loses anything.\<close>

definition journal_total :: "'k ota_env \<Rightarrow> bool" where
  "journal_total env \<longleftrightarrow> json_ok (journal env) \<and> (\<forall>p. encode (journal env) p \<noteq> None)"

text \<open>
  The manager is \<open>m\<close> in memory and in the journal, the slots hold the artifacts \<open>a\<close>, and
  the disk does not fail.
\<close>

definition settled :: "'k ota_env \<Rightarrow> OtaManager \<Rightarrow> (Slot \<Rightarrow> bytes option) \<Rightarrow> 'z ota_sys_scheme \<Rightarrow> bool" where
  "settled env m a s \<longleftrightarrow> mgr s = m \<and> faults s = [] \<and> (\<forall>sl. files s (artifact (dir m) sl) = a sl) \<and>
     journaled env (dir m) (files s) = Some (to_journal m)"

text \<open>The published laws of the signature and hex crates that a release relies on.\<close>

definition release_laws :: "'k ota_env \<Rightarrow> 'sk signer \<Rightarrow> 'sk \<Rightarrow> bool" where
  "release_laws env sg sk \<longleftrightarrow>
     (\<forall>b. hex_decode env (hex_encode env b) = Some b) \<and>
     (\<forall>b. set (hex_encode env b) \<subseteq> set ''0123456789abcdef'') \<and>
     (\<forall>b. length (sk_sign sg sk b) = 64) \<and>
     (\<exists>k. key_from_bytes env (sk_public sg sk) = Inr k \<and> (\<forall>b. ed_verify env k b (sk_sign sg sk b)))"

text \<open>A complete update: the manifest, its chunks, verification, reboot and health verdict.\<close>

definition trial_script :: "OtaManifest \<Rightarrow> bytes list \<Rightarrow> ota_op list" where
  "trial_script man cs = StartDownload man # map (\<lambda>c. IngestChunk c man) cs @
     [Verify man, MarkRebootPending, SimulateReboot]"

definition update_script :: "OtaManifest \<Rightarrow> bytes list \<Rightarrow> bool \<Rightarrow> string \<Rightarrow> ota_op list" where
  "update_script man cs healthy detail =
     trial_script man cs @ [HealthCheckOp healthy detail]"

definition run_reliably :: "'k ota_env \<Rightarrow> ota_op list \<Rightarrow> ota_sys \<Rightarrow> ota_sys" where
  "run_reliably env xs s = ota_run env (map (\<lambda>x. (x, [])) xs) s"

definition above_highest :: "string \<Rightarrow> string option \<Rightarrow> bool" where
  "above_highest v h \<longleftrightarrow> (case h of None \<Rightarrow> True | Some c \<Rightarrow> compare_versions v c = Greater)"

text \<open>
  The two checks of \<open>verify\<close> on the downloaded bytes: the hash of the manifest, and a
  signature that can be read at all (hexadecimal, 64 bytes, with a usable release key) and
  that the key accepts.
\<close>

definition payload :: "OtaManager \<Rightarrow> bytes" where
  "payload m = (case candidate_bytes m of None \<Rightarrow> [] | Some b \<Rightarrow> b)"

definition hash_ok :: "'k ota_env \<Rightarrow> OtaManifest \<Rightarrow> OtaManager \<Rightarrow> bool" where
  "hash_ok env man m \<longleftrightarrow>
     hex_encode env (sha256 env (payload m)) = to_lowercase (artifact_sha256_hex man)"

definition parse_signature :: "'k ota_env \<Rightarrow> OtaManifest \<Rightarrow> OtaManager \<Rightarrow> ('k \<times> bytes) option" where
  "parse_signature env man m =
     (case (hex_decode env (trim (signature_hex man)), key_from_bytes env (verifying_key m)) of
        (Some sig, Inr k) \<Rightarrow> if length sig = 64 then Some (k, sig) else None
      | _ \<Rightarrow> None)"

section \<open>Steps on a disk that does not fail\<close>

lemma set_state_reliable:
  assumes "journal_total env" and "faults s = []"
  shows "\<exists>t. set_state env st s = (Inr (), t) \<and> faults t = []"
proof -
  let ?m = "(mgr s)\<lparr>state := st\<rparr>" and ?s = "s\<lparr>mgr := (mgr s)\<lparr>state := st\<rparr>\<rparr>"
  obtain b where b: "encode (journal env) (to_journal ?m) = Some b"
    using assms(1) by (auto simp: journal_total_def)
  obtain r t where w: "write_sync_rename (journal_path (dir ?m)) b ?s = (r, t)"
    by (cases "write_sync_rename (journal_path (dir ?m)) b ?s")
  then have "r = Inr ()" "faults t = []"
    using write_sync_rename_reliable [of ?s "journal_path (dir ?m)" b] assms(2) by simp_all
  then show ?thesis
    using w b by (simp add: set_state_run ota_persist_def act_map_err_def)
qed

lemma set_state_settled:
  assumes env: "journal_total env" and "faults s = []" and "mgr s = m"
    and "\<And>sl. files s (artifact (dir m) sl) = a sl"
  obtains t where "set_state env st s = (Inr (), t)" and "settled env (m\<lparr>state := st\<rparr>) a t"
proof -
  obtain t where t: "set_state env st s = (Inr (), t)" "faults t = []"
    using set_state_reliable [OF env assms(2)] by blast
  have "json_ok (journal env)" using env by (simp add: journal_total_def)
  note eff = set_state_effect [OF this t(1)]
  show thesis using that [OF t(1)] t(2) eff assms(3,4) by (auto simp: settled_def)
qed

lemma set_state_after:
  assumes env: "journal_total env" and s: "settled env m a s" and "dir m' = dir m"
  obtains t where "set_state env st (s\<lparr>mgr := m'\<rparr>) = (Inr (), t)"
      and "settled env (m'\<lparr>state := st\<rparr>) a t"
  using set_state_settled [OF env, of "s\<lparr>mgr := m'\<rparr>" m' a st thesis] s assms(3) that
  by (simp add: settled_def)

lemma settled_mgr: "settled env m a s \<Longrightarrow> mgr s = m"
  by (simp add: settled_def)

text \<open>Only the journaled part of the manager matters for the journal.\<close>

lemma settled_bytes:
  "settled env m a s \<Longrightarrow> settled env (m\<lparr>candidate_bytes := b\<rparr>) a (s\<lparr>mgr := m\<lparr>candidate_bytes := b\<rparr>\<rparr>)"
  by (simp add: settled_def to_journal_def)

lemma start_download_settled:
  assumes env: "journal_total env" and s: "settled env m a s"
    and "quiescent (state m)" and "above_highest (m_version man) (highest_committed_version m)"
  obtains t where "start_download env man s = (Inr True, t)"
    and "settled env (m\<lparr>candidate_slot := Some (other (active_slot m)),
      candidate_version := Some (m_version man), candidate_bytes := None, last_error := None,
      state := Downloading\<rparr>) a t"
proof -
  let ?m = "m\<lparr>candidate_slot := Some (other (active_slot m)),
    candidate_version := Some (m_version man), candidate_bytes := None, last_error := None\<rparr>"
  have "dir ?m = dir m" by simp
  then obtain t where "set_state env Downloading (s\<lparr>mgr := ?m\<rparr>) = (Inr (), t)"
      "settled env (?m\<lparr>state := Downloading\<rparr>) a t"
    by (rule set_state_after [OF env s])
  then show thesis
    using that [of t] assms(3,4) settled_mgr [OF s]
    by (simp add: start_download_def upd_mgr_def act_defs above_highest_def split: option.splits)
qed

lemma ingest_chunk_settled:
  assumes s: "settled env m a s" and "state m = Downloading"
    and "of_nat (length c) \<le> size_bytes man + 1024 * 1024"
  obtains t where "ingest_chunk c man s = (Inr (), t)"
    and "settled env (m\<lparr>candidate_bytes :=
      Some ((case candidate_bytes m of None \<Rightarrow> [] | Some b \<Rightarrow> b) @ c)\<rparr>) a t"
  using that settled_bytes [OF s] assms settled_mgr [OF s]
  by (simp add: ingest_chunk_def upd_mgr_def act_defs not_less)

lemma set_state_now:
  assumes env: "journal_total env" and s: "settled env m a s"
  obtains t where "set_state env st s = (Inr (), t)" and "settled env (m\<lparr>state := st\<rparr>) a t"
  using set_state_settled [OF env, of s m a st thesis] s that by (auto simp: settled_def)

lemma mark_reboot_pending_settled:
  assumes env: "journal_total env" and s: "settled env m a s" and "state m = Staged"
  obtains t where "mark_reboot_pending env s = (Inr (), t)"
    and "settled env (m\<lparr>state := RebootPending\<rparr>) a t"
  using set_state_now [OF env s, of RebootPending thesis] that assms(3) settled_mgr [OF s]
  by (simp add: mark_reboot_pending_def act_defs)

lemma simulate_reboot_settled:
  assumes env: "journal_total env" and s: "settled env m a s" and "state m = RebootPending"
  obtains t where "simulate_reboot env s = (Inr (), t)"
    and "settled env (m\<lparr>state := HealthChecking\<rparr>) a t"
proof -
  obtain t where t: "set_state env BootingCandidate s = (Inr (), t)"
      "settled env (m\<lparr>state := BootingCandidate\<rparr>) a t"
    by (rule set_state_now [OF env s])
  obtain u where u: "set_state env HealthChecking t = (Inr (), u)"
      "settled env (m\<lparr>state := BootingCandidate, state := HealthChecking\<rparr>) a u"
    by (rule set_state_now [OF env t(2)])
  show thesis
    using that [of u] t(1) u assms(3) settled_mgr [OF s] by (simp add: simulate_reboot_def act_defs)
qed

lemma rollback_settled:
  assumes env: "journal_total env" and s: "settled env m a s"
    and "state m \<in> {RollbackPending, HealthChecking, Failed}"
  obtains t where "rollback env s = (Inr (), t)"
    and "settled env (m\<lparr>candidate_slot := None, candidate_version := None,
      candidate_bytes := None, state := RolledBack\<rparr>) a t"
proof -
  let ?m = "m\<lparr>candidate_slot := None, candidate_version := None, candidate_bytes := None\<rparr>"
  have "dir ?m = dir m" by simp
  then obtain t where "set_state env RolledBack (s\<lparr>mgr := ?m\<rparr>) = (Inr (), t)"
      "settled env (?m\<lparr>state := RolledBack\<rparr>) a t"
    by (rule set_state_after [OF env s])
  then show thesis
    using that [of t] assms(3) settled_mgr [OF s] by (simp add: rollback_def upd_mgr_def act_defs)
qed

lemma health_check_good_settled:
  assumes env: "journal_total env" and s: "settled env m a s" and "state m = HealthChecking"
    and "candidate_slot m = Some c"
  obtains t where "health_check env True detail s = (Inr (), t)"
    and "settled env (m\<lparr>active_slot := c,
      highest_committed_version := raise_highest (candidate_version m) (highest_committed_version m),
      candidate_slot := None, candidate_version := None, candidate_bytes := None,
      state := Committed\<rparr>) a t"
proof -
  let ?m = "m\<lparr>active_slot := c,
    highest_committed_version := raise_highest (candidate_version m) (highest_committed_version m),
    candidate_slot := None, candidate_version := None, candidate_bytes := None\<rparr>"
  have "dir ?m = dir m" by simp
  then obtain t where "set_state env Committed (s\<lparr>mgr := ?m\<rparr>) = (Inr (), t)"
      "settled env (?m\<lparr>state := Committed\<rparr>) a t"
    by (rule set_state_after [OF env s])
  then show thesis
    using that [of t] assms(3,4) settled_mgr [OF s] by (simp add: health_check_def upd_mgr_def act_defs)
qed

lemma health_check_bad_settled:
  assumes env: "journal_total env" and s: "settled env m a s" and "state m = HealthChecking"
  obtains t where "health_check env False detail s = (Inr (), t)"
    and "settled env (m\<lparr>last_error := Some detail, candidate_slot := None,
      candidate_version := None, candidate_bytes := None, state := RolledBack\<rparr>) a t"
proof -
  let ?m = "m\<lparr>last_error := Some detail\<rparr>"
  have "dir ?m = dir m" by simp
  then obtain t where t: "set_state env RollbackPending (s\<lparr>mgr := ?m\<rparr>) = (Inr (), t)"
      "settled env (?m\<lparr>state := RollbackPending\<rparr>) a t"
    by (rule set_state_after [OF env s])
  obtain u where u: "rollback env t = (Inr (), u)"
      "settled env (?m\<lparr>state := RollbackPending, candidate_slot := None, candidate_version := None,
        candidate_bytes := None, state := RolledBack\<rparr>) a u"
    by (rule rollback_settled [OF env t(2)]) simp_all
  show thesis
    using that [of u] t(1) u assms(3) settled_mgr [OF s]
    by (simp add: health_check_def upd_mgr_def act_defs)
qed

text \<open>Verification, branch by branch.\<close>

lemma fail_verify_settled:
  assumes env: "journal_total env" and s: "settled env m a s"
  obtains t where "fail_verify env why e s = (Inl e, t)"
    and "settled env (m\<lparr>last_error := Some why, state := Failed\<rparr>) a t"
proof -
  let ?m = "m\<lparr>last_error := Some why\<rparr>"
  have "dir ?m = dir m" by simp
  then obtain t where "set_state env Failed (s\<lparr>mgr := ?m\<rparr>) = (Inr (), t)"
      "settled env (?m\<lparr>state := Failed\<rparr>) a t"
    by (rule set_state_after [OF env s])
  then show thesis
    using that [of t] settled_mgr [OF s] by (simp add: fail_verify_def upd_mgr_def act_defs)
qed

lemma artifact_neq_version: "slot_dir d x @ [''version''] \<noteq> artifact d y"
  by (simp add: artifact_def)

lemma stage_artifact_settled:
  assumes env: "journal_total env" and s: "settled env m a s"
  obtains t where "stage_artifact env (slot_dir (dir m) sl) b man s = (Inr (), t)"
    and "settled env (m\<lparr>state := Staged\<rparr>) (a(sl := Some b)) t"
proof -
  let ?F = "(files s)(artifact (dir m) sl \<mapsto> b, slot_dir (dir m) sl @ [''version''] \<mapsto> str_bytes (m_version man))"
  have st: "faults s = []" "mgr s = m" using s by (simp_all add: settled_def)
  have w: "stage_artifact env (slot_dir (dir m) sl) b man s = set_state env Staged (s\<lparr>files := ?F\<rparr>)"
    using st by (simp add: stage_artifact_def artifact_def [symmetric] act_defs fs_defs)
  have slots: "files (s\<lparr>files := ?F\<rparr>) (artifact (dir m) sl') = (a(sl := Some b)) sl'" for sl'
    using s by (auto simp: settled_def artifact_neq_version [THEN not_sym])
  have fa: "faults (s\<lparr>files := ?F\<rparr>) = []" "mgr (s\<lparr>files := ?F\<rparr>) = m" using st by simp_all
  obtain t where "set_state env Staged (s\<lparr>files := ?F\<rparr>) = (Inr (), t)"
      "settled env (m\<lparr>state := Staged\<rparr>) (a(sl := Some b)) t"
    by (rule set_state_settled [OF env fa slots])
  then show thesis using that [of t] w by simp
qed

lemma verify_runs:
  assumes env: "journal_total env" and s: "settled env m a s" and "state m = Downloading"
  obtains t where "verify env man s = check_artifact env man t"
    and "settled env (m\<lparr>state := Verifying\<rparr>) a t"
  using set_state_now [OF env s, of Verifying thesis] that assms(3) settled_mgr [OF s]
  by (simp add: verify_def act_defs)

lemma check_artifact_eval:
  assumes "settled env m a s"
  shows "check_artifact env man s =
     (if \<not> hash_ok env man m then fail_verify env ''hash mismatch''
        (HashMismatch (artifact_sha256_hex man) (hex_encode env (sha256 env (payload m)))) s
      else (case parse_signature env man m of
         Some (k, sig) \<Rightarrow>
           if ed_verify env k (payload m) sig then stage_artifact env
             (slot_dir (dir m) (case candidate_slot m of None \<Rightarrow> B | Some c \<Rightarrow> c)) (payload m) man s
           else fail_verify env ''bad signature'' BadSignature s
       | None \<Rightarrow> (Inl (case (hex_decode env (trim (signature_hex man)), key_from_bytes env (verifying_key m)) of
           (Some sig, Inl e) \<Rightarrow> if length sig = 64 then BadKey e else BadSignature
         | _ \<Rightarrow> BadSignature), s)))"
  using settled_mgr [OF assms]
  by (cases "hex_decode env (trim (signature_hex man))"; cases "key_from_bytes env (verifying_key m)")
    (simp_all add: check_artifact_def hash_ok_def parse_signature_def payload_def act_with_def act_err_def
      act_try_def act_ok_def)

section \<open>A complete update\<close>

lemma settled_no_faults: "settled env m a s \<Longrightarrow> s\<lparr>faults := []\<rparr> = (s :: ota_sys)"
  by (cases s) (simp add: settled_def)

lemma run_reliably_Nil [simp]: "run_reliably env [] s = s"
  by (simp add: run_reliably_def)

lemma run_reliably_Cons:
  "settled env m a s \<Longrightarrow> run_reliably env (x # xs) s = run_reliably env xs (ota_run_op env x s)"
  by (simp add: run_reliably_def settled_no_faults)

lemma run_reliably_append: "run_reliably env (xs @ ys) s = run_reliably env ys (run_reliably env xs s)"
proof -
  have "ota_run env (us @ vs) t = ota_run env vs (ota_run env us t)" for us vs t
    by (induction env us t rule: ota_run.induct) simp_all
  then show ?thesis by (simp add: run_reliably_def)
qed

lemma run_chunks_settled:
  assumes "settled env m a s" and "state m = Downloading"
    and "\<forall>c \<in> set cs. of_nat (length c) \<le> size_bytes man + 1024 * 1024"
  shows "\<exists>t x. run_reliably env (map (\<lambda>c. IngestChunk c man) cs @ ops) s = run_reliably env ops t
     \<and> settled env (m\<lparr>candidate_bytes := x\<rparr>) a t
     \<and> payload (m\<lparr>candidate_bytes := x\<rparr>) = payload m @ concat cs"
  using assms
proof (induction cs arbitrary: m s)
  case Nil
  then show ?case by (intro exI [of _ s] exI [of _ "candidate_bytes m"]) simp
next
  case (Cons c cs)
  let ?m = "m\<lparr>candidate_bytes := Some (payload m @ c)\<rparr>"
  obtain t where t: "ingest_chunk c man s = (Inr (), t)" "settled env ?m a t"
    using ingest_chunk_settled [OF Cons.prems(1,2), of c man] Cons.prems(3) by (auto simp: payload_def)
  have "\<exists>u x. run_reliably env (map (\<lambda>c. IngestChunk c man) cs @ ops) t = run_reliably env ops u
     \<and> settled env (?m\<lparr>candidate_bytes := x\<rparr>) a u
     \<and> payload (?m\<lparr>candidate_bytes := x\<rparr>) = payload ?m @ concat cs"
    using Cons.prems t(2) by (intro Cons.IH) auto
  then show ?case
    using t(1) run_reliably_Cons [OF Cons.prems(1)] by (simp add: payload_def)
qed

text \<open>What a release signs, the device accepts.\<close>

lemma lower_hex:
  assumes "set s \<subseteq> set ''0123456789abcdef''"
  shows "to_lowercase s = s" and "trim s = s"
proof -
  have c: "lower_char c = c" "32 < code_of c \<and> code_of c < 128" if "c \<in> set s" for c
    using that assms by (auto simp: lower_char_def)
  then show "to_lowercase s = s" by (simp add: to_lowercase_def map_idI)
  show "trim s = s" by (rule trim_no_ws) (rule c(2))
qed

lemma signed_release_accepted:
  assumes laws: "release_laws env sg sk" and key: "verifying_key m = verifying_key_bytes sg sk"
    and man: "(artifact_sha256_hex man, signature_hex man) = sign_artifact env sg (payload m) sk"
  shows "hash_ok env man m"
    and "\<exists>k sig. parse_signature env man m = Some (k, sig) \<and> ed_verify env k (payload m) sig"
proof -
  have hex: "set (hex_encode env b) \<subseteq> set ''0123456789abcdef''" for b
    using laws unfolding release_laws_def by blast
  have man': "artifact_sha256_hex man = hex_encode env (sha256 env (payload m))"
    "signature_hex man = hex_encode env (sk_sign sg sk (payload m))"
    using man by (simp_all add: sign_artifact_def)
  show "hash_ok env man m" by (simp add: hash_ok_def man' lower_hex [OF hex])
  show "\<exists>k sig. parse_signature env man m = Some (k, sig) \<and> ed_verify env k (payload m) sig"
    using laws key by (auto simp: parse_signature_def man' lower_hex [OF hex] release_laws_def
        verifying_key_bytes_def)
qed

lemma verify_accepts:
  assumes env: "journal_total env" and s: "settled env m a s" and "state m = Downloading"
    and "candidate_slot m = Some c" and "hash_ok env man m"
    and "parse_signature env man m = Some (k, sig)" and "ed_verify env k (payload m) sig"
  obtains t where "verify env man s = (Inr (), t)"
    and "settled env (m\<lparr>state := Staged\<rparr>) (a(c := Some (payload m))) t"
proof -
  let ?m = "m\<lparr>state := Verifying\<rparr>"
  obtain t where t: "verify env man s = check_artifact env man t" "settled env ?m a t"
    by (rule verify_runs [OF env s assms(3)])
  have same: "payload ?m = payload m" "hash_ok env man ?m = hash_ok env man m"
    "parse_signature env man ?m = parse_signature env man m"
    by (simp_all add: payload_def hash_ok_def parse_signature_def)
  obtain u where "stage_artifact env (slot_dir (dir ?m) c) (payload m) man t = (Inr (), u)"
      "settled env (?m\<lparr>state := Staged\<rparr>) (a(c := Some (payload m))) u"
    by (rule stage_artifact_settled [OF env t(2)])
  then show thesis
    using that [of u] check_artifact_eval [OF t(2), of man] t(1) same assms(4-7) by simp
qed

text \<open>The manager once a signed candidate \<open>v\<close> with the contents \<open>x\<close> awaits its verdict.\<close>

abbreviation on_trial :: "OtaManager \<Rightarrow> string \<Rightarrow> bytes option \<Rightarrow> OtaManager" where
  "on_trial m v x \<equiv> m\<lparr>candidate_slot := Some (other (active_slot m)), candidate_version := Some v,
     last_error := None, candidate_bytes := x, state := HealthChecking\<rparr>"

lemma update_reaches_trial:
  fixes s :: ota_sys
  assumes env: "journal_total env" and laws: "release_laws env sg sk"
    and key: "verifying_key m = verifying_key_bytes sg sk"
    and s: "settled env m a s" and idle: "quiescent (state m)"
    and above: "above_highest (m_version man) (highest_committed_version m)"
    and man: "(artifact_sha256_hex man, signature_hex man) = sign_artifact env sg (concat cs) sk"
    and chunks: "\<forall>c \<in> set cs. of_nat (length c) \<le> size_bytes man + 1024 * 1024"
  shows "\<exists>x. settled env (on_trial m (m_version man) x) (a(other (active_slot m) := Some (concat cs)))
     (run_reliably env (trial_script man cs) s)"
proof -
  let ?m1 = "m\<lparr>candidate_slot := Some (other (active_slot m)),
    candidate_version := Some (m_version man), candidate_bytes := None, last_error := None,
    state := Downloading\<rparr>"
  let ?a = "a(other (active_slot m) := Some (concat cs))"
  let ?rest = "[Verify man, MarkRebootPending, SimulateReboot]"
  obtain s1 where s1: "start_download env man s = (Inr True, s1)" "settled env ?m1 a s1"
    by (rule start_download_settled [OF env s idle above])
  obtain s2 x where s2: "run_reliably env (map (\<lambda>c. IngestChunk c man) cs @ ?rest) s1
      = run_reliably env ?rest s2" "settled env (?m1\<lparr>candidate_bytes := x\<rparr>) a s2"
    and x: "payload (?m1\<lparr>candidate_bytes := x\<rparr>) = concat cs"
    using run_chunks_settled [OF s1(2) _ chunks, of ?rest] by (auto simp: payload_def)
  let ?m2 = "?m1\<lparr>candidate_bytes := x\<rparr>"
  have "verifying_key ?m2 = verifying_key_bytes sg sk"
    and "(artifact_sha256_hex man, signature_hex man) = sign_artifact env sg (payload ?m2) sk"
    using key man x by simp_all
  from signed_release_accepted [OF laws this] obtain k sig
    where acc: "hash_ok env man ?m2" "parse_signature env man ?m2 = Some (k, sig)"
      "ed_verify env k (payload ?m2) sig" by blast
  have dl: "state ?m2 = Downloading" "candidate_slot ?m2 = Some (other (active_slot m))" by simp_all
  obtain s3 where s3: "verify env man s2 = (Inr (), s3)" "settled env (?m2\<lparr>state := Staged\<rparr>) ?a s3"
    by (rule verify_accepts [OF env s2(2) dl acc, unfolded x])
  obtain s4 where s4: "mark_reboot_pending env s3 = (Inr (), s4)"
      "settled env (?m2\<lparr>state := Staged, state := RebootPending\<rparr>) ?a s4"
    by (rule mark_reboot_pending_settled [OF env s3(2)]) simp_all
  obtain s5 where s5: "simulate_reboot env s4 = (Inr (), s5)"
      "settled env (?m2\<lparr>state := Staged, state := RebootPending, state := HealthChecking\<rparr>) ?a s5"
    by (rule simulate_reboot_settled [OF env s4(2)]) simp_all
  have "run_reliably env (trial_script man cs) s = s5"
    using s1(1) s2(1) s3(1) s4(1) s5(1)
    by (simp add: trial_script_def run_reliably_Cons [OF s] run_reliably_Cons [OF s2(2)]
        run_reliably_Cons [OF s3(2)] run_reliably_Cons [OF s4(2)])
  then show ?thesis using s5(2) by (intro exI [of _ x]) simp
qed

lemma update_settled:
  fixes s :: ota_sys
  assumes "journal_total env" and "release_laws env sg sk"
    and "verifying_key m = verifying_key_bytes sg sk"
    and "settled env m a s" and "quiescent (state m)"
    and "above_highest (m_version man) (highest_committed_version m)"
    and "(artifact_sha256_hex man, signature_hex man) = sign_artifact env sg (concat cs) sk"
    and "\<forall>c \<in> set cs. of_nat (length c) \<le> size_bytes man + 1024 * 1024"
  shows "settled env
     (if healthy then m\<lparr>last_error := None, active_slot := other (active_slot m),
        highest_committed_version := Some (m_version man), candidate_slot := None,
        candidate_version := None, candidate_bytes := None, state := Committed\<rparr>
      else m\<lparr>last_error := Some detail, candidate_slot := None, candidate_version := None,
        candidate_bytes := None, state := RolledBack\<rparr>)
     (a(other (active_slot m) := Some (concat cs)))
     (run_reliably env (update_script man cs healthy detail) s)"
proof -
  let ?t = "run_reliably env (trial_script man cs) s"
  let ?a = "a(other (active_slot m) := Some (concat cs))"
  obtain x where t: "settled env (on_trial m (m_version man) x) ?a ?t"
    using update_reaches_trial [OF assms] by blast
  let ?m = "on_trial m (m_version man) x"
  have run: "run_reliably env (update_script man cs healthy detail) s = snd (health_check env healthy detail ?t)"
    by (simp add: update_script_def run_reliably_append run_reliably_Cons [OF t])
  have hc: "state ?m = HealthChecking" "candidate_slot ?m = Some (other (active_slot m))" by simp_all
  show ?thesis
  proof (cases healthy)
    case True
    have top: "raise_highest (candidate_version ?m) (highest_committed_version ?m) = Some (m_version man)"
      using assms(6) by (simp add: raise_highest_def above_highest_def split: option.splits)
    obtain u where "health_check env True detail ?t = (Inr (), u)"
        "settled env (?m\<lparr>active_slot := other (active_slot m),
           highest_committed_version := Some (m_version man),
           candidate_slot := None, candidate_version := None, candidate_bytes := None,
           state := Committed\<rparr>) ?a u"
      by (rule health_check_good_settled [OF assms(1) t hc, unfolded top])
    then show ?thesis using True run by simp
  next
    case False
    obtain u where "health_check env False detail ?t = (Inr (), u)"
        "settled env (?m\<lparr>last_error := Some detail, candidate_slot := None,
           candidate_version := None, candidate_bytes := None, state := RolledBack\<rparr>) ?a u"
      by (rule health_check_bad_settled [OF assms(1) t hc(1)])
    then show ?thesis using False run by simp
  qed
qed

section \<open>Properties\<close>

text \<open>
  C8. A complete update. On a device at rest whose disk does not fail, an artifact signed by
  the release key whose public half the device carries, delivered in any chunks within the
  size limit under a version above the highest committed one, is downloaded, verified,
  staged and booted; a healthy verdict then commits it: the slots flip, the new active slot
  holds exactly the signed bytes, its version becomes the highest committed one, and the old
  slot is kept. An unhealthy verdict ends in \<open>RolledBack\<close> with the previous slot still
  active and the committed version unchanged. In both cases the journal on disk equals the
  state in memory.
\<close>

theorem update_completes:
  fixes s :: ota_sys
  assumes "journal_total env" and "release_laws env sg sk"
    and "verifying_key m = verifying_key_bytes sg sk"
    and "settled env m a s" and "quiescent (state m)"
    and "above_highest (m_version man) (highest_committed_version m)"
    and "(artifact_sha256_hex man, signature_hex man) = sign_artifact env sg (concat cs) sk"
    and "\<forall>c \<in> set cs. of_nat (length c) \<le> size_bytes man + 1024 * 1024"
  shows "settled env
     (if healthy then m\<lparr>last_error := None, active_slot := other (active_slot m),
        highest_committed_version := Some (m_version man), candidate_slot := None,
        candidate_version := None, candidate_bytes := None, state := Committed\<rparr>
      else m\<lparr>last_error := Some detail, candidate_slot := None, candidate_version := None,
        candidate_bytes := None, state := RolledBack\<rparr>)
     (a(other (active_slot m) := Some (concat cs)))
     (run_reliably env (update_script man cs healthy detail) s)"
  using assms by (rule update_settled)

text \<open>
  C22. The verdict of \<open>verify\<close> on a disk that does not fail. It succeeds exactly when the hash
  of the downloaded bytes is the manifest's and its signature is accepted by the release
  key, and then the candidate slot holds those bytes and \<open>Staged\<close> is journaled. On a wrong
  hash, or a well-formed signature that the key rejects, it fails, records the reason and
  journals \<open>Failed\<close>, with the slots untouched. A signature that cannot be read (bad hex, wrong
  length, unusable key) also fails, but leaves the manager in \<open>Verifying\<close>.
\<close>

theorem verify_outcome:
  assumes env: "journal_total env" and s: "settled env m a s" and dl: "state m = Downloading"
    and c: "candidate_slot m = Some c"
  shows "\<exists>r t. verify env man s = (r, t) \<and>
     (if hash_ok env man m \<and> (\<exists>k sig. parse_signature env man m = Some (k, sig)
           \<and> ed_verify env k (payload m) sig)
      then r = Inr () \<and> settled env (m\<lparr>state := Staged\<rparr>) (a(c := Some (payload m))) t
      else (\<exists>e. r = Inl e) \<and> settled env
        (if \<not> hash_ok env man m then m\<lparr>last_error := Some ''hash mismatch'', state := Failed\<rparr>
         else if parse_signature env man m \<noteq> None
           then m\<lparr>last_error := Some ''bad signature'', state := Failed\<rparr>
         else m\<lparr>state := Verifying\<rparr>) a t)"
proof (cases "hash_ok env man m \<and> (\<exists>k sig. parse_signature env man m = Some (k, sig)
    \<and> ed_verify env k (payload m) sig)")
  case True
  then obtain k sig where acc: "hash_ok env man m" "parse_signature env man m = Some (k, sig)"
    "ed_verify env k (payload m) sig" by blast
  obtain t where "verify env man s = (Inr (), t)"
      "settled env (m\<lparr>state := Staged\<rparr>) (a(c := Some (payload m))) t"
    by (rule verify_accepts [OF env s dl c acc])
  with True show ?thesis by auto
next
  case False
  let ?m = "m\<lparr>state := Verifying\<rparr>"
  obtain t where t: "verify env man s = check_artifact env man t" "settled env ?m a t"
    by (rule verify_runs [OF env s dl])
  have same: "payload ?m = payload m" "hash_ok env man ?m = hash_ok env man m"
    "parse_signature env man ?m = parse_signature env man m"
    by (simp_all add: payload_def hash_ok_def parse_signature_def)
  have fail: "\<exists>u. fail_verify env why e t = (Inl e, u)
      \<and> settled env (m\<lparr>last_error := Some why, state := Failed\<rparr>) a u" for why e
    by (rule fail_verify_settled [OF env t(2), of why e]) auto
  show ?thesis
  proof (cases "hash_ok env man m")
    case wrong: False
    then show ?thesis
      using t(1) fail [of "''hash mismatch''" "HashMismatch (artifact_sha256_hex man)
          (hex_encode env (sha256 env (payload m)))"] by (auto simp: check_artifact_eval [OF t(2)] same)
  next
    case ok: True
    show ?thesis
    proof (cases "parse_signature env man m")
      case None
      with ok t show ?thesis by (simp add: check_artifact_eval [OF t(2)] same)
    next
      case (Some ks)
      obtain k sig where "ks = (k, sig)" by (cases ks)
      with Some ok t(1) False fail [of "''bad signature''" BadSignature] show ?thesis
        by (auto simp: check_artifact_eval [OF t(2)] same)
    qed
  qed
qed

text \<open>
  \<open>Verifying\<close> is a dead end of the running process: on any reachable device in that state,
  no call other than \<open>recover\<close> (or a restart) changes the manager, so after an unreadable
  signature every further update command is refused.
\<close>

theorem verifying_stuck:
  assumes "json_ok (journal env)" and "ota_reach env d key s" and "state (mgr s) = Verifying"
    and "x \<noteq> Recover" and "x \<noteq> Reopen"
  shows "mgr (ota_run_op env x s) = mgr s"
proof -
  have "ota_inv env key d s" by (rule ota_reach_inv [OF assms(1,2)])
  then obtain v where "candidate_version (mgr s) = Some v" using assms(3) by (auto simp: inv_unfold)
  then show ?thesis
    using assms(3-5)
    by (cases x) (simp_all add: start_download_def ingest_chunk_def verify_def mark_reboot_pending_def
        simulate_reboot_def health_check_def rollback_def act_defs Let_def)
qed

end
