(* ===== verification/Ota_Rollback.thy ===== *)
theory Ota_Rollback
  imports Ota_Function
begin

text \<open>
  Rollback protection: the highest committed version on disk never goes down while the
  device runs, fails, crashes and restarts, so an older release is never started again;
  and the two ways in which the code loses this protection.
\<close>

section \<open>Definitions\<close>

definition highest_le :: "string option \<Rightarrow> string option \<Rightarrow> bool" where
  "highest_le a b \<longleftrightarrow>
     (case a of
        None \<Rightarrow> True
      | Some x \<Rightarrow> (case b of None \<Rightarrow> False | Some y \<Rightarrow> version_key x \<le> version_key y))"

definition numeric_opt :: "string option \<Rightarrow> bool" where
  "numeric_opt v \<longleftrightarrow> (case v of None \<Rightarrow> True | Some x \<Rightarrow> numeric_version x)"

text \<open>
  The steps covered: update commands carry numeric versions, and a restart can read the
  metadata of the journal (the second operation of \<open>open\<close> does not fail).
\<close>

fun protected_step :: "ota_op \<times> io_outcome list \<Rightarrow> bool" where
  "protected_step (StartDownload man, fl) = numeric_version (m_version man)"
| "protected_step (Reopen, _ # IoErr _ # _) = False"
| "protected_step _ = True"

text \<open>
  The invariant: a bound \<open>h\<close> is below the highest version in the journal, which is below the
  one in memory, and all versions are numeric.
\<close>

definition guarded :: "'k ota_env \<Rightarrow> path \<Rightarrow> string option \<Rightarrow> 'z ota_sys_scheme \<Rightarrow> bool" where
  "guarded env d h s \<longleftrightarrow>
     dir (mgr s) = d \<and> numeric_opt (candidate_version (mgr s)) \<and>
     numeric_opt (highest_committed_version (mgr s)) \<and>
     (\<exists>p. journaled env d (files s) = Some p \<and> numeric_opt (j_candidate_version p) \<and>
        numeric_opt (j_highest_committed_version p) \<and>
        highest_le h (j_highest_committed_version p) \<and>
        highest_le (j_highest_committed_version p) (highest_committed_version (mgr s)))"

text \<open>The state a recovered device resumes from.\<close>

fun resume :: "OtaState \<Rightarrow> OtaState" where
  "resume Downloading = Idle"
| "resume Verifying = Idle"
| "resume RebootPending = HealthChecking"
| "resume BootingCandidate = HealthChecking"
| "resume st = st"

section \<open>Order\<close>

lemma highest_le_refl [simp]: "highest_le a a"
  by (simp add: highest_le_def split: option.splits)

lemma highest_le_trans: "highest_le a b \<Longrightarrow> highest_le b c \<Longrightarrow> highest_le a c"
  by (auto simp: highest_le_def split: option.splits)

lemma raise_highest_le:
  "numeric_opt v \<Longrightarrow> numeric_opt h \<Longrightarrow>
     highest_le h (raise_highest v h) \<and> numeric_opt (raise_highest v h)"
  by (auto simp: highest_le_def raise_highest_def numeric_opt_def compare_versions_key
      split: option.splits)

section \<open>Every step keeps the bound\<close>

lemma guarded_frame:
  assumes "guarded env d h s" and "F (journal_path d) = files s (journal_path d)"
  shows "guarded env d h (s\<lparr>files := F, faults := G\<rparr>)"
  using assms by (simp add: guarded_def journaled_def)

lemma guarded_mgr:
  assumes "guarded env d h s" and "dir (f (mgr s)) = dir (mgr s)"
    and "numeric_opt (candidate_version (f (mgr s)))"
    and "numeric_opt (highest_committed_version (f (mgr s)))"
    and "highest_le (highest_committed_version (mgr s)) (highest_committed_version (f (mgr s)))"
  shows "guarded env d h (s\<lparr>mgr := f (mgr s)\<rparr>)"
proof -
  obtain p where p: "journaled env d (files s) = Some p" "numeric_opt (j_candidate_version p)"
    "numeric_opt (j_highest_committed_version p)" "highest_le h (j_highest_committed_version p)"
    "highest_le (j_highest_committed_version p) (highest_committed_version (mgr s))"
    using assms(1) by (auto simp: guarded_def)
  then show ?thesis
    using assms highest_le_trans [OF p(5) assms(5)] by (auto simp: guarded_def)
qed

lemma set_state_guarded:
  assumes js: "json_ok (journal env)"
  shows "act_keeps (guarded env d h) (set_state env st)"
proof (rule act_keepsI)
  fix s r t
  assume g: "guarded env d h s" and run: "set_state env st s = (r, t)"
  have d: "dir (mgr s) = d" using g by (simp add: guarded_def)
  note eff = set_state_effect [OF js run, unfolded d]
  show "guarded env d h t"
  proof (cases "r = Inr ()")
    case True
    from g obtain p :: PersistedOta where p: "highest_le h (j_highest_committed_version p)"
      "highest_le (j_highest_committed_version p) (highest_committed_version (mgr s))"
      by (auto simp: guarded_def)
    show ?thesis
      using True g eff highest_le_trans [OF p] by (auto simp: guarded_def to_journal_def)
  next
    case False
    with g eff show ?thesis by (auto simp: guarded_def)
  qed
qed

lemma upd_mgr_guarded:
  assumes "\<And>m. dir (f m) = dir m"
    and "\<And>m. numeric_opt (candidate_version m) \<Longrightarrow> numeric_opt (candidate_version (f m))"
    and "\<And>m. numeric_opt (candidate_version m) \<Longrightarrow> numeric_opt (highest_committed_version m) \<Longrightarrow>
      highest_le (highest_committed_version m) (highest_committed_version (f m))
      \<and> numeric_opt (highest_committed_version (f m))"
  shows "act_keeps (guarded env d h) (upd_mgr f)"
  unfolding upd_mgr_def
proof (rule act_valid_update)
  fix s assume g: "guarded env d h s"
  then have "numeric_opt (candidate_version (mgr s))" "numeric_opt (highest_committed_version (mgr s))"
    by (simp_all add: guarded_def)
  then show "guarded env d h (s\<lparr>mgr := f (mgr s)\<rparr>)"
    using assms by (intro guarded_mgr [OF g]) auto
qed

lemma fs_write_guarded:
  assumes "p \<noteq> journal_path d"
  shows "act_keeps (guarded env d h) (fs_write p b)"
proof (rule act_keepsI)
  fix s r t assume g: "guarded env d h s" and "fs_write p b s = (r, t)"
  then obtain F G where "t = s\<lparr>files := F, faults := G\<rparr>" "F (journal_path d) = files s (journal_path d)"
    using fs_write_effect [of p b s r t] assms by auto
  then show "guarded env d h t" using guarded_frame [OF g, of F G] by simp
qed

lemma fs_touch_guarded: "act_keeps (guarded env d h) fs_touch"
proof (rule act_keepsI)
  fix s r t assume g: "guarded env d h s" and "fs_touch s = (r, t)"
  then obtain G where "t = s\<lparr>faults := G\<rparr>" using fs_touch_files(2) [of s] by auto
  then show "guarded env d h t" using guarded_frame [OF g, of "files s" G] by simp
qed

lemma slot_files_neq: "slot_dir d x @ [''artifact.bin''] \<noteq> journal_path e"
  "slot_dir d x @ [''version''] \<noteq> journal_path e"
  by (simp_all add: journal_path_def)

lemmas guarded_rules = act_keeps_rules set_state_guarded upd_mgr_guarded
  fs_write_guarded [OF slot_files_neq(1)] fs_write_guarded [OF slot_files_neq(2)] fs_touch_guarded

lemma numeric_opt_simps [simp]: "numeric_opt None" "numeric_opt (Some v) = numeric_version v"
  by (simp_all add: numeric_opt_def)

lemma simple_ops_guarded:
  assumes "json_ok (journal env)"
  shows "act_keeps (guarded env d h) (mark_reboot_pending env)"
    and "act_keeps (guarded env d h) (simulate_reboot env)"
    and "act_keeps (guarded env d h) (rollback env)"
    and "act_keeps (guarded env d h) (recover env)"
    and "act_keeps (guarded env d h) (ingest_chunk c man)"
    and "act_keeps (guarded env d h) (fail_verify env why e)"
  unfolding mark_reboot_pending_def simulate_reboot_def rollback_def recover_def ingest_chunk_def
    fail_verify_def
  using assms by (auto intro!: guarded_rules)

lemma health_check_guarded:
  assumes "json_ok (journal env)"
  shows "act_keeps (guarded env d h) (health_check env healthy detail)"
  unfolding health_check_def
  using assms raise_highest_le by (auto intro!: guarded_rules simple_ops_guarded)

lemma start_download_guarded:
  assumes "json_ok (journal env)" and "numeric_version (m_version man)"
  shows "act_keeps (guarded env d h) (start_download env man)"
  unfolding start_download_def Let_def
  using assms by (auto intro!: guarded_rules split: option.splits)

lemma verify_guarded:
  assumes "json_ok (journal env)"
  shows "act_keeps (guarded env d h) (verify env man)"
  unfolding verify_def check_artifact_def stage_artifact_def Let_def
  using assms by (auto intro!: guarded_rules simple_ops_guarded split: sum.splits)

lemma open_existing:
  assumes "files s (journal_path d) = Some b" and "protected_step (Reopen, faults s)"
    and "OtaManager_open env d key s = (r, t)"
  shows "\<exists>G. t = s\<lparr>faults := G\<rparr>"
    and "r = Inr m \<Longrightarrow> \<exists>p. decode (journal env) b = Some p \<and> m = mgr_of_journal d key p"
proof -
  have "(\<exists>G. t = s\<lparr>faults := G\<rparr>) \<and>
      (r = Inr m \<longrightarrow> (\<exists>p. decode (journal env) b = Some p \<and> m = mgr_of_journal d key p))"
  proof (cases "faults s" rule: remdups_adj.cases)
    case 1
    with assms show ?thesis
      by (cases s) (auto simp: OtaManager_open_def act_defs fs_defs mgr_of_journal_def split: option.splits)
  next
    case (2 x)
    with assms show ?thesis
      by (cases s; cases x) (auto simp: OtaManager_open_def act_defs fs_defs mgr_of_journal_def
          split: option.splits)
  next
    case (3 x y ys)
    with assms show ?thesis
      by (cases s; cases x; cases y) (auto simp: OtaManager_open_def act_defs fs_defs
          mgr_of_journal_def split: option.splits list.splits io_outcome.splits)
  qed
  then show "\<exists>G. t = s\<lparr>faults := G\<rparr>"
    and "r = Inr m \<Longrightarrow> \<exists>p. decode (journal env) b = Some p \<and> m = mgr_of_journal d key p" by blast+
qed

lemma reopen_guarded:
  assumes g: "guarded env d h s" and "protected_step (Reopen, faults s)"
  shows "guarded env d h (ota_run_op env Reopen s)"
proof -
  obtain r t where run: "OtaManager_open env (dir (mgr s)) (verifying_key (mgr s)) s = (r, t)"
    by (cases "OtaManager_open env (dir (mgr s)) (verifying_key (mgr s)) s")
  have d: "dir (mgr s) = d" using g by (simp add: guarded_def)
  from g obtain b where b: "files s (journal_path d) = Some b"
    by (auto simp: guarded_def journaled_def bind_eq_Some_conv)
  note ex = open_existing [OF b assms(2) run [unfolded d]]
  obtain G where t: "t = s\<lparr>faults := G\<rparr>" using ex(1) by blast
  have "guarded env d h t" using guarded_frame [OF g, of "files s" G] t by simp
  moreover have "guarded env d h (t\<lparr>mgr := m\<rparr>)" if rm: "r = Inr m" for m
  proof -
    obtain p where p: "journaled env d (files s) = Some p"
        "m = mgr_of_journal d (verifying_key (mgr s)) p"
      using ex(2) [OF rm] b by (auto simp: journaled_def)
    have "mgr_of_journal d k q = m \<Longrightarrow> dir m = d \<and> candidate_version m = j_candidate_version q
        \<and> highest_committed_version m = j_highest_committed_version q" for k q
      by (auto simp: mgr_of_journal_def)
    then show ?thesis using g p t by (auto simp: guarded_def)
  qed
  ultimately show ?thesis using run by (cases r) auto
qed

lemma ota_run_op_guarded:
  assumes js: "json_ok (journal env)" and g: "guarded env d h s"
    and "protected_step (x, faults s)"
  shows "guarded env d h (ota_run_op env x s)"
proof (cases x)
  case Reopen
  with g assms(3) show ?thesis using reopen_guarded by blast
qed (use assms(3) in \<open>auto intro!: act_valid_state [OF simple_ops_guarded(1) [OF js] g]
    act_valid_state [OF simple_ops_guarded(2) [OF js] g] act_valid_state [OF simple_ops_guarded(3) [OF js] g]
    act_valid_state [OF simple_ops_guarded(4) [OF js] g] act_valid_state [OF simple_ops_guarded(5) [OF js] g]
    act_valid_state [OF health_check_guarded [OF js] g] act_valid_state [OF start_download_guarded [OF js] g]
    act_valid_state [OF verify_guarded [OF js] g]\<close>)

lemma ota_run_guarded:
  assumes "json_ok (journal env)" and "list_all protected_step xs" and "guarded env d h s"
  shows "guarded env d h (ota_run env xs s)"
  using assms(2,3)
proof (induction xs arbitrary: s)
  case (Cons y xs)
  obtain x fl where y: "y = (x, fl)" by (cases y)
  have "guarded env d h (s\<lparr>faults := fl\<rparr>)" using Cons.prems(2) by (simp add: guarded_def)
  then have "guarded env d h (ota_run_op env x (s\<lparr>faults := fl\<rparr>))"
    using ota_run_op_guarded [OF assms(1)] Cons.prems(1) y by simp
  then show ?case using Cons.IH Cons.prems(1) y by simp
qed simp

lemma start_download_refused:
  assumes "highest_committed_version (mgr s) = Some c" and "compare_versions (m_version man) c \<noteq> Greater"
  shows "fst (start_download env man s) \<noteq> Inr True \<and> snd (start_download env man s) = s"
  using assms by (auto simp: start_download_def act_defs Let_def)

section \<open>Properties\<close>

text \<open>
  C3. Rollback protection survives everything that can happen to a device. Open the manager on
  an empty disk and run any two sequences of calls and restarts one after the other, with
  I/O faults and crashes anywhere, where update commands carry numeric versions and restarts
  can stat the journal. If \<open>c\<close> was the highest committed version in the journal after the
  first sequence, then after the second one the journal's and the manager's highest
  version are at or above \<open>c\<close>, and a command to install any version at or below \<open>c\<close> is
  refused without any effect.
\<close>

theorem rollback_protection:
  assumes js: "json_ok (journal env)" and "files s0 (journal_path d) = None"
    and boot: "OtaManager_open env d key s0 = (Inr m, t)"
    and "s1 = ota_run env xs (t\<lparr>mgr := m\<rparr>)" and "s2 = ota_run env ys s1"
    and "list_all protected_step (xs @ ys)"
    and "journaled env d (files s1) = Some p" and "j_highest_committed_version p = Some c"
    and "numeric_version (m_version man)" and "version_key (m_version man) \<le> version_key c"
  shows "(\<exists>q c' c''. journaled env d (files s2) = Some q
        \<and> j_highest_committed_version q = Some c' \<and> version_key c \<le> version_key c'
        \<and> highest_committed_version (mgr s2) = Some c'' \<and> version_key c \<le> version_key c'')
    \<and> fst (start_download env man s2) \<noteq> Inr True \<and> snd (start_download env man s2) = s2"
proof -
  have fresh: "guarded env d None (t\<lparr>mgr := m\<rparr>)"
  proof (cases rule: open_cases [OF boot, case_names taken_over created])
    case (taken_over p G)
    with assms(2) show ?thesis by (simp add: journaled_def)
  next
    case (created G)
    have "journaled env d (files t) = Some (to_journal (fresh_mgr d key))"
      using ota_persist_effect(3) [OF js created(1)] by (simp add: fresh_mgr_def)
    with created(2) show ?thesis
      by (simp add: guarded_def to_journal_def fresh_mgr_def highest_le_def)
  qed
  have "guarded env d None s1"
    using ota_run_guarded [OF js _ fresh, of xs] assms(4,6) by simp
  then have "guarded env d (Some c) s1" using assms(7,8) by (auto simp: guarded_def)
  then have g: "guarded env d (Some c) s2"
    using ota_run_guarded [OF js, of ys] assms(5,6) by simp
  then obtain q c' c'' where q: "journaled env d (files s2) = Some q"
      "j_highest_committed_version q = Some c'" "version_key c \<le> version_key c'"
      "highest_committed_version (mgr s2) = Some c''" "version_key c' \<le> version_key c''"
      "numeric_version c''"
    by (auto simp: guarded_def highest_le_def split: option.splits)
  then have "compare_versions (m_version man) c'' \<noteq> Greater"
    using assms(9,10) by (auto simp: compare_versions_key)
  from start_download_refused [OF q(4) this, of env] have
    "fst (start_download env man s2) \<noteq> Inr True \<and> snd (start_download env man s2) = s2" .
  moreover have "version_key c \<le> version_key c''" using q(3,5) by (rule order_trans)
  ultimately show ?thesis using q(1-4) by blast
qed

text \<open>
  The protection is lost when a restart cannot stat the journal: \<open>open\<close> then takes the
  journal for missing, overwrites it with a fresh one, and the committed version and the
  active slot are forgotten.
\<close>

theorem stat_fault_forgets:
  fixes s :: ota_sys
  assumes env: "journal_total env" and "faults s = [IoOk, IoErr n]"
  shows "\<exists>t. OtaManager_open env d key s = (Inr (fresh_mgr d key), t)
     \<and> journaled env d (files t) = Some (to_journal (fresh_mgr d key))
     \<and> highest_committed_version (fresh_mgr d key) = None \<and> active_slot (fresh_mgr d key) = A"
proof -
  obtain b where b: "encode (journal env) (to_journal (fresh_mgr d key)) = Some b"
    using env by (auto simp: journal_total_def)
  let ?s = "s\<lparr>faults := []\<rparr>"
  obtain t where t: "ota_persist env (fresh_mgr d key) ?s = (Inr (), t)"
    using b write_sync_rename_reliable [of ?s "journal_path d" b]
    by (cases "write_sync_rename (journal_path d) b ?s")
      (auto simp: ota_persist_def act_map_err_def fresh_mgr_def)
  have "OtaManager_open env d key s = (Inr (fresh_mgr d key), t)"
    using assms(2) t
    by (simp add: OtaManager_open_def fresh_mgr_def [symmetric] act_defs fs_defs Let_def)
  moreover have "journaled env d (files t) = Some (to_journal (fresh_mgr d key))"
    using ota_persist_effect(3) [OF _ t] env by (simp add: journal_total_def fresh_mgr_def)
  ultimately show ?thesis by (simp add: fresh_mgr_def)
qed

text \<open>
  C14. Committing is atomic. A healthy verdict on a journaled candidate, under any schedule of
  faults, either returns \<open>Ok\<close> with the flipped slot, the raised version and \<open>Committed\<close> in
  the journal, or returns an error with the journal still saying that the candidate is on
  trial: a restart then repeats the health check on the old active slot. No fault leaves a
  mixture.
\<close>

theorem commit_atomic:
  assumes js: "json_ok (journal env)" and "state (mgr s) = HealthChecking"
    and "journaled env (dir (mgr s)) (files s) = Some (to_journal (mgr s))"
    and "candidate_slot (mgr s) = Some c" and run: "health_check env True detail s = (r, t)"
  shows "journaled env (dir (mgr s)) (files t) =
      Some (if r = Inr ()
        then \<lparr>j_state = Committed, j_active_slot = c, j_candidate_slot = None,
          j_candidate_version = None, j_last_error = last_error (mgr s),
          j_highest_committed_version =
            raise_highest (candidate_version (mgr s)) (highest_committed_version (mgr s))\<rparr>
        else to_journal (mgr s))
    \<and> (\<forall>sl. files t (artifact (dir (mgr s)) sl) = files s (artifact (dir (mgr s)) sl))"
proof -
  let ?m = "(mgr s)\<lparr>active_slot := c,
     highest_committed_version := raise_highest (candidate_version (mgr s)) (highest_committed_version (mgr s)),
     candidate_slot := None, candidate_version := None, candidate_bytes := None\<rparr>"
  have st: "set_state env Committed (s\<lparr>mgr := ?m\<rparr>) = (r, t)"
    using run assms(2,4) by (simp add: health_check_def upd_mgr_def act_defs)
  from set_state_effect [OF js st] show ?thesis
    using assms(3) by (auto simp: to_journal_def)
qed

text \<open>
  C13. Recovery. Whatever happened to a device, restarting it on a working disk and calling
  \<open>recover\<close> resumes from the journal: the active slot, the committed version and the slot
  contents are those on disk, a download in progress is dropped, a candidate that was booted
  goes back to its health check, and memory and journal agree again.
\<close>

theorem recovery_resumes:
  assumes env: "journal_total env" and reach: "ota_reach env d key s"
  shows "\<exists>p m. journaled env d (files s) = Some p
     \<and> settled env m (\<lambda>sl. files s (artifact d sl)) (run_reliably env [Reopen, Recover] s)
     \<and> m = (mgr_of_journal d key p)\<lparr>state := resume (j_state p)\<rparr>"
proof -
  have js: "json_ok (journal env)" using env by (simp add: journal_total_def)
  from ota_reach_inv [OF js reach] obtain p where p: "journaled env d (files s) = Some p"
    and d: "dir (mgr s) = d" "verifying_key (mgr s) = key"
    by (auto simp: ota_inv_def ota_pre_def journal_inv_def)
  then obtain b where b: "files s (journal_path d) = Some b" "decode (journal env) b = Some p"
    by (auto simp: journaled_def bind_eq_Some_conv)
  let ?m = "mgr_of_journal d key p" and ?a = "\<lambda>sl. files s (artifact d sl)"
  have "ota_run_op env Reopen (s\<lparr>faults := []\<rparr>) = s\<lparr>faults := [], mgr := ?m\<rparr>"
    using b d by (simp add: OtaManager_open_def act_defs fs_defs mgr_of_journal_def)
  then have run: "run_reliably env [Reopen, Recover] s = snd (recover env (s\<lparr>faults := [], mgr := ?m\<rparr>))"
    by (cases s) (simp add: run_reliably_def)
  have st: "settled env ?m ?a (s\<lparr>faults := [], mgr := ?m\<rparr>)"
    using p by (auto simp: settled_def mgr_of_journal_def to_journal_def)
  have eqs: "?m\<lparr>candidate_bytes := None\<rparr> = ?m" "state ?m = j_state p"
    by (simp_all add: mgr_of_journal_def)
  have st': "settled env (?m\<lparr>state := j_state p\<rparr>) ?a (s\<lparr>faults := [], mgr := ?m\<rparr>)"
    using st by (simp add: mgr_of_journal_def)
  obtain u v where u: "set_state env Idle (s\<lparr>faults := [], mgr := ?m\<rparr>) = (Inr (), u)"
      "settled env (?m\<lparr>state := Idle\<rparr>) ?a u"
    and v: "set_state env HealthChecking (s\<lparr>faults := [], mgr := ?m\<rparr>) = (Inr (), v)"
      "settled env (?m\<lparr>state := HealthChecking\<rparr>) ?a v"
    using set_state_now [OF env st] by metis
  have "settled env (?m\<lparr>state := resume (j_state p)\<rparr>) ?a (run_reliably env [Reopen, Recover] s)"
    using u v st' eqs unfolding run
    by (cases "j_state p") (simp_all add: recover_def upd_mgr_def act_defs)
  with p show ?thesis by blast
qed

end
