(* ===== verification/Sample_Env.thy ===== *)
theory Sample_Env
  imports Ota_Rollback
begin

text \<open>
  Concrete stand-ins for the third-party parameters, used only to show that the hypotheses
  on them can hold: a self-delimiting serializer for the persisted records in place of
  \<open>serde_json\<close>, hexadecimal strings, and a keyed checksum in place of SHA-256 and Ed25519.
\<close>

section \<open>Codecs\<close>

record 'a codec =
  enc :: "'a \<Rightarrow> bytes"
  dec :: "bytes \<Rightarrow> ('a \<times> bytes) option"

definition codec_ok :: "'a codec \<Rightarrow> bool" where
  "codec_ok c \<longleftrightarrow> (\<forall>x r. dec c (enc c x @ r) = Some (x, r))"

fun enc_str :: "string \<Rightarrow> bytes" where
  "enc_str [] = [0]"
| "enc_str (c # cs) = 1 # of_char c # enc_str cs"

fun dec_str :: "bytes \<Rightarrow> (string \<times> bytes) option" where
  "dec_str [] = None"
| "dec_str [x] = (if x = 0 then Some ([], []) else None)"
| "dec_str (x # c # r) =
     (if x = 0 then Some ([], c # r)
      else map_option (\<lambda>(cs, q). (char_of (unat c) # cs, q)) (dec_str r))"

definition str_codec :: "string codec" where
  "str_codec = \<lparr>enc = enc_str, dec = dec_str\<rparr>"

definition pair_codec :: "'a codec \<Rightarrow> 'b codec \<Rightarrow> ('a \<times> 'b) codec" where
  "pair_codec c d = \<lparr>enc = (\<lambda>(x, y). enc c x @ enc d y),
     dec = (\<lambda>b. case dec c b of None \<Rightarrow> None
       | Some (x, r) \<Rightarrow> map_option (\<lambda>(y, q). ((x, y), q)) (dec d r))\<rparr>"

definition option_codec :: "'a codec \<Rightarrow> 'a option codec" where
  "option_codec c = \<lparr>enc = (\<lambda>x. case x of None \<Rightarrow> [0] | Some y \<Rightarrow> 1 # enc c y),
     dec = (\<lambda>b. case b of [] \<Rightarrow> None
       | t # r \<Rightarrow> if t = 0 then Some (None, r) else map_option (\<lambda>(y, q). (Some y, q)) (dec c r))\<rparr>"

definition via_codec :: "('a \<Rightarrow> 'b) \<Rightarrow> ('b \<Rightarrow> 'a) \<Rightarrow> 'b codec \<Rightarrow> 'a codec" where
  "via_codec f g c = \<lparr>enc = (\<lambda>x. enc c (f x)), dec = (\<lambda>b. map_option (\<lambda>(y, r). (g y, r)) (dec c b))\<rparr>"

definition json_of_codec :: "'a codec \<Rightarrow> 'a json" where
  "json_of_codec c = \<lparr>encode = (\<lambda>x. Some (enc c x)),
     decode = (\<lambda>b. case dec c b of Some (x, []) \<Rightarrow> Some x | _ \<Rightarrow> None)\<rparr>"

lemma char_of_byte: "char_of (unat (of_char c :: u8)) = c"
proof -
  have "unat (of_char c :: u8) = of_char c"
    by (cases c) (simp add: of_char_def)
  then show ?thesis by simp
qed

lemma dec_enc_str: "dec_str (enc_str cs @ r) = Some (cs, r)"
proof (induction cs)
  case Nil
  show ?case by (cases r) simp_all
qed (simp add: char_of_byte)

lemma codec_ok_intros:
  "codec_ok str_codec"
  "codec_ok c \<Longrightarrow> codec_ok e \<Longrightarrow> codec_ok (pair_codec c e)"
  "codec_ok c \<Longrightarrow> codec_ok (option_codec c)"
  "codec_ok b \<Longrightarrow> (\<And>x. g (f x) = x) \<Longrightarrow> codec_ok (via_codec f g b)"
  by (auto simp: codec_ok_def str_codec_def dec_enc_str pair_codec_def option_codec_def via_codec_def
      split: option.splits)

lemma json_of_codec_ok: "codec_ok c \<Longrightarrow> json_ok (json_of_codec c)"
  unfolding codec_ok_def json_ok_def json_of_codec_def
  by (metis (no_types, lifting) append_Nil2 case_prod_conv json.select_convs list.simps(4)
      option.inject option.simps(5))

section \<open>The persisted records\<close>

definition u64_codec :: "u64 codec" where
  "u64_codec = via_codec show_u64 (\<lambda>s. the (parse_u64 s)) str_codec"

definition u32_codec :: "u32 codec" where
  "u32_codec = via_codec (ucast :: u32 \<Rightarrow> u64) ucast u64_codec"

definition policy_codec :: "Policy codec" where
  "policy_codec = via_codec
     (\<lambda>p. (version p, max_connections p, idle_timeout_secs p, default_upstream p, rules_json p))
     (\<lambda>(v, m, i, u, r). \<lparr>version = v, max_connections = m, idle_timeout_secs = i,
        default_upstream = u, rules_json = r\<rparr>)
     (pair_codec u64_codec (pair_codec u32_codec (pair_codec u64_codec
        (pair_codec str_codec str_codec))))"

definition desired_codec :: "DesiredState codec" where
  "desired_codec = via_codec (\<lambda>d. (seq d, policy d, d_software_version d))
     (\<lambda>(q, p, v). \<lparr>seq = q, policy = p, d_software_version = v\<rparr>)
     (pair_codec u64_codec (pair_codec policy_codec str_codec))"

definition reported_codec :: "ReportedState codec" where
  "reported_codec = via_codec (\<lambda>r. (policy_version r, r_software_version r, applied_seq r))
     (\<lambda>(v, w, q). \<lparr>policy_version = v, r_software_version = w, applied_seq = q\<rparr>)
     (pair_codec u64_codec (pair_codec str_codec u64_codec))"

definition persisted_codec :: "Persisted codec" where
  "persisted_codec = via_codec (\<lambda>p. (p_desired p, p_reported p, p_last_good_policy p))
     (\<lambda>(d, r, g). \<lparr>p_desired = d, p_reported = r, p_last_good_policy = g\<rparr>)
     (pair_codec (option_codec desired_codec) (pair_codec reported_codec policy_codec))"

definition all_states :: "OtaState list" where
  "all_states = [Idle, Downloading, Verifying, Staged, RebootPending, BootingCandidate,
     HealthChecking, Committed, RollbackPending, RolledBack, Failed]"

definition state_codec :: "OtaState codec" where
  "state_codec = via_codec show_OtaState
     (\<lambda>n. case find (\<lambda>st. show_OtaState st = n) all_states of None \<Rightarrow> Idle | Some st \<Rightarrow> st) str_codec"

definition slot_codec :: "Slot codec" where
  "slot_codec = via_codec show_Slot (\<lambda>n. if n = ''A'' then A else B) str_codec"

definition journal_codec :: "PersistedOta codec" where
  "journal_codec = via_codec
     (\<lambda>p. (j_state p, j_active_slot p, j_candidate_slot p, j_candidate_version p, j_last_error p,
        j_highest_committed_version p))
     (\<lambda>(s, a, c, v, e, h). \<lparr>j_state = s, j_active_slot = a, j_candidate_slot = c,
        j_candidate_version = v, j_last_error = e, j_highest_committed_version = h\<rparr>)
     (pair_codec state_codec (pair_codec slot_codec (pair_codec (option_codec slot_codec)
        (pair_codec (option_codec str_codec) (pair_codec (option_codec str_codec)
        (option_codec str_codec))))))"

lemma codecs_ok:
  "codec_ok u64_codec" "codec_ok u32_codec" "codec_ok policy_codec" "codec_ok desired_codec"
  "codec_ok reported_codec" "codec_ok persisted_codec" "codec_ok state_codec" "codec_ok slot_codec"
  "codec_ok journal_codec"
proof -
  show u64: "codec_ok u64_codec"
    unfolding u64_codec_def by (intro codec_ok_intros) (simp add: parse_show_u64)
  show u32: "codec_ok u32_codec"
    unfolding u32_codec_def by (intro codec_ok_intros u64) (simp add: ucast_up_ucast_id is_up)
  show p: "codec_ok policy_codec"
    unfolding policy_codec_def by (intro codec_ok_intros u64 u32) simp
  show d: "codec_ok desired_codec"
    unfolding desired_codec_def by (intro codec_ok_intros u64 p) simp
  show r: "codec_ok reported_codec"
    unfolding reported_codec_def by (intro codec_ok_intros u64) simp
  show "codec_ok persisted_codec"
    unfolding persisted_codec_def by (intro codec_ok_intros d r p) simp
  show st: "codec_ok state_codec"
    unfolding state_codec_def
  proof (intro codec_ok_intros)
    fix x show "(case find (\<lambda>st. show_OtaState st = show_OtaState x) all_states of
        None \<Rightarrow> Idle | Some st \<Rightarrow> st) = x"
      by (cases x) (simp_all add: all_states_def)
  qed
  show sl: "codec_ok slot_codec"
    unfolding slot_codec_def
  proof (intro codec_ok_intros)
    fix x show "(if show_Slot x = ''A'' then A else B) = x" by (cases x) simp_all
  qed
  show "codec_ok journal_codec"
    unfolding journal_codec_def by (intro codec_ok_intros st sl) simp
qed

definition sample_json :: "Persisted json" where
  "sample_json = json_of_codec persisted_codec"

lemma sample_json_ok: "json_ok sample_json"
  unfolding sample_json_def by (intro json_of_codec_ok codecs_ok)

section \<open>Update environment\<close>

definition hex_chars :: string where
  "hex_chars = ''0123456789abcdef''"

definition sample_hex :: "bytes \<Rightarrow> string" where
  "sample_hex b = concat (map (\<lambda>x. [hex_chars ! (unat x div 16), hex_chars ! (unat x mod 16)]) b)"

definition hex_val :: "char \<Rightarrow> nat option" where
  "hex_val c = (let n = code_of c in
     if 48 \<le> n \<and> n \<le> 57 then Some (n - 48)
     else if 97 \<le> n \<and> n \<le> 102 then Some (n - 87)
     else if 65 \<le> n \<and> n \<le> 70 then Some (n - 55) else None)"

fun sample_unhex :: "string \<Rightarrow> bytes option" where
  "sample_unhex [] = Some []"
| "sample_unhex [c] = None"
| "sample_unhex (c # e # r) =
     (case (hex_val c, hex_val e, sample_unhex r) of
        (Some x, Some y, Some b) \<Rightarrow> Some (of_nat (16 * x + y) # b)
      | _ \<Rightarrow> None)"

definition sample_sum :: "bytes \<Rightarrow> u8" where
  "sample_sum b = fold (\<lambda>x acc. acc * 31 + x + 1) b 7"

definition sample_env :: "bytes ota_env" where
  "sample_env = \<lparr>journal = json_of_codec journal_codec,
     sha256 = (\<lambda>b. [sample_sum b]), hex_encode = sample_hex, hex_decode = sample_unhex,
     key_from_bytes = (\<lambda>k. if length k = 32 then Inr k else Inl ''invalid length''),
     ed_verify = (\<lambda>k b sig. sig = replicate 64 (sample_sum (k @ b)))\<rparr>"

lemma sample_env_ok: "json_ok (journal sample_env)"
  unfolding sample_env_def by (simp add: json_of_codec_ok codecs_ok)

lemma sample_env_total: "journal_total sample_env"
  by (simp add: journal_total_def sample_env_ok) (simp add: sample_env_def json_of_codec_def)

text \<open>The matching signer: the public key is the seed and a signature is the keyed checksum.\<close>

definition sample_signer :: "bytes signer" where
  "sample_signer = \<lparr>sk_from_bytes = (\<lambda>b. b), sk_public = (\<lambda>sk. sk),
     sk_sign = (\<lambda>sk b. replicate 64 (sample_sum (sk @ b)))\<rparr>"

lemma hex_val_nth: "n < 16 \<Longrightarrow> hex_val (hex_chars ! n) = Some n"
proof -
  have "list_all (\<lambda>n. hex_val (hex_chars ! n) = Some n) [0..<16]" by code_simp
  moreover assume "n < 16"
  ultimately show ?thesis by (simp add: list_all_iff)
qed

lemma sample_unhex_hex: "sample_unhex (sample_hex b) = Some b"
proof (induction b)
  case Nil
  show ?case by (simp add: sample_hex_def)
next
  case (Cons x b)
  have "unat x < 256" using unsigned_less [of x, where 'a = nat] by simp
  then have "unat x div 16 < 16" by auto
  then show ?case
    using Cons by (simp add: sample_hex_def hex_val_nth)
qed

lemma sample_hex_chars: "set (sample_hex b) \<subseteq> set ''0123456789abcdef''"
proof (induction b)
  case Nil
  show ?case by (simp add: sample_hex_def)
next
  case (Cons x b)
  have nth: "hex_chars ! n \<in> set ''0123456789abcdef''" if "n < 16" for n
    unfolding hex_chars_def using that by (intro nth_mem) simp
  have "unat x < 256" using unsigned_less [of x, where 'a = nat] by simp
  then have "unat x div 16 < 16" by auto
  with Cons nth [of "unat x div 16"] nth [of "unat x mod 16"] show ?case
    by (simp add: sample_hex_def)
qed

lemma sample_release_laws: "length sk = 32 \<Longrightarrow> release_laws sample_env sample_signer sk"
  unfolding release_laws_def
  using sample_hex_chars
  by (simp add: sample_env_def sample_signer_def sample_unhex_hex)

section \<open>A device\<close>

definition ex_key :: bytes where
  "ex_key = replicate 32 5"

definition ex_dir :: path where
  "ex_dir = [''var'', ''ota'']"

definition ex_disk :: ota_sys where
  "ex_disk = \<lparr>files = (\<lambda>_. None), faults = [], mgr = fresh_mgr ex_dir ex_key\<rparr>"

definition ex_dev :: ota_sys where
  "ex_dev = (snd (OtaManager_open sample_env ex_dir ex_key ex_disk))\<lparr>mgr := fresh_mgr ex_dir ex_key\<rparr>"

lemma fresh_mgr_dir [simp]: "dir (fresh_mgr d key) = d"
  by (simp add: fresh_mgr_def)

lemma ex_boot:
  "OtaManager_open sample_env ex_dir ex_key ex_disk
     = (Inr (fresh_mgr ex_dir ex_key), snd (OtaManager_open sample_env ex_dir ex_key ex_disk))"
  "faults (snd (OtaManager_open sample_env ex_dir ex_key ex_disk)) = []"
  "files (snd (OtaManager_open sample_env ex_dir ex_key ex_disk)) (artifact ex_dir sl) = None"
  "journaled sample_env ex_dir (files (snd (OtaManager_open sample_env ex_dir ex_key ex_disk)))
     = Some (to_journal (fresh_mgr ex_dir ex_key))"
proof -
  obtain b where b: "encode (journal sample_env) (to_journal (fresh_mgr ex_dir ex_key)) = Some b"
    using sample_env_total by (auto simp: journal_total_def)
  have o: "OtaManager_open sample_env ex_dir ex_key ex_disk =
      act_try (ota_persist sample_env (fresh_mgr ex_dir ex_key)) (\<lambda>_. act_ok (fresh_mgr ex_dir ex_key)) ex_disk"
    by (simp add: OtaManager_open_def fresh_mgr_def [symmetric] act_defs fs_defs Let_def ex_disk_def)
  obtain t where t: "ota_persist sample_env (fresh_mgr ex_dir ex_key) ex_disk = (Inr (), t)" "faults t = []"
    using b write_sync_rename_reliable [of ex_disk "journal_path ex_dir" b]
    by (cases "write_sync_rename (journal_path ex_dir) b ex_disk")
      (auto simp: ota_persist_def act_map_err_def fresh_mgr_def ex_disk_def)
  from ota_persist_effect [OF sample_env_ok t(1)] t(2)
  show "OtaManager_open sample_env ex_dir ex_key ex_disk
     = (Inr (fresh_mgr ex_dir ex_key), snd (OtaManager_open sample_env ex_dir ex_key ex_disk))"
  "faults (snd (OtaManager_open sample_env ex_dir ex_key ex_disk)) = []"
  "files (snd (OtaManager_open sample_env ex_dir ex_key ex_disk)) (artifact ex_dir sl) = None"
  "journaled sample_env ex_dir (files (snd (OtaManager_open sample_env ex_dir ex_key ex_disk)))
     = Some (to_journal (fresh_mgr ex_dir ex_key))"
    unfolding o by (simp_all add: t(1) act_try_def act_ok_def) (simp_all add: ex_disk_def)
qed

lemma ex_dev_settled: "settled sample_env (fresh_mgr ex_dir ex_key) (\<lambda>_. None) ex_dev"
  using ex_boot by (simp add: settled_def ex_dev_def)

lemma ex_dev_reach: "ota_reach sample_env ex_dir ex_key ex_dev"
  unfolding ex_dev_def by (rule ota_reach.boot [OF _ ex_boot(1)]) (simp add: ex_disk_def)

lemma ota_reach_run:
  "ota_reach env d key s \<Longrightarrow> ota_reach env d key (ota_run env xs s)"
  by (induction env xs s rule: ota_run.induct) (simp_all add: ota_reach.op)

text \<open>A manifest as release infrastructure makes it.\<close>

definition ex_release :: "string \<Rightarrow> bytes \<Rightarrow> OtaManifest" where
  "ex_release v b = (let (h, g) = sign_artifact sample_env sample_signer b ex_key
     in \<lparr>m_version = v, artifact_sha256_hex = h, signature_hex = g, size_bytes = of_nat (length b)\<rparr>)"

end
