(* ===== verification/Witnesses.thy ===== *)
theory Witnesses
  imports Backoff Sample_Env
begin

text \<open>
  Concrete instances of the properties with hypotheses: each applies its property at an
  input where every hypothesis holds, with the definitions evaluated there.
\<close>

section \<open>Backoff\<close>

definition ex_backoff :: Backoff where
  "ex_backoff = Backoff_new (from_millis 100) (from_secs 30)"

lemma delay_for_attempt_spec_witness:
  "delay_spec (millis (from_millis 100)) (millis (from_secs 30)) (unat (3 :: u32)) = 800
   \<and> millis (delay_for_attempt (from_millis 100) (from_secs 30) 3) = 800"
  using delay_for_attempt_spec [of "from_millis 100" "from_secs 30" 3]
  by (simp add: millis_from_millis millis_from_secs delay_spec_def)

lemma next_delay_bounds_witness:
  "50 \<le> millis (fst (next_delay (\<lambda>hi. hi div 2) ex_backoff))
   \<and> millis (fst (next_delay (\<lambda>hi. hi div 2) ex_backoff)) \<le> 100"
proof -
  have half: "hi div 2 \<le> hi" for hi :: u128
    by (simp add: word_le_nat_alt unat_div_word)
  have vals: "millis (base ex_backoff) = 100" "millis (cap ex_backoff) = 30000"
    "attempt ex_backoff = 0"
    by (simp_all add: ex_backoff_def Backoff_new_def millis_from_millis millis_from_secs)
  show ?thesis
    using next_delay_bounds [of "\<lambda>hi. hi div 2" ex_backoff
        "fst (next_delay (\<lambda>hi. hi div 2) ex_backoff)" "snd (next_delay (\<lambda>hi. hi div 2) ex_backoff)",
        OF half] vals
    by (simp add: delay_spec_def)
qed

section \<open>State store\<close>

definition ex_path :: path where
  "ex_path = [''var'', ''state.json'']"

definition ex_policy :: Policy where
  "ex_policy = default_policy\<lparr>version := 42\<rparr>"

definition ex_store :: store_sys where
  "ex_store = \<lparr>files = (\<lambda>_. None), faults = [], store = fresh_store ex_path\<rparr>"

definition ex_desired :: "u64 \<Rightarrow> u64 \<Rightarrow> DesiredState" where
  "ex_desired q v = \<lparr>seq = q, policy = default_policy\<lparr>version := v\<rparr>, d_software_version = []\<rparr>"

lemma ex_path_tmp: "tmp_of ex_path \<noteq> ex_path"
  by (simp add: ex_path_def with_extension_def file_stem_def)

lemma store_crash_consistent_witness:
  "\<exists>st \<in> set (mem_states sample_json
       [(Mark ex_policy 1, [IoErr (Some 3)]), (Restart, []), (Mark ex_policy 2, [])] ex_store).
     fst (StateStore_open sample_json ex_path ((run_ops sample_json
       [(Mark ex_policy 1, [IoErr (Some 3)]), (Restart, []), (Mark ex_policy 2, [])] ex_store)
         \<lparr>faults := []\<rparr>)) = Inr st
     \<and> version (last_good_policy st) = policy_version (reported st)"
  by (rule store_crash_consistent [OF sample_json_ok ex_path_tmp, where F = "\<lambda>_. None"])
    (simp_all add: ex_store_def)

lemma mark_policy_applied_durable_witness:
  "fst (mark_policy_applied sample_json ex_policy 2 ex_store) = Inr True
   \<and> policy_version (reported (store (snd (mark_policy_applied sample_json ex_policy 2 ex_store)))) = 42"
proof -
  have p: "st_path (store ex_store) = ex_path" by (simp add: ex_store_def fresh_store_def)
  have ok: "fst (mark_policy_applied sample_json ex_policy 2 ex_store) = Inr True"
    by code_simp
  show ?thesis
    using mark_policy_applied_durable [OF sample_json_ok, of ex_store ex_policy 2] ok
    by (cases "mark_policy_applied sample_json ex_policy 2 ex_store")
      (simp add: p ex_path_tmp ex_policy_def)
qed


section \<open>Updates\<close>

lemma compare_versions_numeric_witness:
  "compare_versions ''1.9.0'' ''1.10'' = cmp [1, 9, 0] [1, 10 :: u64]"
  using compare_versions_numeric [of "''1.9.0''" "''1.10''"]
  by (simp add: numeric_version_def version_key_def parse_u64_def digit_val_def Let_def)

text \<open>A device that took release 1.2.0, and the same device with its candidate on trial.\<close>

definition ex_updated :: ota_sys where
  "ex_updated = run_reliably sample_env (update_script (ex_release ''1.2.0'' [1, 2, 3]) [[1], [2, 3]] True []) ex_dev"

definition ex_on_trial :: ota_sys where
  "ex_on_trial = run_reliably sample_env (trial_script (ex_release ''1.2.0'' [1, 2, 3]) [[1], [2, 3]]) ex_dev"

lemma ex_release_signed:
  "(artifact_sha256_hex (ex_release v b), signature_hex (ex_release v b))
     = sign_artifact sample_env sample_signer b ex_key"
  "m_version (ex_release v b) = v" "size_bytes (ex_release v b) = of_nat (length b)"
  by (simp_all add: ex_release_def split: prod.splits)

lemma ex_key_laws:
  "release_laws sample_env sample_signer ex_key"
  "verifying_key (fresh_mgr ex_dir ex_key) = verifying_key_bytes sample_signer ex_key"
  by (rule sample_release_laws, simp add: ex_key_def)
    (simp add: verifying_key_bytes_def sample_signer_def fresh_mgr_def)

lemma update_completes_witness:
  "settled sample_env
     ((fresh_mgr ex_dir ex_key)\<lparr>last_error := None, active_slot := B,
        highest_committed_version := Some ''1.2.0'', candidate_slot := None,
        candidate_version := None, candidate_bytes := None, state := Committed\<rparr>)
     ((\<lambda>_. None)(B := Some [1, 2, 3])) ex_updated"
proof -
  have "settled sample_env
     (if True then (fresh_mgr ex_dir ex_key)\<lparr>last_error := None,
        active_slot := other (active_slot (fresh_mgr ex_dir ex_key)),
        highest_committed_version := Some (m_version (ex_release ''1.2.0'' [1, 2, 3])),
        candidate_slot := None, candidate_version := None, candidate_bytes := None, state := Committed\<rparr>
      else (fresh_mgr ex_dir ex_key)\<lparr>last_error := Some [], candidate_slot := None,
        candidate_version := None, candidate_bytes := None, state := RolledBack\<rparr>)
     ((\<lambda>_. None)(other (active_slot (fresh_mgr ex_dir ex_key)) := Some (concat [[1], [2, 3]])))
     (run_reliably sample_env (update_script (ex_release ''1.2.0'' [1, 2, 3]) [[1], [2, 3]] True []) ex_dev)"
    by (rule update_completes [OF sample_env_total ex_key_laws ex_dev_settled])
      (simp_all add: ex_release_signed fresh_mgr_def above_highest_def)
  then show ?thesis by (simp add: ex_updated_def ex_release_signed) (simp add: fresh_mgr_def)
qed

lemma ex_update_hyps:
  "quiescent (state (fresh_mgr ex_dir ex_key))"
  "above_highest (m_version (ex_release v b)) (highest_committed_version (fresh_mgr ex_dir ex_key))"
  "\<forall>c \<in> set [[1], [2, 3]]. of_nat (length c) \<le> size_bytes (ex_release v [1, 2, 3 :: u8]) + 1024 * 1024"
  by (simp_all add: fresh_mgr_def above_highest_def ex_release_signed)

lemma ex_on_trial_eval:
  "\<exists>x. settled sample_env (on_trial (fresh_mgr ex_dir ex_key) ''1.2.0'' x)
     ((\<lambda>_. None)(B := Some [1, 2, 3])) ex_on_trial"
  "state (mgr ex_on_trial) = HealthChecking" "candidate_slot (mgr ex_on_trial) = Some B"
  "dir (mgr ex_on_trial) = ex_dir" "candidate_version (mgr ex_on_trial) = Some ''1.2.0''"
  "highest_committed_version (mgr ex_on_trial) = None"
  "journaled sample_env ex_dir (files ex_on_trial) = Some (to_journal (mgr ex_on_trial))"
proof -
  have "\<exists>x. settled sample_env (on_trial (fresh_mgr ex_dir ex_key) (m_version (ex_release ''1.2.0'' [1, 2, 3])) x)
     ((\<lambda>_. None)(other (active_slot (fresh_mgr ex_dir ex_key)) := Some (concat [[1], [2, 3]]))) ex_on_trial"
    unfolding ex_on_trial_def
    by (rule update_reaches_trial [OF sample_env_total ex_key_laws ex_dev_settled ex_update_hyps(1,2) _
        ex_update_hyps(3)]) (simp add: ex_release_signed)
  then show "\<exists>x. settled sample_env (on_trial (fresh_mgr ex_dir ex_key) ''1.2.0'' x)
     ((\<lambda>_. None)(B := Some [1, 2, 3])) ex_on_trial"
    by (simp add: ex_release_signed) (simp add: fresh_mgr_def)
  then show "state (mgr ex_on_trial) = HealthChecking" "candidate_slot (mgr ex_on_trial) = Some B"
    "dir (mgr ex_on_trial) = ex_dir" "candidate_version (mgr ex_on_trial) = Some ''1.2.0''"
    "highest_committed_version (mgr ex_on_trial) = None"
    "journaled sample_env ex_dir (files ex_on_trial) = Some (to_journal (mgr ex_on_trial))"
    by (auto simp: settled_def fresh_mgr_def)
qed

lemma ex_updated_eval:
  "state (mgr ex_updated) = Committed" "active_slot (mgr ex_updated) = B"
  "highest_committed_version (mgr ex_updated) = Some ''1.2.0''"
  "\<exists>p. journaled sample_env ex_dir (files ex_updated) = Some p
     \<and> j_highest_committed_version p = Some ''1.2.0''"
proof -
  have "settled sample_env
     (if True then (fresh_mgr ex_dir ex_key)\<lparr>last_error := None,
        active_slot := other (active_slot (fresh_mgr ex_dir ex_key)),
        highest_committed_version := Some (m_version (ex_release ''1.2.0'' [1, 2, 3])),
        candidate_slot := None, candidate_version := None, candidate_bytes := None, state := Committed\<rparr>
      else (fresh_mgr ex_dir ex_key)\<lparr>last_error := Some [], candidate_slot := None,
        candidate_version := None, candidate_bytes := None, state := RolledBack\<rparr>)
     ((\<lambda>_. None)(other (active_slot (fresh_mgr ex_dir ex_key)) := Some (concat [[1], [2, 3]]))) ex_updated"
    unfolding ex_updated_def
    by (rule update_settled [OF sample_env_total ex_key_laws ex_dev_settled ex_update_hyps(1,2) _
        ex_update_hyps(3)]) (simp add: ex_release_signed)
  then show "state (mgr ex_updated) = Committed" "active_slot (mgr ex_updated) = B"
    "highest_committed_version (mgr ex_updated) = Some ''1.2.0''"
    "\<exists>p. journaled sample_env ex_dir (files ex_updated) = Some p
     \<and> j_highest_committed_version p = Some ''1.2.0''"
    by (simp_all add: settled_def fresh_mgr_def ex_release_signed to_journal_def)
qed

lemma ex_reach:
  "ota_reach sample_env ex_dir ex_key ex_on_trial" "ota_reach sample_env ex_dir ex_key ex_updated"
  unfolding ex_on_trial_def ex_updated_def run_reliably_def by (intro ota_reach_run ex_dev_reach)+

lemma ota_slots_signed_witness:
  "past_staging (state (mgr ex_on_trial)) \<and> signed_slot sample_env ex_key ex_dir (files ex_on_trial) B
   \<and> highest_committed_version (mgr ex_updated) \<noteq> None
   \<and> signed_slot sample_env ex_key ex_dir (files ex_updated) B"
  using ota_slots_signed [OF sample_env_ok ex_reach(1)] ota_slots_signed [OF sample_env_ok ex_reach(2)]
    ex_on_trial_eval ex_updated_eval by (metis option.distinct(1) option.inject past_staging.simps(4))

text \<open>A manifest whose hash is right and whose signature is no hexadecimal string.\<close>

definition ex_bad :: OtaManifest where
  "ex_bad = (ex_release ''1.2.0'' [])\<lparr>signature_hex := ''zz''\<rparr>"

definition ex_downloading :: ota_sys where
  "ex_downloading = ota_run sample_env [(StartDownload ex_bad, [])] ex_dev"

definition ex_stuck :: ota_sys where
  "ex_stuck = ota_run sample_env [(StartDownload ex_bad, []), (Verify ex_bad, [])] ex_dev"

abbreviation ex_downloading_mgr :: OtaManager where
  "ex_downloading_mgr \<equiv> (fresh_mgr ex_dir ex_key)\<lparr>candidate_slot := Some B,
     candidate_version := Some ''1.2.0'', candidate_bytes := None, last_error := None, state := Downloading\<rparr>"

lemma ex_bad_sig:
  "payload m = [] \<Longrightarrow> hash_ok sample_env ex_bad m" "parse_signature sample_env ex_bad m = None"
proof -
  have "trim ''zz'' = ''zz''" by (rule trim_no_ws) auto
  then show "parse_signature sample_env ex_bad m = None"
    by (simp add: parse_signature_def ex_bad_def sample_env_def hex_val_def Let_def)
  show "payload m = [] \<Longrightarrow> hash_ok sample_env ex_bad m"
    by (simp add: hash_ok_def ex_bad_def ex_release_def sign_artifact_def lower_hex(1) [OF sample_hex_chars]
        sample_env_def split: prod.splits)
qed

lemma ex_downloading_settled: "settled sample_env ex_downloading_mgr (\<lambda>_. None) ex_downloading"
proof -
  have "above_highest (m_version ex_bad) (highest_committed_version (fresh_mgr ex_dir ex_key))"
    by (simp add: fresh_mgr_def above_highest_def)
  then obtain t where "start_download sample_env ex_bad ex_dev = (Inr True, t)"
      "settled sample_env ((fresh_mgr ex_dir ex_key)\<lparr>candidate_slot := Some (other (active_slot (fresh_mgr ex_dir ex_key))),
      candidate_version := Some (m_version ex_bad), candidate_bytes := None, last_error := None,
      state := Downloading\<rparr>) (\<lambda>_. None) t"
    by (rule start_download_settled [OF sample_env_total ex_dev_settled ex_update_hyps(1)])
  then show ?thesis
    by (simp add: ex_downloading_def settled_no_faults [OF ex_dev_settled] ex_bad_def ex_release_signed)
      (simp add: fresh_mgr_def)
qed

lemma ex_stuck_state: "state (mgr ex_stuck) = Verifying"
proof -
  have "state ex_downloading_mgr = Downloading" by simp
  then obtain t where t: "verify sample_env ex_bad ex_downloading = check_artifact sample_env ex_bad t"
      "settled sample_env (ex_downloading_mgr\<lparr>state := Verifying\<rparr>) (\<lambda>_. None) t"
    by (rule verify_runs [OF sample_env_total ex_downloading_settled])
  have "payload (ex_downloading_mgr\<lparr>state := Verifying\<rparr>) = []" by (simp add: payload_def)
  then have "snd (check_artifact sample_env ex_bad t) = t"
    by (simp add: check_artifact_eval [OF t(2)] ex_bad_sig)
  moreover have "ex_stuck = snd (verify sample_env ex_bad ex_downloading)"
    using settled_no_faults [OF ex_downloading_settled]
    by (simp add: ex_stuck_def ex_downloading_def)
  ultimately show ?thesis using t by (simp add: settled_def)
qed

lemma verify_outcome_witness:
  "\<exists>e t. verify sample_env ex_bad ex_downloading = (Inl e, t) \<and> state (mgr t) = Verifying"
proof -
  have "state ex_downloading_mgr = Downloading" "candidate_slot ex_downloading_mgr = Some B"
    "payload ex_downloading_mgr = []" by (simp_all add: payload_def)
  with verify_outcome [OF sample_env_total ex_downloading_settled, of B ex_bad]
  show ?thesis by (auto simp: ex_bad_sig settled_def)
qed

lemma verifying_stuck_witness:
  "mgr (ota_run_op sample_env (StartDownload (ex_release ''1.3.0'' [9])) ex_stuck) = mgr ex_stuck"
proof (rule verifying_stuck [OF sample_env_ok])
  show "ota_reach sample_env ex_dir ex_key ex_stuck"
    unfolding ex_stuck_def by (intro ota_reach_run ex_dev_reach)
qed (simp_all add: ex_stuck_state)

lemma stat_fault_forgets_witness:
  "\<exists>t. OtaManager_open sample_env ex_dir ex_key (ex_updated\<lparr>faults := [IoOk, IoErr None]\<rparr>)
       = (Inr (fresh_mgr ex_dir ex_key), t)
     \<and> journaled sample_env ex_dir (files t) = Some (to_journal (fresh_mgr ex_dir ex_key))"
  using stat_fault_forgets [OF sample_env_total, of "ex_updated\<lparr>faults := [IoOk, IoErr None]\<rparr>" None
      ex_dir ex_key] by auto

lemma commit_atomic_witness:
  "journaled sample_env ex_dir (files (snd (health_check sample_env True [] ex_on_trial))) \<noteq> None"
  using commit_atomic [OF sample_env_ok ex_on_trial_eval(2) _ ex_on_trial_eval(3),
      of "[]" "fst (health_check sample_env True [] ex_on_trial)"
        "snd (health_check sample_env True [] ex_on_trial)"]
  by (simp add: ex_on_trial_eval)

lemma recovery_resumes_witness:
  "\<exists>p m. journaled sample_env ex_dir (files ex_on_trial) = Some p
     \<and> settled sample_env m (\<lambda>sl. files ex_on_trial (artifact ex_dir sl))
         (run_reliably sample_env [Reopen, Recover] ex_on_trial)
     \<and> m = (mgr_of_journal ex_dir ex_key p)\<lparr>state := resume (j_state p)\<rparr>"
  by (rule recovery_resumes [OF sample_env_total ex_reach(1)])

lemma rollback_protection_witness:
  "fst (start_download sample_env (ex_release ''1.1'' []) (ota_run sample_env [(Reopen, [IoErr None]), (Recover, [])] ex_updated))
     \<noteq> Inr True"
proof -
  obtain p where p: "journaled sample_env ex_dir (files ex_updated) = Some p"
    "j_highest_committed_version p = Some ''1.2.0''"
    using ex_updated_eval(4) by blast
  have num: "numeric_version ''1.2.0''" "numeric_version ''1.1''" "version_key ''1.1'' \<le> version_key ''1.2.0''"
    by (simp_all add: numeric_version_def version_key_def parse_u64_def digit_val_def Let_def)
  have up: "ex_updated = ota_run sample_env (map (\<lambda>x. (x, []))
      (update_script (ex_release ''1.2.0'' [1, 2, 3]) [[1], [2, 3]] True []))
      ((snd (OtaManager_open sample_env ex_dir ex_key ex_disk))\<lparr>mgr := fresh_mgr ex_dir ex_key\<rparr>)"
    by (simp add: ex_updated_def run_reliably_def ex_dev_def)
  show ?thesis
    by (rule rollback_protection [OF sample_env_ok _ ex_boot(1) up refl _ p, THEN conjunct2, THEN conjunct1])
      (simp_all add: ex_disk_def update_script_def trial_script_def ex_release_signed num)
qed

end
