(* ===== verification/Registry.thy ===== *)
theory Registry
  imports Edge_State Rust_Std "HOL-Library.Multiset"
begin

text \<open>
  \<open>crates/control-plane/src/registry.rs\<close>: the device registry, its desired state with a
  monotonic sequence number, and its snapshots on disk. A \<open>HashMap\<close> is an association list
  without duplicate keys; the order in which it is iterated is the parameter \<open>hash_order\<close>.
  The clock is an argument of the operations that read it. The protobuf \<open>Policy\<close> has the
  fields of the edge's own policy record, which stands for both.
\<close>

section \<open>Data\<close>

type_synonym i32 = "32 word"

record DeviceRecord =
  device_id :: string
  hardware_id :: string
  dv_software_version :: string
  reported_policy_version :: string
  reported_software_version :: string
  desired_policy_version :: u64
  desired_software_version :: string
  desired_seq :: u64
  health :: i32
  last_seen_secs :: u64
  uptime_secs :: u64
  cpu_usage :: f64
  memory_bytes :: u64
  active_connections :: u64

text \<open>The system clock in nanoseconds from the epoch; a clock before it reads as zero.\<close>

definition now_secs :: "int \<Rightarrow> u64" where
  "now_secs clock = (if clock < 0 then 0 else word_of_int (clock div 1000000000))"

definition last_seen_age_secs :: "u64 \<Rightarrow> DeviceRecord \<Rightarrow> u64" where
  "last_seen_age_secs now d = saturating_sub now (last_seen_secs d)"

record Inner =
  devices :: "(string \<times> DeviceRecord) list"
  in_policy :: "Policy option"
  policy_seq :: u64
  desired_software :: string
  persist_path :: "path option"

definition default_inner :: Inner where
  "default_inner = \<lparr>devices = [], in_policy = None, policy_seq = 0, desired_software = [],
     persist_path = None\<rparr>"

definition Registry_new :: Inner where
  "Registry_new = default_inner"

record PolicySnapshot =
  ps_version :: u64
  ps_max_connections :: u32
  ps_idle_timeout_secs :: u64
  ps_default_upstream :: string
  ps_rules_json :: string

record RegistrySnapshot =
  rs_devices :: "DeviceRecord list"
  rs_policy :: "PolicySnapshot option"
  rs_policy_seq :: u64
  rs_desired_software :: string

definition policy_to_snapshot :: "Policy \<Rightarrow> PolicySnapshot" where
  "policy_to_snapshot p = \<lparr>ps_version = version p, ps_max_connections = max_connections p,
     ps_idle_timeout_secs = idle_timeout_secs p, ps_default_upstream = default_upstream p,
     ps_rules_json = rules_json p\<rparr>"

definition policy_from_snapshot :: "PolicySnapshot \<Rightarrow> Policy" where
  "policy_from_snapshot s = \<lparr>version = ps_version s, max_connections = ps_max_connections s,
     idle_timeout_secs = ps_idle_timeout_secs s, default_upstream = ps_default_upstream s,
     rules_json = ps_rules_json s\<rparr>"

record HeartbeatUpdate =
  hu_device_id :: string
  hu_reported_policy :: string
  hu_reported_software :: string
  hu_health :: i32
  hu_cpu :: f64
  hu_mem :: u64
  hu_active :: u64
  hu_uptime :: u64

record reg_env =
  snap_json :: "RegistrySnapshot json"
  hash_order :: "DeviceRecord list \<Rightarrow> DeviceRecord list"

record reg_sys = fs +
  inner :: Inner

section \<open>Snapshots\<close>

definition snapshot_locked :: "reg_env \<Rightarrow> Inner \<Rightarrow> RegistrySnapshot" where
  "snapshot_locked env i = \<lparr>rs_devices = hash_order env (map snd (devices i)),
     rs_policy = map_option policy_to_snapshot (in_policy i),
     rs_policy_seq = policy_seq i, rs_desired_software = desired_software i\<rparr>"

text \<open>A failed snapshot is logged and dropped.\<close>

definition write_snapshot :: "reg_env \<Rightarrow> path \<Rightarrow> RegistrySnapshot \<Rightarrow> 'z fs_scheme \<Rightarrow> 'z fs_scheme" where
  "write_snapshot env p snap s =
     snd (act_try (act_of_option InvalidData (encode (snap_json env) snap)) (write_rename p) s)"

definition maybe_persist :: "reg_env \<Rightarrow> 'z reg_sys_scheme \<Rightarrow> 'z reg_sys_scheme" where
  "maybe_persist env s =
     (case persist_path (inner s) of
        None \<Rightarrow> s
      | Some p \<Rightarrow> write_snapshot env p (snapshot_locked env (inner s)) s)"

definition collect_devices :: "DeviceRecord list \<Rightarrow> (string \<times> DeviceRecord) list" where
  "collect_devices ds = fold (\<lambda>d m. AList.update (device_id d) d m) ds []"

definition Registry_load :: "reg_env \<Rightarrow> path \<Rightarrow> ('z fs_scheme, io_error, Inner) act" where
  "Registry_load env p =
     act_try (fs_exists p) (\<lambda>ex.
     if \<not> ex then act_ok (default_inner\<lparr>persist_path := Some p\<rparr>)
     else
       act_try (fs_read p) (\<lambda>b.
       act_try (act_of_option InvalidData (decode (snap_json env) b)) (\<lambda>snap.
       act_ok \<lparr>devices = map (\<lambda>(k, d). (k, d\<lparr>last_seen_secs := 0\<rparr>)) (collect_devices (rs_devices snap)),
         in_policy = map_option policy_from_snapshot (rs_policy snap),
         policy_seq = rs_policy_seq snap, desired_software = rs_desired_software snap,
         persist_path = Some p\<rparr>)))"

definition set_persist_path :: "path \<Rightarrow> 'z reg_sys_scheme \<Rightarrow> 'z reg_sys_scheme" where
  "set_persist_path p s = s\<lparr>inner := (inner s)\<lparr>persist_path := Some p\<rparr>\<rparr>"

section \<open>Operations\<close>

abbreviation desired_version :: "Inner \<Rightarrow> u64" where
  "desired_version i \<equiv> (case in_policy i of None \<Rightarrow> 0 | Some p \<Rightarrow> version p)"

definition register ::
  "reg_env \<Rightarrow> u64 \<Rightarrow> string \<Rightarrow> string \<Rightarrow> string \<Rightarrow> string \<Rightarrow> string \<Rightarrow> 'z reg_sys_scheme
     \<Rightarrow> DeviceRecord \<times> 'z reg_sys_scheme" where
  "register env now did hw sw rp rsw s =
     (let i = inner s;
          rec = \<lparr>device_id = did, hardware_id = hw, dv_software_version = sw,
            reported_policy_version = rp, reported_software_version = rsw,
            desired_policy_version = desired_version i,
            desired_software_version = desired_software i, desired_seq = policy_seq i,
            health = 1, last_seen_secs = now, uptime_secs = 0, cpu_usage = f64_zero,
            memory_bytes = 0, active_connections = 0\<rparr>
      in (rec, maybe_persist env (s\<lparr>inner := i\<lparr>devices := AList.update did rec (devices i)\<rparr>\<rparr>)))"

definition heartbeat_update ::
  "u64 \<Rightarrow> HeartbeatUpdate \<Rightarrow> 'z reg_sys_scheme
     \<Rightarrow> (u64 \<times> Policy option \<times> string \<times> u64) option \<times> 'z reg_sys_scheme" where
  "heartbeat_update now u s =
     (let i = inner s
      in case map_of (devices i) (hu_device_id u) of
           None \<Rightarrow> (None, s)
         | Some rec \<Rightarrow>
             (Some (desired_version i, in_policy i, desired_software i, policy_seq i),
              s\<lparr>inner := i\<lparr>devices := AList.update (hu_device_id u) (rec\<lparr>
                 reported_policy_version := hu_reported_policy u,
                 reported_software_version := hu_reported_software u,
                 health := hu_health u, cpu_usage := hu_cpu u, memory_bytes := hu_mem u,
                 active_connections := hu_active u, uptime_secs := hu_uptime u,
                 last_seen_secs := now, desired_policy_version := desired_version i,
                 desired_software_version := desired_software i, desired_seq := policy_seq i\<rparr>)
                 (devices i)\<rparr>\<rparr>))"

definition set_policy :: "reg_env \<Rightarrow> Policy \<Rightarrow> 'z reg_sys_scheme \<Rightarrow> u64 \<times> 'z reg_sys_scheme" where
  "set_policy env p s =
     (let i = inner s
      in if map_option version (in_policy i) = Some (version p) then (policy_seq i, s)
         else (policy_seq i + 1,
           maybe_persist env (s\<lparr>inner := i\<lparr>policy_seq := policy_seq i + 1, in_policy := Some p\<rparr>\<rparr>)))"

definition set_desired_software :: "reg_env \<Rightarrow> string \<Rightarrow> 'z reg_sys_scheme \<Rightarrow> u64 \<times> 'z reg_sys_scheme" where
  "set_desired_software env v s =
     (let i = inner s
      in if desired_software i = v then (policy_seq i, s)
         else (policy_seq i + 1,
           maybe_persist env (s\<lparr>inner := i\<lparr>policy_seq := policy_seq i + 1, desired_software := v\<rparr>\<rparr>)))"

definition current_policy :: "'z reg_sys_scheme \<Rightarrow> Policy option \<times> u64" where
  "current_policy s = (in_policy (inner s), policy_seq (inner s))"

definition list_devices :: "reg_env \<Rightarrow> 'z reg_sys_scheme \<Rightarrow> DeviceRecord list" where
  "list_devices env s = hash_order env (map snd (devices (inner s)))"

definition get_device :: "string \<Rightarrow> 'z reg_sys_scheme \<Rightarrow> DeviceRecord option" where
  "get_device did s = map_of (devices (inner s)) did"

section \<open>Laws of the parameters\<close>

text \<open>
  The documented behaviour of \<open>serde_json\<close> on a snapshot: encoding does not fail; a snapshot
  with finite numbers decodes to itself, except that the last bit of a float may differ; a
  NaN or an infinity is written as \<open>null\<close>, which is refused where a number is expected.
\<close>

fun f64_finite :: "f64 \<Rightarrow> bool" where
  "f64_finite (F64 _ _) = True"
| "f64_finite _ = False"

definition finite_snapshot :: "RegistrySnapshot \<Rightarrow> bool" where
  "finite_snapshot x \<longleftrightarrow> list_all (\<lambda>d. f64_finite (cpu_usage d)) (rs_devices x)"

definition up_to_cpu :: "RegistrySnapshot \<Rightarrow> RegistrySnapshot" where
  "up_to_cpu x = x\<lparr>rs_devices := map (\<lambda>d. d\<lparr>cpu_usage := f64_zero\<rparr>) (rs_devices x)\<rparr>"

definition snap_json_ok :: "RegistrySnapshot json \<Rightarrow> bool" where
  "snap_json_ok js \<longleftrightarrow>
     (\<forall>x. encode js x \<noteq> None) \<and>
     (\<forall>x b. encode js x = Some b \<longrightarrow>
        (if finite_snapshot x
         then \<exists>y. decode js b = Some y \<and> finite_snapshot y \<and> up_to_cpu y = up_to_cpu x
         else decode js b = None))"

definition reg_env_ok :: "reg_env \<Rightarrow> bool" where
  "reg_env_ok env \<longleftrightarrow> snap_json_ok (snap_json env) \<and> (\<forall>xs. mset (hash_order env xs) = mset xs)"

section \<open>Runs\<close>

datatype reg_op = Register u64 string string string string string | Heartbeat u64 HeartbeatUpdate
  | SetPolicy Policy | SetDesiredSoftware string

fun reg_run_op :: "reg_env \<Rightarrow> reg_op \<Rightarrow> reg_sys \<Rightarrow> reg_sys" where
  "reg_run_op env (Register now did hw sw rp rsw) s = snd (register env now did hw sw rp rsw s)"
| "reg_run_op env (Heartbeat now u) s = snd (heartbeat_update now u s)"
| "reg_run_op env (SetPolicy p) s = snd (set_policy env p s)"
| "reg_run_op env (SetDesiredSoftware v) s = snd (set_desired_software env v s)"

definition reg_step :: "reg_env \<Rightarrow> reg_op \<times> io_outcome list \<Rightarrow> reg_sys \<Rightarrow> reg_sys" where
  "reg_step env x s = reg_run_op env (fst x) (s\<lparr>faults := snd x\<rparr>)"

text \<open>The states a run goes through.\<close>

fun reg_history :: "reg_env \<Rightarrow> (reg_op \<times> io_outcome list) list \<Rightarrow> reg_sys \<Rightarrow> reg_sys list" where
  "reg_history env [] s = [s]"
| "reg_history env (x # xs) s = s # reg_history env xs (reg_step env x s)"

definition desired_content :: "'z reg_sys_scheme \<Rightarrow> Policy option \<times> string" where
  "desired_content s = (in_policy (inner s), desired_software (inner s))"

text \<open>No key twice, and every record under its own identifier.\<close>

definition inner_inv :: "Inner \<Rightarrow> bool" where
  "inner_inv i \<longleftrightarrow> distinct (map fst (devices i)) \<and>
     (\<forall>k d. map_of (devices i) k = Some d \<longrightarrow> device_id d = k)"

text \<open>What a restart must keep: the desired state and who is enrolled.\<close>

definition identity :: "DeviceRecord \<Rightarrow> string \<times> string \<times> string" where
  "identity d = (device_id d, hardware_id d, dv_software_version d)"

definition roster :: "Inner \<Rightarrow> string \<Rightarrow> (string \<times> string \<times> string) option" where
  "roster i k = map_option identity (map_of (devices i) k)"

definition same_fleet :: "Inner \<Rightarrow> Inner \<Rightarrow> bool" where
  "same_fleet i j \<longleftrightarrow> in_policy i = in_policy j \<and> policy_seq i = policy_seq j \<and>
     desired_software i = desired_software j \<and> roster i = roster j"

section \<open>The sequence number\<close>

text \<open>
  The contract of a versioned source of desired state: an operation either changes nothing of
  it or takes the next sequence number.
\<close>

locale versioned_source =
  fixes step :: "'op \<Rightarrow> 's \<Rightarrow> 's" and seq_of :: "'s \<Rightarrow> u64" and content :: "'s \<Rightarrow> 'c"
  assumes step_cases: "content (step x s) = content s \<and> seq_of (step x s) = seq_of s
     \<or> seq_of (step x s) = seq_of s + 1"
begin

lemma seq_step:
  "unat (seq_of s) + 1 < 2 ^ 64 \<Longrightarrow>
     seq_of (step x s) = seq_of s \<and> content (step x s) = content s
     \<or> unat (seq_of (step x s)) = unat (seq_of s) + 1"
  using step_cases [of x s] by (auto simp: unat_word_ariths)

lemma seq_run:
  assumes "unat (seq_of s) + length xs < 2 ^ 64"
  shows "unat (seq_of s) \<le> unat (seq_of (fold step xs s))
     \<and> unat (seq_of (fold step xs s)) \<le> unat (seq_of s) + length xs
     \<and> (seq_of (fold step xs s) = seq_of s \<longrightarrow> content (fold step xs s) = content s)"
  using assms
proof (induction xs arbitrary: s)
  case (Cons x xs)
  let ?t = "step x s"
  have t: "seq_of ?t = seq_of s \<and> content ?t = content s
     \<or> unat (seq_of ?t) = unat (seq_of s) + 1"
    using seq_step [of s x] Cons.prems by simp
  then have "unat (seq_of ?t) + length xs < 2 ^ 64" using Cons.prems by auto
  from Cons.IH [OF this] t show ?case by auto
qed simp

end

lemma write_snapshot_effect: "\<exists>F G. write_snapshot env p snap s = s\<lparr>files := F, faults := G\<rparr>"
proof (cases "encode (snap_json env) snap")
  case None
  then show ?thesis
    by (intro exI [of _ "files s"] exI [of _ "faults s"]) (simp add: write_snapshot_def act_err_def act_try_def)
next
  case (Some b)
  then show ?thesis using wr.save_only_disk by (simp add: write_snapshot_def)
qed

lemma maybe_persist_inner [simp]: "inner (maybe_persist env s) = inner s"
proof (cases "persist_path (inner s)")
  case (Some p)
  obtain F G where "write_snapshot env p (snapshot_locked env (inner s)) s = s\<lparr>files := F, faults := G\<rparr>"
    using write_snapshot_effect by blast
  with Some show ?thesis by (simp add: maybe_persist_def)
qed (simp add: maybe_persist_def)

interpretation vs: versioned_source "reg_step env" "\<lambda>s. policy_seq (inner s)" desired_content
proof
  fix x s
  show "desired_content (reg_step env x s) = desired_content s
      \<and> policy_seq (inner (reg_step env x s)) = policy_seq (inner s)
    \<or> policy_seq (inner (reg_step env x s)) = policy_seq (inner s) + 1"
    by (cases "fst x") (auto simp: reg_step_def register_def heartbeat_update_def set_policy_def
        set_desired_software_def desired_content_def Let_def split: option.splits)
qed

section \<open>Devices\<close>

text \<open>
  The age of a device is the time since it was seen, and zero when the clock has been set back in
  between.
\<close>

lemma age_by_clock:
  assumes "last_seen_secs d = now_secs s" and "0 \<le> s" and "s div 1000000000 < 2 ^ 64" "t div 1000000000 < 2 ^ 64"
  shows "last_seen_age_secs (now_secs t) d = (if t div 1000000000 \<le> s div 1000000000 then 0 else now_secs t - now_secs s)"
proof -
  have u: "uint (now_secs x) = x div 1000000000" if "0 \<le> x" "x div 1000000000 < 2 ^ 64" for x
    using that by (simp add: now_secs_def uint_word_of_int_eq take_bit_int_eq_self_iff pos_imp_zdiv_nonneg_iff)
  show ?thesis
  proof (cases "t < 0")
    case True
    then have "t div 1000000000 < 0" by (simp add: neg_imp_zdiv_neg_iff)
    moreover have "0 \<le> s div 1000000000" using assms(2) by (simp add: pos_imp_zdiv_nonneg_iff)
    ultimately show ?thesis
      using assms(1) True by (auto simp: last_seen_age_secs_def saturating_sub_def now_secs_def)
  next
    case False
    then show ?thesis
      using assms u [of s] u [of t] by (auto simp: last_seen_age_secs_def saturating_sub_def word_le_def intro: word_uint_eqI)
  qed
qed

lemma inner_inv_update:
  "inner_inv i \<Longrightarrow> device_id d = k \<Longrightarrow> inner_inv (i\<lparr>devices := AList.update k d (devices i)\<rparr>)"
  by (auto simp: inner_inv_def distinct_update map_of_update)

lemma inner_inv_step: "inner_inv (inner s) \<Longrightarrow> inner_inv (inner (reg_step env x s))"
proof (cases "fst x")
  case (Heartbeat now u)
  assume i: "inner_inv (inner s)"
  show ?thesis
  proof (cases "map_of (devices (inner s)) (hu_device_id u)")
    case None
    with i Heartbeat show ?thesis by (simp add: reg_step_def heartbeat_update_def Let_def)
  next
    case (Some r)
    then have "device_id r = hu_device_id u" using i by (simp add: inner_inv_def)
    with i Heartbeat Some show ?thesis
      by (simp add: reg_step_def heartbeat_update_def Let_def inner_inv_update)
  qed
qed (auto simp: reg_step_def register_def set_policy_def set_desired_software_def Let_def
    inner_inv_update, auto simp: inner_inv_def)

lemma inner_inv_ids:
  assumes "inner_inv i"
  shows "map device_id (map snd (devices i)) = map fst (devices i)"
proof -
  have "device_id (snd x) = fst x" if "x \<in> set (devices i)" for x
  proof -
    have "map_of (devices i) (fst x) = Some (snd x)"
      using that assms by (simp add: inner_inv_def)
    then show ?thesis using assms by (auto simp: inner_inv_def)
  qed
  then show ?thesis by simp
qed

lemma set_update_subset: "set (AList.update k v xs) \<subseteq> insert (k, v) (set xs)"
  by (induction xs) auto

lemma collect_devices_inv:
  "distinct (map fst (collect_devices ds))
   \<and> (\<forall>x \<in> set (collect_devices ds). device_id (snd x) = fst x \<and> snd x \<in> set ds)"
proof (induction ds rule: rev_induct)
  case (snoc d ds)
  have "collect_devices (ds @ [d]) = AList.update (device_id d) d (collect_devices ds)"
    by (simp add: collect_devices_def)
  with snoc set_update_subset [of "device_id d" d "collect_devices ds"] show ?case
    by (auto simp: distinct_update)
qed (simp add: collect_devices_def)

lemma map_of_collect: "map_of (collect_devices ds) = map_of (rev (map (\<lambda>d. (device_id d, d)) ds))"
proof (induction ds rule: rev_induct)
  case Nil
  show ?case by (simp add: collect_devices_def)
next
  case (snoc d ds)
  have "collect_devices (ds @ [d]) = AList.update (device_id d) d (collect_devices ds)"
    by (simp add: collect_devices_def)
  with snoc show ?case by (simp add: map_of_update)
qed

lemma map_of_collect_map:
  assumes "distinct (map device_id ds)"
  shows "map_option f (map_of (collect_devices ds) k) = map_of (map (\<lambda>d. (device_id d, f d)) ds) k"
proof -
  have "map_of (collect_devices ds) = map_of (map (\<lambda>d. (device_id d, d)) ds)"
    unfolding map_of_collect using assms by (intro map_of_rev_distinct) (simp add: o_def)
  moreover have "map_of (map (\<lambda>d. (device_id d, f d)) ds) k
      = map_option f (map_of (map (\<lambda>d. (device_id d, d)) ds) k)"
    by (induction ds) auto
  ultimately show ?thesis by simp
qed

lemma roster_permuted:
  assumes inv: "inner_inv i" and m: "mset ds = mset (map snd (devices i))"
  shows "distinct (map device_id ds)"
    and "map_of (map (\<lambda>d. (device_id d, identity d)) ds) = roster i"
proof -
  have "mset (map device_id ds) = mset (map fst (devices i))"
    using m inner_inv_ids [OF inv] by (metis mset_map)
  then show d: "distinct (map device_id ds)"
    using inv by (metis inner_inv_def mset_eq_imp_distinct_iff)
  let ?f = "\<lambda>d. (device_id d, identity d)"
  have "set (map ?f ds) = set (map ?f (map snd (devices i)))"
    using mset_eq_setD [OF m] by (simp only: set_map)
  moreover have ids: "map ?f (map snd (devices i)) = map (\<lambda>(k, d). (k, identity d)) (devices i)"
    using inner_inv_ids [OF inv] by (simp add: case_prod_beta)
  moreover have "distinct (map fst (map (\<lambda>(k, d). (k, identity d)) (devices i)))"
    using inv by (simp add: inner_inv_def case_prod_beta o_def)
  ultimately have "map_of (map ?f ds) = map_of (map (\<lambda>(k, d). (k, identity d)) (devices i))"
    using d by (subst map_of_inject_set) (simp_all add: o_def)
  then show "map_of (map ?f ds) = roster i"
    by (simp add: map_of_map roster_def fun_eq_iff)
qed

section \<open>Restart\<close>

text \<open>The file holds a snapshot of \<open>i\<close>, or none was written and \<open>i\<close> is empty.\<close>

definition stored :: "reg_env \<Rightarrow> path \<Rightarrow> (path \<Rightarrow> bytes option) \<Rightarrow> Inner \<Rightarrow> bool" where
  "stored env p F i \<longleftrightarrow>
     (F p = None \<and> same_fleet (default_inner\<lparr>persist_path := Some p\<rparr>) i) \<or>
     (\<exists>b j. F p = Some b \<and> encode (snap_json env) (snapshot_locked env j) = Some b \<and>
        inner_inv j \<and> finite_snapshot (snapshot_locked env j) \<and> same_fleet j i)"

definition finite_cpu :: "Inner \<Rightarrow> bool" where
  "finite_cpu i \<longleftrightarrow> (\<forall>d \<in> snd ` set (devices i). f64_finite (cpu_usage d))"

lemma finite_snapshot_locked:
  "reg_env_ok env \<Longrightarrow> finite_snapshot (snapshot_locked env i) \<longleftrightarrow> finite_cpu i"
proof -
  assume "reg_env_ok env"
  then have "set (hash_order env (map snd (devices i))) = set (map snd (devices i))"
    by (intro mset_eq_setD) (simp add: reg_env_ok_def)
  then show ?thesis by (simp add: finite_snapshot_def snapshot_locked_def list_all_iff finite_cpu_def)
qed

lemma policy_snapshot_inverse [simp]: "policy_from_snapshot (policy_to_snapshot p) = p"
  by (simp add: policy_from_snapshot_def policy_to_snapshot_def)

lemma same_fleet_refl [simp]: "same_fleet i i"
  by (simp add: same_fleet_def)

lemma same_fleet_trans: "same_fleet i j \<Longrightarrow> same_fleet j k \<Longrightarrow> same_fleet i k"
  by (simp add: same_fleet_def)

text \<open>The identities of the devices survive the trip through the file.\<close>

lemma up_to_cpu_identities:
  assumes "up_to_cpu y = up_to_cpu x"
  shows "map (\<lambda>d. (device_id d, identity d)) (rs_devices y) = map (\<lambda>d. (device_id d, identity d)) (rs_devices x)"
    and "rs_policy y = rs_policy x" "rs_policy_seq y = rs_policy_seq x"
    "rs_desired_software y = rs_desired_software x"
proof -
  let ?z = "\<lambda>d. d\<lparr>cpu_usage := f64_zero\<rparr>" and ?f = "\<lambda>d. (device_id d, identity d)"
  have f: "?f = ?f \<circ> ?z" by (simp add: fun_eq_iff identity_def)
  have "map ?z (rs_devices y) = map ?z (rs_devices x)"
    using arg_cong [OF assms, of rs_devices] by (simp add: up_to_cpu_def)
  then have "map ?f (map ?z (rs_devices y)) = map ?f (map ?z (rs_devices x))" by simp
  then show "map ?f (rs_devices y) = map ?f (rs_devices x)"
    by (simp only: map_map f [symmetric])
  show "rs_policy y = rs_policy x" "rs_policy_seq y = rs_policy_seq x"
    "rs_desired_software y = rs_desired_software x"
    using arg_cong [OF assms, of rs_policy] arg_cong [OF assms, of rs_policy_seq]
      arg_cong [OF assms, of rs_desired_software] by (simp_all add: up_to_cpu_def)
qed

lemma load_snapshot:
  assumes env: "reg_env_ok env" and inv: "inner_inv i" and fin: "finite_snapshot (snapshot_locked env i)"
    and b: "encode (snap_json env) (snapshot_locked env i) = Some b"
    and F: "files s p = Some b" and "faults s = []"
  shows "\<exists>j. Registry_load env p s = (Inr j, s) \<and> same_fleet j i \<and> persist_path j = Some p
     \<and> inner_inv j \<and> finite_cpu j \<and> (\<forall>d \<in> snd ` set (devices j). last_seen_secs d = 0)"
proof -
  let ?x = "snapshot_locked env i"
  obtain y where y: "decode (snap_json env) b = Some y" "up_to_cpu y = up_to_cpu ?x"
      and fin_y: "finite_snapshot y"
    using env b fin unfolding reg_env_ok_def snap_json_ok_def by meson
  let ?j = "\<lparr>devices = map (\<lambda>(k, d). (k, d\<lparr>last_seen_secs := 0\<rparr>)) (collect_devices (rs_devices y)),
     in_policy = map_option policy_from_snapshot (rs_policy y), policy_seq = rs_policy_seq y,
     desired_software = rs_desired_software y, persist_path = Some p\<rparr>"
  have "Registry_load env p s = (Inr ?j, s)"
    using F assms(6) y(1) by (simp add: Registry_load_def act_defs fs_defs)
  moreover have "mset (rs_devices ?x) = mset (map snd (devices i))"
    using env by (simp add: snapshot_locked_def reg_env_ok_def)
  note per = roster_permuted [OF inv this]
  have ids: "map device_id (rs_devices y) = map device_id (rs_devices ?x)"
    using arg_cong [OF up_to_cpu_identities(1) [OF y(2)], of "map fst"] by (simp add: o_def)
  have "roster ?j = map_of (map (\<lambda>d. (device_id d, identity d)) (rs_devices y))"
  proof
    fix k
    have "roster ?j k = map_option (\<lambda>d. identity (d\<lparr>last_seen_secs := 0\<rparr>))
        (map_of (collect_devices (rs_devices y)) k)"
      by (simp add: roster_def map_of_map option.map_comp o_def)
    also have "\<dots> = map_option identity (map_of (collect_devices (rs_devices y)) k)"
      by (simp add: identity_def [abs_def])
    finally show "roster ?j k = map_of (map (\<lambda>d. (device_id d, identity d)) (rs_devices y)) k"
      using map_of_collect_map [of "rs_devices y" identity k] per(1) ids by simp
  qed
  then have "same_fleet ?j i"
    using up_to_cpu_identities [OF y(2)] per(2)
    by (simp add: same_fleet_def snapshot_locked_def option.map_comp o_def option.map_ident)
  moreover have "\<forall>d \<in> snd ` set (devices ?j). last_seen_secs d = 0" by auto
  moreover have "inner_inv ?j \<and> finite_cpu ?j"
  proof
    let ?c = "collect_devices (rs_devices y)"
    have dist: "map fst (devices ?j) = map fst ?c" by (simp add: case_prod_beta o_def)
    have "device_id d = k" if "map_of (devices ?j) k = Some d" for k d
      using map_of_SomeD [OF that] collect_devices_inv [of "rs_devices y"] by auto
    then show "inner_inv ?j" using dist collect_devices_inv [of "rs_devices y"] by (simp only: inner_inv_def) blast
    show "finite_cpu ?j"
      using fin_y collect_devices_inv [of "rs_devices y"]
      by (fastforce simp: finite_cpu_def finite_snapshot_def list_all_iff)
  qed
  ultimately show ?thesis by (intro exI [of _ ?j]) simp
qed

section \<open>Runs with faults\<close>

definition finite_op :: "reg_op \<times> io_outcome list \<Rightarrow> bool" where
  "finite_op x \<longleftrightarrow> (case fst x of Heartbeat now u \<Rightarrow> f64_finite (hu_cpu u) | _ \<Rightarrow> True)"

definition reg_inv :: "path \<Rightarrow> reg_sys \<Rightarrow> bool" where
  "reg_inv p s \<longleftrightarrow> persist_path (inner s) = Some p \<and> inner_inv (inner s) \<and> finite_cpu (inner s)"

lemma finite_cpu_update:
  "finite_cpu i \<Longrightarrow> f64_finite (cpu_usage d) \<Longrightarrow> finite_cpu (i\<lparr>devices := AList.update k d (devices i)\<rparr>)"
  using set_update_subset [of k d "devices i"] by (auto simp: finite_cpu_def)

lemma finite_cpu_frame [simp]:
  "finite_cpu (i\<lparr>policy_seq := q, in_policy := pl\<rparr>) = finite_cpu i"
  "finite_cpu (i\<lparr>policy_seq := q, desired_software := w\<rparr>) = finite_cpu i"
  by (simp_all add: finite_cpu_def)

lemma reg_inv_step: "reg_inv p s \<Longrightarrow> finite_op x \<Longrightarrow> reg_inv p (reg_step env x s)"
proof -
  assume i: "reg_inv p s" and x: "finite_op x"
  have "inner_inv (inner (reg_step env x s))"
    using i by (intro inner_inv_step) (simp add: reg_inv_def)
  moreover have "persist_path (inner (reg_step env x s)) = Some p \<and> finite_cpu (inner (reg_step env x s))"
    using i x by (cases "fst x") (auto simp: reg_inv_def reg_step_def register_def heartbeat_update_def
        set_policy_def set_desired_software_def Let_def finite_op_def finite_cpu_update split: option.splits)
  ultimately show ?thesis by (simp add: reg_inv_def)
qed

lemma stored_same_fleet: "stored env p F i \<Longrightarrow> same_fleet i j \<Longrightarrow> stored env p F j"
  unfolding stored_def using same_fleet_trans by blast

lemma maybe_persist_stored:
  assumes env: "reg_env_ok env" and tmp: "tmp_of p \<noteq> p" and i: "reg_inv p s"
  shows "stored env p (files (maybe_persist env s)) (inner s) \<or> files (maybe_persist env s) p = files s p"
    and "faults s = [] \<Longrightarrow> stored env p (files (maybe_persist env s)) (inner s)"
proof -
  let ?x = "snapshot_locked env (inner s)"
  have "encode (snap_json env) ?x \<noteq> None"
    using env by (simp only: reg_env_ok_def snap_json_ok_def) simp
  then obtain b where b: "encode (snap_json env) ?x = Some b" by blast
  have m: "maybe_persist env s = snd (write_rename p b s)"
    using i b by (simp add: maybe_persist_def write_snapshot_def reg_inv_def)
  have st: "stored env p F (inner s)" if "F p = Some b" for F
    using that b i env by (auto simp: stored_def reg_inv_def finite_snapshot_locked)
  show "stored env p (files (maybe_persist env s)) (inner s) \<or> files (maybe_persist env s) p = files s p"
    using wr.old_or_new [OF tmp, of b s] st m by auto
  show "stored env p (files (maybe_persist env s)) (inner s)" if "faults s = []"
    using wr.save_reliable [OF that, of p b] wr.save_ok [of p b s] st m
    by (cases "write_rename p b s") auto
qed

lemma reg_inv_inner:
  "reg_inv p (s\<lparr>inner := i\<rparr>) \<longleftrightarrow> persist_path i = Some p \<and> inner_inv i \<and> finite_cpu i"
  "reg_inv p (s\<lparr>faults := G\<rparr>) = reg_inv p s"
  by (simp_all add: reg_inv_def)

text \<open>A step ends in a save of the new state, or leaves the file and the fleet alone.\<close>

lemma reg_step_shape:
  obtains (saved) t where "reg_step env x s = maybe_persist env t" "faults t = snd x" "files t = files s"
  | (quiet) "files (reg_step env x s) = files s" "same_fleet (inner s) (inner (reg_step env x s))"
proof (cases "fst x")
  case (Register now did hw sw rp rsw)
  show thesis by (rule saved, simp add: reg_step_def Register register_def Let_def, simp_all)
next
  case (Heartbeat now u)
  have "roster (inner (reg_step env x s)) = roster (inner s)"
  proof
    fix k
    show "roster (inner (reg_step env x s)) k = roster (inner s) k"
      using Heartbeat by (auto simp: reg_step_def heartbeat_update_def Let_def roster_def map_of_update
          identity_def split: option.splits)
  qed
  then show thesis
    using Heartbeat by (intro quiet) (auto simp: reg_step_def heartbeat_update_def Let_def
        same_fleet_def split: option.splits)
next
  case (SetPolicy pl)
  show thesis
  proof (cases "map_option version (in_policy (inner s)) = Some (version pl)")
    case True
    with SetPolicy show thesis by (intro quiet) (simp_all add: reg_step_def set_policy_def)
  next
    case False
    with SetPolicy have "reg_step env x s = maybe_persist env (s\<lparr>faults := snd x,
        inner := (inner s)\<lparr>policy_seq := policy_seq (inner s) + 1, in_policy := Some pl\<rparr>\<rparr>)"
      by (auto simp: reg_step_def set_policy_def Let_def)
    then show thesis by (rule saved) simp_all
  qed
next
  case (SetDesiredSoftware v)
  show thesis
  proof (cases "desired_software (inner s) = v")
    case True
    with SetDesiredSoftware show thesis by (intro quiet) (simp_all add: reg_step_def set_desired_software_def)
  next
    case False
    show thesis
      by (rule saved, simp add: reg_step_def SetDesiredSoftware set_desired_software_def Let_def False, simp_all)
  qed
qed

lemma reg_step_stored:
  assumes env: "reg_env_ok env" and tmp: "tmp_of p \<noteq> p" and i: "reg_inv p s" and x: "finite_op x"
  shows "stored env p (files (reg_step env x s)) (inner (reg_step env x s))
     \<or> files (reg_step env x s) p = files s p"
    and "snd x = [] \<Longrightarrow> stored env p (files s) (inner s)
     \<Longrightarrow> stored env p (files (reg_step env x s)) (inner (reg_step env x s))"
proof -
  let ?t = "reg_step env x s"
  have "(stored env p (files ?t) (inner ?t) \<or> files ?t p = files s p) \<and>
      (snd x = [] \<longrightarrow> stored env p (files s) (inner s) \<longrightarrow> stored env p (files ?t) (inner ?t))"
  proof (cases rule: reg_step_shape [where env = env and x = x and s = s])
    case (saved t)
    have "reg_inv p ?t" using i x by (rule reg_inv_step)
    then have "reg_inv p t" using saved by (simp add: reg_inv_def)
    from maybe_persist_stored [OF env tmp this] saved show ?thesis by auto
  next
    case quiet
    then show ?thesis using stored_same_fleet by auto
  qed
  then show "stored env p (files ?t) (inner ?t) \<or> files ?t p = files s p"
    and "snd x = [] \<Longrightarrow> stored env p (files s) (inner s) \<Longrightarrow> stored env p (files ?t) (inner ?t)"
    by blast+
qed

lemma reg_run_stored:
  assumes env: "reg_env_ok env" and tmp: "tmp_of p \<noteq> p"
    and "list_all finite_op xs" and "reg_inv p s" and "t \<in> H" and "stored env p (files s) (inner t)"
  shows "reg_inv p (fold (reg_step env) xs s) \<and>
     (\<exists>t \<in> H \<union> set (reg_history env xs s). stored env p (files (fold (reg_step env) xs s)) (inner t))"
  using assms(3-)
proof (induction xs arbitrary: s t H)
  case (Cons x xs)
  let ?s = "reg_step env x s"
  have x: "finite_op x" "list_all finite_op xs" using Cons.prems(1) by simp_all
  have i: "reg_inv p ?s" using reg_inv_step [OF Cons.prems(2) x(1)] .
  have "\<exists>u \<in> insert ?s H. stored env p (files ?s) (inner u)"
    using reg_step_stored(1) [OF env tmp Cons.prems(2) x(1)] Cons.prems(3,4)
    by (auto simp: stored_def)
  then obtain u where u: "u \<in> insert ?s H" "stored env p (files ?s) (inner u)" by blast
  have "?s \<in> set (reg_history env xs ?s)" by (cases xs) auto
  with Cons.IH [OF x(2) i u] show ?case by auto
qed auto

lemma reg_run_reliable:
  assumes env: "reg_env_ok env" and tmp: "tmp_of p \<noteq> p"
    and "list_all (\<lambda>x. finite_op x \<and> snd x = []) xs" and "reg_inv p s" and "stored env p (files s) (inner s)"
  shows "stored env p (files (fold (reg_step env) xs s)) (inner (fold (reg_step env) xs s))"
  using assms(3-)
proof (induction xs arbitrary: s)
  case (Cons x xs)
  then show ?case
    using reg_inv_step reg_step_stored(2) [OF env tmp] by simp
qed simp

text \<open>Loading a stored file on a working disk.\<close>

lemma load_stored:
  assumes env: "reg_env_ok env" and "stored env p (files s) i" and "faults s = []"
  shows "\<exists>j. Registry_load env p s = (Inr j, s) \<and> same_fleet j i \<and> persist_path j = Some p
     \<and> inner_inv j \<and> finite_cpu j \<and> (\<forall>d \<in> snd ` set (devices j). last_seen_secs d = 0)"
proof (cases "files s p")
  case None
  then have "same_fleet (default_inner\<lparr>persist_path := Some p\<rparr>) i"
    using assms(2) by (simp add: stored_def)
  moreover have "Registry_load env p s = (Inr (default_inner\<lparr>persist_path := Some p\<rparr>), s)"
    using None assms(3) by (simp add: Registry_load_def act_defs fs_defs)
  ultimately show ?thesis by (auto simp: default_inner_def inner_inv_def finite_cpu_def)
next
  case (Some b)
  then obtain k where k: "encode (snap_json env) (snapshot_locked env k) = Some b"
      "inner_inv k" "finite_snapshot (snapshot_locked env k)" "same_fleet k i"
    using assms(2) by (auto simp: stored_def)
  from load_snapshot [OF env k(2,3,1) Some assms(3)] k(4) show ?thesis
    using same_fleet_trans by blast
qed

text \<open>A registry started on an empty disk.\<close>

definition reg_boot :: "path \<Rightarrow> (path \<Rightarrow> bytes option) \<Rightarrow> reg_sys" where
  "reg_boot p F = \<lparr>files = F, faults = [], inner = default_inner\<lparr>persist_path := Some p\<rparr>\<rparr>"

lemma reg_boot_inv:
  "reg_inv p (reg_boot p F)" "F p = None \<Longrightarrow> stored env p (files (reg_boot p F)) (inner (reg_boot p F))"
  by (simp_all add: reg_inv_def inner_inv_def finite_cpu_def default_inner_def reg_boot_def stored_def)

section \<open>Properties\<close>

text \<open>
  C11. A control-plane restart keeps the fleet. Start a registry on an empty disk that does not
  fail and run any registrations, heartbeats and desired-state pushes (with finite CPU
  readings): loading the snapshot then succeeds and gives the same desired policy, software,
  sequence number and enrolled devices, with every device shown as not seen since.
\<close>

theorem registry_restart_keeps_fleet:
  assumes "reg_env_ok env" and "tmp_of p \<noteq> p" and "F p = None"
    and "list_all (\<lambda>x. finite_op x \<and> snd x = []) xs"
    and "s = fold (reg_step env) xs (reg_boot p F)"
  shows "\<exists>j. fst (Registry_load env p (s\<lparr>faults := []\<rparr>)) = Inr j \<and> same_fleet j (inner s)
     \<and> (\<forall>d \<in> snd ` set (devices j). last_seen_secs d = 0)"
proof -
  have "stored env p (files s) (inner s)"
    unfolding assms(5) using reg_run_reliable [OF assms(1,2,4) reg_boot_inv(1)] reg_boot_inv(2) assms(3)
    by blast
  with load_stored [OF assms(1), of p "s\<lparr>faults := []\<rparr>" "inner s"] show ?thesis by auto
qed

text \<open>
  C15. Crash consistency of the registry: started on an empty disk, with I/O faults and torn writes in
  any operation, and as long as heartbeats carry finite CPU readings, the snapshot file can be
  loaded at any time and gives a fleet the registry had at some point of the run, never a
  mixture. (Without that condition see \<open>nan_heartbeat_blocks_restart\<close>.)
\<close>

theorem registry_crash_consistent:
  assumes "reg_env_ok env" and "tmp_of p \<noteq> p" and "F p = None" and "list_all finite_op xs"
  shows "\<exists>j. \<exists>t \<in> set (reg_history env xs (reg_boot p F)).
     fst (Registry_load env p ((fold (reg_step env) xs (reg_boot p F))\<lparr>faults := []\<rparr>)) = Inr j
     \<and> same_fleet j (inner t)"
proof -
  let ?s = "fold (reg_step env) xs (reg_boot p F)"
  have "reg_boot p F \<in> set (reg_history env xs (reg_boot p F))" by (cases xs) auto
  then obtain t where t: "t \<in> set (reg_history env xs (reg_boot p F))" "stored env p (files ?s) (inner t)"
    using reg_run_stored [OF assms(1,2,4) reg_boot_inv(1), of "reg_boot p F" "{reg_boot p F}"]
      reg_boot_inv(2) [of F p env] assms(3) by auto
  with load_stored [OF assms(1), of p "?s\<lparr>faults := []\<rparr>" "inner t"] show ?thesis by auto
qed

text \<open>
  The sequence number tells desired states apart: over any run, whatever fails, it never
  goes down, and if the desired policy or software is different at the end then it is
  strictly higher (as long as the 64-bit counter does not run out).
\<close>

theorem registry_seq_monotone:
  assumes "unat (policy_seq (inner s)) + length xs < 2 ^ 64"
  shows "policy_seq (inner s) \<le> policy_seq (inner (fold (reg_step env) xs s))
     \<and> (desired_content (fold (reg_step env) xs s) \<noteq> desired_content s
        \<longrightarrow> policy_seq (inner s) < policy_seq (inner (fold (reg_step env) xs s)))"
  using vs.seq_run [OF assms, of env] by (auto simp: word_le_nat_alt order.strict_iff_order)

text \<open>
  A heartbeat of a known device answers with the current desired state and records the
  report: the device's record carries the reported fields, the desired state it was told
  and a zero age, every other device is untouched, and nothing is written to disk. A
  heartbeat of an unknown device is refused without any effect.
\<close>

theorem heartbeat_outcome:
  "case get_device (hu_device_id u) s of
     None \<Rightarrow> heartbeat_update now u s = (None, s)
   | Some d \<Rightarrow> (\<exists>t d'. heartbeat_update now u s =
         (Some (desired_version (inner s), in_policy (inner s), desired_software (inner s),
            policy_seq (inner s)), t)
       \<and> files t = files s \<and> desired_content t = desired_content s
       \<and> (\<forall>k. get_device k t = (if k = hu_device_id u then Some d' else get_device k s))
       \<and> identity d' = identity d \<and> reported_policy_version d' = hu_reported_policy u
       \<and> desired_policy_version d' = desired_version (inner s) \<and> desired_seq d' = policy_seq (inner s)
       \<and> health d' = hu_health u \<and> last_seen_age_secs now d' = 0)"
  by (auto simp: heartbeat_update_def get_device_def Let_def map_of_update identity_def
      desired_content_def last_seen_age_secs_def saturating_sub_def split: option.splits)

text \<open>
  One NaN blocks the next restart: if a registered device ever reports a CPU reading that
  is not finite and the registry then saves a snapshot (here for a policy push), the
  snapshot on disk cannot be loaded any more and the control plane does not start.
\<close>

theorem nan_heartbeat_blocks_restart:
  assumes env: "reg_env_ok env" and "persist_path (inner s) = Some p"
    and "get_device (hu_device_id u) s \<noteq> None" and "\<not> f64_finite (hu_cpu u)"
    and "map_option version (in_policy (inner s)) \<noteq> Some (version pl)"
    and "t = reg_step env (SetPolicy pl, []) (reg_step env (Heartbeat now u, []) s)"
  shows "fst (Registry_load env p (t\<lparr>faults := []\<rparr>)) = Inl InvalidData"
proof -
  define h where "h = reg_step env (Heartbeat now u, []) s"
  define h' where "h' = h\<lparr>faults := [], inner := (inner h)\<lparr>policy_seq := policy_seq (inner h) + 1,
    in_policy := Some pl\<rparr>\<rparr>"
  obtain d where d: "map_of (devices (inner h)) (hu_device_id u) = Some d" "cpu_usage d = hu_cpu u"
    using assms(3) by (auto simp: h_def reg_step_def heartbeat_update_def Let_def get_device_def map_of_update)
  have same: "in_policy (inner h) = in_policy (inner s)" "persist_path (inner h) = Some p"
    using assms(2) by (auto simp: h_def reg_step_def heartbeat_update_def Let_def split: option.splits)
  have "t = reg_step env (SetPolicy pl, []) h" by (simp add: assms(6) h_def)
  then have t: "t = maybe_persist env h'"
    using assms(5) same by (auto simp: h'_def reg_step_def set_policy_def Let_def)
  let ?x = "snapshot_locked env (inner h')"
  have "d \<in> snd ` set (devices (inner h'))"
    using map_of_SomeD [OF d(1)] by (force simp: h'_def)
  then have "\<not> finite_snapshot ?x"
    using d(2) assms(4) unfolding finite_snapshot_locked [OF env] finite_cpu_def by metis
  moreover have "encode (snap_json env) ?x \<noteq> None"
    using env by (simp only: reg_env_ok_def snap_json_ok_def) simp
  then obtain b where b: "encode (snap_json env) ?x = Some b" by blast
  ultimately have "decode (snap_json env) b = None"
    using env unfolding reg_env_ok_def snap_json_ok_def by metis
  moreover have "files t p = Some b"
    using t b same(2) wr.save_reliable [of h' p b] wr.save_ok [of p b h']
    by (cases "write_rename p b h'") (auto simp: maybe_persist_def write_snapshot_def h'_def)
  ultimately show ?thesis by (simp add: Registry_load_def act_defs fs_defs)
qed

end
