(* ===== verification/Fleet_Service.thy ===== *)
theory Fleet_Service
  imports Registry Edge_Ota
begin

text \<open>
  The fleet protocol (\<open>crates/edge-protocol/proto/fleet.proto\<close>), its handlers in
  \<open>crates/control-plane/src/service.rs\<close> and the operator API of
  \<open>crates/control-plane/src/main.rs\<close>. An absent message field is \<open>None\<close>; the transport is
  not part of the handlers.
\<close>

section \<open>Messages\<close>

record DeviceIdentity =
  id_device_id :: string
  id_hardware_id :: string
  id_software_version :: string

definition default_identity :: DeviceIdentity where
  "default_identity = \<lparr>id_device_id = [], id_hardware_id = [], id_software_version = []\<rparr>"

record ResourceUsage =
  u_cpu_usage :: f64
  u_memory_bytes :: u64
  u_active_connections :: u64
  u_uptime_secs :: u64

record RegisterRequest =
  rq_identity :: "DeviceIdentity option"
  rq_reported_policy_version :: string
  rq_reported_software_version :: string

record RegisterResponse =
  accepted :: bool
  rr_desired_policy_version :: u64
  rr_policy :: "Policy option"
  rr_desired_software_version :: string
  rr_pending_ota :: "OtaManifest option"
  rr_has_pending_ota :: bool

record HeartbeatRequest =
  hb_device_id :: string
  hb_reported_policy_version :: string
  hb_reported_software_version :: string
  hb_health :: i32
  hb_usage :: "ResourceUsage option"
  hb_active_connections :: u64

record HeartbeatResponse =
  hr_desired_policy_version :: u64
  hr_policy :: "Policy option"
  hr_has_policy :: bool
  hr_desired_software_version :: string
  hr_pending_ota :: "OtaManifest option"
  hr_has_pending_ota :: bool
  hr_desired_seq :: u64

record EdgeReport =
  er_device_id :: string
  er_reported_policy_version :: string
  er_reported_software_version :: string
  er_health :: i32
  er_usage :: "ResourceUsage option"
  er_active_connections :: u64
  er_applied_seq :: u64

datatype Command = PolicyUpdate "Policy option" | OtaUpdate "OtaManifest option" | NoopCommand

record CloudCommand =
  cc_seq :: u64
  cc_command :: "Command option"

datatype Status = NotFoundStatus string | Unavailable

section \<open>Handlers\<close>

definition heartbeat_of_usage ::
  "string \<Rightarrow> string \<Rightarrow> string \<Rightarrow> i32 \<Rightarrow> ResourceUsage option \<Rightarrow> u64 \<Rightarrow> HeartbeatUpdate" where
  "heartbeat_of_usage did rp rsw h usage active =
     \<lparr>hu_device_id = did, hu_reported_policy = rp, hu_reported_software = rsw, hu_health = h,
      hu_cpu = (case usage of None \<Rightarrow> f64_zero | Some u \<Rightarrow> u_cpu_usage u),
      hu_mem = (case usage of None \<Rightarrow> 0 | Some u \<Rightarrow> u_memory_bytes u),
      hu_active = active,
      hu_uptime = (case usage of None \<Rightarrow> 0 | Some u \<Rightarrow> u_uptime_secs u)\<rparr>"

definition svc_register ::
  "reg_env \<Rightarrow> u64 \<Rightarrow> RegisterRequest \<Rightarrow> reg_sys \<Rightarrow> (Status + RegisterResponse) \<times> reg_sys" where
  "svc_register env now r s =
     (let i = (case rq_identity r of None \<Rightarrow> default_identity | Some i \<Rightarrow> i);
          (rec, t) = register env now (id_device_id i) (id_hardware_id i) (id_software_version i)
            (rq_reported_policy_version r) (rq_reported_software_version r) s;
          (pol, _) = current_policy t
      in (Inr \<lparr>accepted = True, rr_desired_policy_version = desired_policy_version rec,
            rr_policy = pol, rr_desired_software_version = desired_software_version rec,
            rr_pending_ota = None, rr_has_pending_ota = False\<rparr>, t))"

definition svc_heartbeat ::
  "u64 \<Rightarrow> HeartbeatRequest \<Rightarrow> reg_sys \<Rightarrow> (Status + HeartbeatResponse) \<times> reg_sys" where
  "svc_heartbeat now h s =
     (case heartbeat_update now (heartbeat_of_usage (hb_device_id h) (hb_reported_policy_version h)
             (hb_reported_software_version h) (hb_health h) (hb_usage h) (hb_active_connections h)) s of
        (Some (ver, pol, sw, sq), t) \<Rightarrow>
          (Inr \<lparr>hr_desired_policy_version = ver, hr_policy = pol, hr_has_policy = True,
             hr_desired_software_version = sw, hr_pending_ota = None, hr_has_pending_ota = False,
             hr_desired_seq = sq\<rparr>, t)
      | (None, t) \<Rightarrow> (Inl (NotFoundStatus ''unknown device; register first''), t))"

text \<open>The reply of the watch stream to one report.\<close>

definition watch_reply :: "u64 \<Rightarrow> EdgeReport \<Rightarrow> reg_sys \<Rightarrow> CloudCommand \<times> reg_sys" where
  "watch_reply now rep s =
     (let applied_hint = er_applied_seq rep;
          t = snd (heartbeat_update now (heartbeat_of_usage (er_device_id rep)
                (er_reported_policy_version rep) (er_reported_software_version rep)
                (er_health rep) (er_usage rep) (er_active_connections rep)) s);
          (pol, sq) = current_policy t;
          noop = \<lparr>cc_seq = applied_hint, cc_command = Some NoopCommand\<rparr>
      in (case pol of
            Some p \<Rightarrow>
              if applied_hint < sq
                 \<and> (case parse_u64 (er_reported_policy_version rep) of None \<Rightarrow> 0 | Some v \<Rightarrow> v) \<noteq> version p
              then \<lparr>cc_seq = sq, cc_command = Some (PolicyUpdate (Some p))\<rparr>
              else noop
          | None \<Rightarrow> noop, t))"

text \<open>
  The task behind a watch stream, on the reports that arrive before the inbound stream ends
  or fails, each with the time of its arrival. It stops when the receiver is gone, that is
  after the given number of commands.
\<close>

fun watch_task :: "(u64 \<times> EdgeReport) list \<Rightarrow> nat \<Rightarrow> reg_sys \<Rightarrow> CloudCommand list \<times> reg_sys" where
  "watch_task [] n s = ([], s)"
| "watch_task ((now, rep) # reps) n s =
     (let (cmd, t) = watch_reply now rep s
      in case n of
           0 \<Rightarrow> ([], t)
         | Suc m \<Rightarrow> (let (cmds, u) = watch_task reps m t in (cmd # cmds, u)))"

definition report_telemetry :: "'r \<Rightarrow> reg_sys \<Rightarrow> (Status + bool) \<times> reg_sys" where
  "report_telemetry req s = (Inr True, s)"

section \<open>Operator API\<close>

record PolicyBody =
  pb_version :: u64
  pb_max_connections :: "u32 option"
  pb_idle_timeout_secs :: "u64 option"
  pb_default_upstream :: "string option"

definition default_max_conn :: u32 where
  "default_max_conn = 512"

definition default_idle :: u64 where
  "default_idle = 300"

definition api_default_upstream :: string where
  "api_default_upstream = ''upstream:18081''"

definition push_policy :: "reg_env \<Rightarrow> PolicyBody \<Rightarrow> reg_sys \<Rightarrow> (u64 \<times> u64) \<times> reg_sys" where
  "push_policy env b s =
     (let (sq, t) = set_policy env \<lparr>version = pb_version b,
            max_connections = (case pb_max_connections b of None \<Rightarrow> default_max_conn | Some m \<Rightarrow> m),
            idle_timeout_secs = (case pb_idle_timeout_secs b of None \<Rightarrow> default_idle | Some t \<Rightarrow> t),
            default_upstream = (case pb_default_upstream b of None \<Rightarrow> api_default_upstream | Some u \<Rightarrow> u),
            rules_json = ''{}''\<rparr> s
      in ((sq, pb_version b), t))"

record DeviceView =
  dw_device_id :: string
  dw_reported_policy_version :: string
  dw_desired_policy_version :: u64
  dw_health :: i32
  dw_last_seen_age_secs :: u64
  dw_active_connections :: u64

definition device_view :: "u64 \<Rightarrow> DeviceRecord \<Rightarrow> DeviceView" where
  "device_view now d = \<lparr>dw_device_id = device_id d,
     dw_reported_policy_version = reported_policy_version d,
     dw_desired_policy_version = desired_policy_version d, dw_health = health d,
     dw_last_seen_age_secs = last_seen_age_secs now d,
     dw_active_connections = active_connections d\<rparr>"

definition api_list_devices :: "reg_env \<Rightarrow> u64 \<Rightarrow> reg_sys \<Rightarrow> DeviceView list" where
  "api_list_devices env now s = map (device_view now) (list_devices env s)"

text \<open>
  Start-up of the control plane: the registry comes from its snapshot, or is empty and kept in
  memory only when no path is given.
\<close>

definition control_boot :: "reg_env \<Rightarrow> path option \<Rightarrow> ('z fs_scheme, io_error, Inner) act" where
  "control_boot env pp = (case pp of Some p \<Rightarrow> Registry_load env p | None \<Rightarrow> act_ok default_inner)"

text \<open>
  How the server secures the gRPC port, from the three TLS settings: mutual TLS with the files
  they name, plaintext, or a refusal to start. Whether the TLS library accepts the key
  material is an argument.
\<close>

datatype server_link = ServerMtls bytes bytes bytes | ServerPlaintext

datatype serve_error = ServeIo io_error | TlsConfig | Bail string

definition server_tls ::
  "bool \<Rightarrow> path option \<Rightarrow> path option \<Rightarrow> path option \<Rightarrow> ('z fs_scheme, serve_error, server_link) act" where
  "server_tls tls_accepted cert_opt key_opt ca_opt =
     (case (cert_opt, key_opt, ca_opt) of
        (Some cert_path, Some key_path, Some ca_path) \<Rightarrow>
          act_try (act_map_err ServeIo (fs_read cert_path)) (\<lambda>cert.
          act_try (act_map_err ServeIo (fs_read key_path)) (\<lambda>key.
          act_try (act_map_err ServeIo (fs_read ca_path)) (\<lambda>ca.
          if tls_accepted then act_ok (ServerMtls cert key ca) else act_err TlsConfig)))
      | (Some _, Some _, None) \<Rightarrow>
          act_err (Bail ''CONTROL_TLS_CLIENT_CA is required with CONTROL_TLS_CERT/KEY: refusing one-way TLS without device authentication'')
      | (None, None, _) \<Rightarrow> act_ok ServerPlaintext
      | _ \<Rightarrow> act_err (Bail ''set both CONTROL_TLS_CERT and CONTROL_TLS_KEY, or neither''))"

section \<open>Properties\<close>

lemma map_err_read:
  "act_map_err g (fs_read p) s = (Inr c, t) \<Longrightarrow> files s p = Some c \<and> files t = files s"
  by (auto simp: act_map_err_def fs_read_def fs_next_def split: list.splits io_outcome.splits option.splits)

text \<open>A push of a version that is already desired changes nothing, whatever else its body says.\<close>

lemma push_policy_idempotent:
  assumes "push_policy env b s = (r, t)" and "pb_version b' = pb_version b"
  shows "push_policy env b' t = (r, t)"
  using assms by (auto simp: push_policy_def set_policy_def Let_def split: if_splits prod.splits)

text \<open>How the three settings decide the link.\<close>

lemma server_tls_outcome:
  "case server_tls ok cert key ca s of
     (Inr ServerPlaintext, _) \<Rightarrow> cert = None \<and> key = None
   | (Inr (ServerMtls c k a), _) \<Rightarrow>
       (\<exists>p q r. cert = Some p \<and> key = Some q \<and> ca = Some r
          \<and> files s p = Some c \<and> files s q = Some k \<and> files s r = Some a)
   | (Inl e, _) \<Rightarrow> cert \<noteq> None \<or> key \<noteq> None"
proof -
  obtain x t where c: "server_tls ok cert key ca s = (x, t)" by fastforce
  show ?thesis
  proof (cases x)
    case (Inl e)
    with c show ?thesis by (cases cert; cases key) (auto simp: server_tls_def act_ok_def)
  next
    case (Inr l)
    then have "l = ServerPlaintext \<and> cert = None \<and> key = None \<or>
      (\<exists>p q r c k a. cert = Some p \<and> key = Some q \<and> ca = Some r \<and> l = ServerMtls c k a
         \<and> files s p = Some c \<and> files s q = Some k \<and> files s r = Some a)"
      using c by (cases cert; cases key; cases ca)
        (auto simp: server_tls_def act_try_Inr_iff act_ok_def act_err_def dest!: map_err_read split: if_splits)
    with c Inr show ?thesis by auto
  qed
qed

end
