(* ===== verification/Edge_Agent.thy ===== *)
theory Edge_Agent
  imports Fleet_Service Backoff
begin

text \<open>
  The fleet agent of \<open>crates/edge-agent/src/agent.rs\<close>: the link decision, one
  register-and-heartbeat cycle against the control plane's handlers, the polling loop with
  backoff, the watch stream, and the start-up choice of \<open>crates/edge-agent/src/main.rs\<close>. The
  network is a schedule of outcomes: what is reachable, and for every call whether the
  request or the reply is lost.
\<close>

section \<open>Data\<close>

datatype AgentError = Transport | Rpc Status | StateErr string

record AgentConfig =
  ac_device_id :: string
  ac_hardware_id :: string
  ac_software_version :: string
  control_plane :: string
  state_path :: path
  heartbeat_interval :: duration
  tls_ca :: "path option"
  tls_cert :: "path option"
  tls_key :: "path option"
  tls_domain :: "string option"

definition default_config :: AgentConfig where
  "default_config = \<lparr>ac_device_id = ''edge-01'', ac_hardware_id = ''dev-hw'',
     ac_software_version = ''0.1.0'', control_plane = ''http://127.0.0.1:50051'',
     state_path = [''edge-state.json''], heartbeat_interval = from_secs 5,
     tls_ca = None, tls_cert = None, tls_key = None, tls_domain = None\<rparr>"

text \<open>The agent's state: its store on disk, its configuration and the metrics it sets.\<close>

record agent_sys = store_sys +
  config :: AgentConfig
  m_control_plane_connected :: int
  m_reconnect_total :: u64
  m_policy_version :: "64 word"

text \<open>
  The texts of errors that come from other crates (and carry no decision) are left out of
  \<open>StateErr\<close>.
\<close>

definition EdgeAgent_new ::
  "Persisted json \<Rightarrow> AgentConfig \<Rightarrow> ('z fs_scheme, AgentError, StateStore) act" where
  "EdgeAgent_new js cfg = act_map_err (\<lambda>_. StateErr []) (StateStore_open js (state_path cfg))"

definition has_synced_policy :: "StateStore \<Rightarrow> bool" where
  "has_synced_policy st \<longleftrightarrow> 0 < applied_seq (reported st) \<or> 0 < policy_version (reported st)"

section \<open>Link\<close>

text \<open>
  The endpoint a channel is asked of tonic for: the URI as configured and, with an identity, the
  TLS configuration. Whether tonic then encrypts (the scheme of the URI plays a part in it) is
  not decided in this code.
\<close>

record tls_client =
  tc_ca :: bytes
  tc_cert :: bytes
  tc_key :: bytes
  tc_domain :: string

record link =
  l_uri :: string
  l_tls :: "tls_client option"

text \<open>What the network does to a connection attempt and to the calls on it.\<close>

datatype call_outcome = Delivered | RequestLost | ReplyLost

record net =
  uri_valid :: bool
  tls_accepted :: bool
  reachable :: bool
  register_call :: call_outcome
  heartbeat_call :: call_outcome
  watch_call :: call_outcome

definition connect :: "net \<Rightarrow> AgentConfig \<Rightarrow> ('z fs_scheme, AgentError, link) act" where
  "connect n cfg =
     (case (tls_ca cfg, tls_cert cfg, tls_key cfg) of
        (Some ca, Some cert, Some key) \<Rightarrow>
          act_try (act_map_err (\<lambda>_. StateErr []) (fs_read ca)) (\<lambda>ca_pem.
          act_try (act_map_err (\<lambda>_. StateErr []) (fs_read cert)) (\<lambda>cert_pem.
          act_try (act_map_err (\<lambda>_. StateErr []) (fs_read key)) (\<lambda>key_pem.
          if \<not> uri_valid n then act_err (StateErr [])
          else if \<not> tls_accepted n \<or> \<not> reachable n then act_err Transport
          else act_ok \<lparr>l_uri = control_plane cfg, l_tls = Some \<lparr>tc_ca = ca_pem, tc_cert = cert_pem, tc_key = key_pem,
            tc_domain = (case tls_domain cfg of None \<Rightarrow> ''localhost'' | Some d \<Rightarrow> d)\<rparr>\<rparr>)))
      | (Some _, _, _) \<Rightarrow>
          act_err (StateErr ''EDGE_TLS_CA requires EDGE_TLS_CERT and EDGE_TLS_KEY (device identity)'')
      | (None, None, None) \<Rightarrow>
          if \<not> uri_valid n then act_err (StateErr [])
          else if \<not> reachable n then act_err Transport
          else act_ok \<lparr>l_uri = control_plane cfg, l_tls = None\<rparr>
      | _ \<Rightarrow> act_err (StateErr ''set EDGE_TLS_CA/CERT/KEY together, or none (plaintext demo)''))"

section \<open>One synchronization\<close>

text \<open>A call runs a handler on the control plane's side of the pair of states.\<close>

definition rpc ::
  "call_outcome \<Rightarrow> (reg_sys \<Rightarrow> (Status + 'a) \<times> reg_sys) \<Rightarrow> ('s \<times> reg_sys, AgentError, 'a) act" where
  "rpc o1 handler w =
     (case o1 of
        RequestLost \<Rightarrow> (Inl (Rpc Unavailable), w)
      | ReplyLost \<Rightarrow> (Inl (Rpc Unavailable), (fst w, snd (handler (snd w))))
      | Delivered \<Rightarrow> (case handler (snd w) of
            (Inl st, r) \<Rightarrow> (Inl (Rpc st), (fst w, r))
          | (Inr x, r) \<Rightarrow> (Inr x, (fst w, r))))"

definition on_agent :: "('s, 'e, 'a) act \<Rightarrow> ('s \<times> 'r, 'e, 'a) act" where
  "on_agent m w = (case m (fst w) of (x, a) \<Rightarrow> (x, (a, snd w)))"

text \<open>The policy as the agent stores it: an empty upstream keeps the last good one.\<close>

definition local_policy :: "Policy \<Rightarrow> Policy \<Rightarrow> Policy" where
  "local_policy last_good p =
     p\<lparr>default_upstream := (if default_upstream p = [] then default_upstream last_good
                            else default_upstream p)\<rparr>"

definition apply_desired ::
  "Persisted json \<Rightarrow> DesiredState \<Rightarrow> ('z agent_sys_scheme, AgentError, bool) act" where
  "apply_desired js d =
     act_try (act_map_err (\<lambda>_. StateErr []) (ingest js d)) (\<lambda>action.
     case action of
       ApplyPolicy pol \<Rightarrow>
         act_try (act_map_err (\<lambda>_. StateErr []) (mark_policy_applied js pol (seq d))) (\<lambda>_.
         act_try (act_update (\<lambda>s. s\<lparr>m_policy_version := version pol\<rparr>)) (\<lambda>_.
         act_ok True))
     | _ \<Rightarrow> act_ok False)"

definition handle_heartbeat ::
  "Persisted json \<Rightarrow> HeartbeatResponse \<Rightarrow> ('z agent_sys_scheme, AgentError, bool) act" where
  "handle_heartbeat js hb =
     act_try (act_update (\<lambda>s. s\<lparr>m_control_plane_connected := 1\<rparr>)) (\<lambda>_.
     act_with (\<lambda>s.
     if hr_has_policy hb then
       (case hr_policy hb of
          None \<Rightarrow> act_ok False
        | Some p \<Rightarrow> apply_desired js
            \<lparr>seq = max (hr_desired_seq hb) 1, policy = local_policy (last_good_policy (store s)) p,
             d_software_version = hr_desired_software_version hb\<rparr>)
     else act_ok False))"

definition register_request :: "'z agent_sys_scheme \<Rightarrow> RegisterRequest" where
  "register_request a = \<lparr>rq_identity = Some \<lparr>id_device_id = ac_device_id (config a),
        id_hardware_id = ac_hardware_id (config a), id_software_version = ac_software_version (config a)\<rparr>,
     rq_reported_policy_version = show_u64 (policy_version (reported (store a))),
     rq_reported_software_version = r_software_version (reported (store a))\<rparr>"

definition heartbeat_request :: "ResourceUsage \<Rightarrow> u64 \<Rightarrow> 'z agent_sys_scheme \<Rightarrow> HeartbeatRequest" where
  "heartbeat_request usage active a = \<lparr>hb_device_id = ac_device_id (config a),
     hb_reported_policy_version = show_u64 (policy_version (reported (store a))),
     hb_reported_software_version = r_software_version (reported (store a)),
     hb_health = 1, hb_usage = Some usage, hb_active_connections = active\<rparr>"

definition sync_once ::
  "Persisted json \<Rightarrow> reg_env \<Rightarrow> u64 \<Rightarrow> net \<Rightarrow> ResourceUsage \<Rightarrow> u64
     \<Rightarrow> ('z agent_sys_scheme \<times> reg_sys, AgentError, bool) act" where
  "sync_once js env now n usage active =
     act_try (act_with (\<lambda>w. on_agent (connect n (config (fst w))))) (\<lambda>_.
     act_try (act_with (\<lambda>w. rpc (register_call n) (svc_register env now (register_request (fst w))))) (\<lambda>_.
     act_try (act_with (\<lambda>w. rpc (heartbeat_call n)
       (svc_heartbeat now (heartbeat_request usage active (fst w))))) (\<lambda>hb.
     on_agent (handle_heartbeat js hb))))"

definition note_disconnected :: "'z agent_sys_scheme \<Rightarrow> 'z agent_sys_scheme" where
  "note_disconnected a = a\<lparr>m_control_plane_connected := 0, m_reconnect_total := m_reconnect_total a + 1\<rparr>"

section \<open>Loops\<close>

text \<open>
  One turn of the polling loop after its sleep: synchronize, then reset the backoff or note the
  outage and draw the next delay. The loop returns only on shutdown, so a run of the loop is
  a list of turns.
\<close>

record turn =
  t_now :: u64
  t_net :: net
  t_usage :: ResourceUsage
  t_rng :: "u128 \<Rightarrow> u128"
  t_faults :: "io_outcome list"

definition run_turn ::
  "Persisted json \<Rightarrow> reg_env \<Rightarrow> turn \<Rightarrow> (agent_sys \<times> reg_sys) \<times> Backoff
     \<Rightarrow> (agent_sys \<times> reg_sys) \<times> Backoff" where
  "run_turn js env t st =
     (let ((a, r), b) = st
      in case sync_once js env (t_now t) (t_net t) (t_usage t) 0 (a\<lparr>faults := t_faults t\<rparr>, r) of
           (Inr _, w) \<Rightarrow> (w, reset b)
         | (Inl _, (a', r')) \<Rightarrow> ((note_disconnected a', r'), snd (next_delay (t_rng t) b)))"

definition run_backoff :: Backoff where
  "run_backoff = Backoff_new (from_millis 200) (from_secs 30)"

text \<open>
  The loop itself: each turn says whether the shutdown arrives in the wait of the backoff after
  a failed synchronization; at the end of the list it arrives in the wait for the next
  heartbeat.
\<close>

definition sync_failed :: "Persisted json \<Rightarrow> reg_env \<Rightarrow> turn \<Rightarrow> (agent_sys \<times> reg_sys) \<times> Backoff \<Rightarrow> bool" where
  "sync_failed js env t st =
     (case sync_once js env (t_now t) (t_net t) (t_usage t) 0
        ((fst (fst st))\<lparr>faults := t_faults t\<rparr>, snd (fst st)) of (Inl _, _) \<Rightarrow> True | _ \<Rightarrow> False)"

fun agent_run ::
  "Persisted json \<Rightarrow> reg_env \<Rightarrow> (turn \<times> bool) list \<Rightarrow> (agent_sys \<times> reg_sys) \<times> Backoff
     \<Rightarrow> (agent_sys \<times> reg_sys) \<times> Backoff" where
  "agent_run js env [] st = st"
| "agent_run js env ((t, stop) # ts) st =
     (if sync_failed js env t st \<and> stop then run_turn js env t st
      else agent_run js env ts (run_turn js env t st))"

lemma agent_run_turns: "\<exists>n. agent_run js env ts st = fold (run_turn js env) (take n (map fst ts)) st"
proof (induction ts arbitrary: st)
  case (Cons x ts)
  obtain t stop where x: "x = (t, stop)" by fastforce
  obtain n where "agent_run js env ts (run_turn js env t st)
      = fold (run_turn js env) (take n (map fst ts)) (run_turn js env t st)" using Cons.IH by blast
  then show ?case
    by (intro exI [of _ "if sync_failed js env t st \<and> stop then 1 else Suc n"]) (simp add: x)
qed simp

text \<open>
  One command of the watch stream. Errors of the store are dropped here, and the policy is
  stored as sent.
\<close>

definition watch_apply :: "Persisted json \<Rightarrow> DesiredState \<Rightarrow> 'z agent_sys_scheme \<Rightarrow> 'z agent_sys_scheme" where
  "watch_apply js d a =
     (case ingest js d a of
        (Inr (ApplyPolicy pol), a') \<Rightarrow> snd (mark_policy_applied js pol (seq d) a')
      | (_, a') \<Rightarrow> a')"

definition handle_command :: "Persisted json \<Rightarrow> CloudCommand \<Rightarrow> 'z agent_sys_scheme \<Rightarrow> 'z agent_sys_scheme" where
  "handle_command js cmd a =
     (case cc_command cmd of
        Some (PolicyUpdate (Some p)) \<Rightarrow>
          watch_apply js \<lparr>seq = max (cc_seq cmd) 1, policy = p, d_software_version = []\<rparr> a
      | _ \<Rightarrow> a)"

definition edge_report :: "ResourceUsage \<Rightarrow> 'z agent_sys_scheme \<Rightarrow> EdgeReport" where
  "edge_report usage a = \<lparr>er_device_id = ac_device_id (config a),
     er_reported_policy_version = show_u64 (policy_version (reported (store a))),
     er_reported_software_version = r_software_version (reported (store a)),
     er_health = 1, er_usage = Some usage, er_active_connections = 0,
     er_applied_seq = applied_seq (reported (store a))\<rparr>"

text \<open>
  One turn of the watch loop: connect (which resets the backoff) or note the outage; send the
  one report of the outbound stream, handle the command it is answered with, and note the end
  of the stream.
\<close>

definition watch_turn ::
  "Persisted json \<Rightarrow> turn \<Rightarrow> (agent_sys \<times> reg_sys) \<times> Backoff \<Rightarrow> (agent_sys \<times> reg_sys) \<times> Backoff" where
  "watch_turn js t st =
     (let ((a0, r), b) = st;
          a = a0\<lparr>faults := t_faults t\<rparr>
      in case connect (t_net t) (config a) a of
           (Inl _, a1) \<Rightarrow> ((note_disconnected a1, r), snd (next_delay (t_rng t) b))
         | (Inr _, a1) \<Rightarrow>
             (let (cmd, r1) = watch_reply (t_now t) (edge_report (t_usage t) a1) r;
                  (a2, r2) = (case watch_call (t_net t) of
                       RequestLost \<Rightarrow> (a1, r)
                     | ReplyLost \<Rightarrow> (a1, r1)
                     | Delivered \<Rightarrow> (handle_command js cmd a1, r1))
              in ((note_disconnected a2, r2), snd (next_delay (t_rng t) (reset b)))))"

section \<open>Start-up\<close>

text \<open>
  The upstream a starting agent forwards to: the last good policy's once a policy has been
  applied and its upstream resolves, else the operator's. Resolution is a parameter.
\<close>

definition choose_upstream ::
  "(string \<Rightarrow> 'addr option) \<Rightarrow> string \<Rightarrow> StateStore \<Rightarrow> 'addr option" where
  "choose_upstream resolve static st =
     (case resolve static of
        None \<Rightarrow> None
      | Some s \<Rightarrow>
          Some (if has_synced_policy st \<and> default_upstream (last_good_policy st) \<noteq> []
                then (case resolve (default_upstream (last_good_policy st)) of Some a \<Rightarrow> a | None \<Rightarrow> s)
                else s))"

section \<open>The agent as a reconciler\<close>

abbreviation reported_of :: "'z store_sys_scheme \<Rightarrow> ReportedState" where
  "reported_of s \<equiv> reported (store s)"

lemma ingest_reported:
  assumes "ingest js d s = (r, t)"
  shows "reported_of t = reported_of s" and "r = Inr x \<Longrightarrow> x = diff (reported_of s) d"
  by (cases rule: ingest_cases [where js = js and d = d and s = s]; use assms in auto)+

lemma mark_reported:
  "reported_of (snd (mark_policy_applied js p q s)) = snd (apply_policy p q (reported_of s))"
  by (cases rule: mark_cases [where js = js and p = p and q = q and s = s]) auto

lemma watch_apply_reported:
  "reported_of (watch_apply js d a) = reported_of a \<or> reported_of (watch_apply js d a) = reconcile d (reported_of a)"
proof (cases "ingest js d a")
  case (Pair r t)
  show ?thesis
  proof (cases "\<exists>pol. r = Inr (ApplyPolicy pol)")
    case True
    then obtain pol where pol: "r = Inr (ApplyPolicy pol)" by blast
    then have "diff (reported_of a) d = ApplyPolicy pol" using ingest_reported(2) [OF Pair] by simp
    then show ?thesis
      using Pair pol ingest_reported(1) [OF Pair] by (simp add: watch_apply_def mark_reported reconcile_def)
  next
    case False
    then show ?thesis
      using Pair ingest_reported(1) [OF Pair]
      by (auto simp: watch_apply_def split: sum.splits ReconcileAction.splits)
  qed
qed

text \<open>Up to the metrics, \<open>apply_desired\<close> changes the state as \<open>watch_apply\<close> does.\<close>

lemma apply_desired_store: "store (snd (apply_desired js d a)) = store (watch_apply js d a)"
  by (auto simp: apply_desired_def watch_apply_def act_defs
      split: prod.splits sum.splits ReconcileAction.splits)

interpretation wa: reconciler "watch_apply js" reported_of
  by unfold_locales (rule watch_apply_reported)

interpretation ad: reconciler "\<lambda>d a. snd (apply_desired js d a)" reported_of
  by unfold_locales (simp add: apply_desired_store watch_apply_reported)

lemma watch_apply_reliable:
  assumes "disk_ok js a"
  shows "disk_ok js (watch_apply js d a) \<and> reported_of (watch_apply js d a) = reconcile d (reported_of a)"
proof -
  obtain t where t: "ingest js d a = (Inr (diff (reported_of a) d), t)" "disk_ok js t"
    using ingest_reliable [OF assms] by blast
  note same = ingest_reported(1) [OF t(1)]
  show ?thesis
  proof (cases "\<exists>pol. diff (reported_of a) d = ApplyPolicy pol")
    case True
    then obtain pol where pol: "diff (reported_of a) d = ApplyPolicy pol" by blast
    have "disk_ok js (snd (mark_policy_applied js pol (seq d) t))"
      using mark_reliable [OF t(2)] by (metis snd_conv)
    then show ?thesis
      using t(1) pol same by (simp add: watch_apply_def mark_reported reconcile_def)
  next
    case False
    then show ?thesis
      using t same by (auto simp: watch_apply_def reconcile_def split: ReconcileAction.splits)
  qed
qed

interpretation wr_ok: reliable_reconciler "watch_apply js" reported_of "disk_ok js"
  by unfold_locales (rule watch_apply_reliable)

lemma apply_desired_reliable:
  assumes "disk_ok js a"
  shows "\<exists>t. apply_desired js d a = (Inr (\<exists>pol. diff (reported_of a) d = ApplyPolicy pol), t)
     \<and> disk_ok js t \<and> reported_of t = reconcile d (reported_of a)"
proof -
  obtain t where t: "ingest js d a = (Inr (diff (reported_of a) d), t)" "disk_ok js t"
    using ingest_reliable [OF assms] by blast
  have rep: "reported_of (snd (apply_desired js d a)) = reconcile d (reported_of a)"
    using watch_apply_reliable [OF assms] by (simp add: apply_desired_store)
  show ?thesis
  proof (cases "\<exists>pol. diff (reported_of a) d = ApplyPolicy pol")
    case True
    then obtain pol where pol: "diff (reported_of a) d = ApplyPolicy pol" by blast
    obtain c u where "mark_policy_applied js pol (seq d) t = (Inr c, u)" "disk_ok js u"
      using mark_reliable [OF t(2)] by blast
    with t pol rep show ?thesis by (simp add: apply_desired_def act_defs disk_ok_def)
  next
    case False
    with t rep show ?thesis by (auto simp: apply_desired_def act_defs split: ReconcileAction.splits)
  qed
qed

section \<open>Synchronization, case by case\<close>

lemma fs_read_state: "\<exists>G. snd (fs_read p s) = s\<lparr>faults := G\<rparr>"
  by (cases s) (auto simp: fs_defs split: list.splits io_outcome.splits option.splits)

lemma connect_state: "\<exists>G. snd (connect n cfg s) = s\<lparr>faults := G\<rparr>"
proof -
  have refl: "\<exists>G. s = s\<lparr>faults := G\<rparr>" for s :: "'z fs_scheme" by (rule exI [of _ "faults s"]) simp
  have keep: "act_keeps (\<lambda>t. \<exists>G. t = s\<lparr>faults := G\<rparr>) (fs_read p)" for p
  proof (rule act_keepsI)
    fix u r t assume "\<exists>G. u = s\<lparr>faults := G\<rparr>" and "fs_read p u = (r, t)"
    then show "\<exists>G. t = s\<lparr>faults := G\<rparr>" using fs_read_state [of p u] by auto
  qed
  have "act_keeps (\<lambda>t. \<exists>G. t = s\<lparr>faults := G\<rparr>) (connect n cfg)"
    unfolding connect_def by (auto intro!: act_keeps_rules keep split: option.splits)
  from act_valid_state [OF this refl] show ?thesis .
qed

lemma requests_faults [simp]:
  "register_request (a\<lparr>faults := G\<rparr>) = register_request a"
  "heartbeat_request usage active (a\<lparr>faults := G\<rparr>) = heartbeat_request usage active a"
  by (simp_all add: register_request_def heartbeat_request_def)

text \<open>The registry after the two calls of a synchronization, and what the second one answers.\<close>

abbreviation after_register :: "reg_env \<Rightarrow> u64 \<Rightarrow> 'z agent_sys_scheme \<Rightarrow> reg_sys \<Rightarrow> reg_sys" where
  "after_register env now a r \<equiv> snd (svc_register env now (register_request a) r)"

abbreviation after_heartbeat ::
  "reg_env \<Rightarrow> u64 \<Rightarrow> ResourceUsage \<Rightarrow> u64 \<Rightarrow> 'z agent_sys_scheme \<Rightarrow> reg_sys \<Rightarrow> reg_sys" where
  "after_heartbeat env now usage active a r \<equiv>
     snd (svc_heartbeat now (heartbeat_request usage active a) (after_register env now a r))"

definition current_reply :: "Inner \<Rightarrow> HeartbeatResponse" where
  "current_reply i = \<lparr>hr_desired_policy_version = desired_version i, hr_policy = in_policy i,
     hr_has_policy = True, hr_desired_software_version = desired_software i,
     hr_pending_ota = None, hr_has_pending_ota = False, hr_desired_seq = policy_seq i\<rparr>"

lemma svc_register_Inr: "\<exists>x. fst (svc_register env now q r) = Inr x"
  by (simp add: svc_register_def Let_def split: prod.splits)

lemma snd_svc_register:
  "snd (svc_register env now (register_request a) r) =
     snd (register env now (ac_device_id (config a)) (ac_hardware_id (config a))
       (ac_software_version (config a)) (show_u64 (policy_version (reported (store a))))
       (r_software_version (reported (store a))) r)"
  by (simp add: svc_register_def register_request_def Let_def split: prod.splits)

lemma heartbeat_after_register:
  "fst (svc_heartbeat now (heartbeat_request usage active a) (after_register env now a r))
     = Inr (current_reply (inner r))"
  by (simp add: svc_heartbeat_def snd_svc_register heartbeat_update_def register_def Let_def
      heartbeat_of_usage_def heartbeat_request_def current_reply_def map_of_update)

lemma sync_once_eq:
  "sync_once js env now n usage active (a, r) =
     (case connect n (config a) a of
        (Inl e, a1) \<Rightarrow> (Inl e, (a1, r))
      | (Inr _, a1) \<Rightarrow>
          (case (register_call n, heartbeat_call n) of
             (RequestLost, _) \<Rightarrow> (Inl (Rpc Unavailable), (a1, r))
           | (ReplyLost, _) \<Rightarrow> (Inl (Rpc Unavailable), (a1, after_register env now a r))
           | (Delivered, RequestLost) \<Rightarrow> (Inl (Rpc Unavailable), (a1, after_register env now a r))
           | (Delivered, ReplyLost) \<Rightarrow>
               (Inl (Rpc Unavailable), (a1, after_heartbeat env now usage active a r))
           | (Delivered, Delivered) \<Rightarrow>
               on_agent (handle_heartbeat js (current_reply (inner r)))
                 (a1, after_heartbeat env now usage active a r)))"
proof (cases "connect n (config a) a")
  case (Pair x a1)
  then obtain G where a1: "a1 = a\<lparr>faults := G\<rparr>" using connect_state [of n "config a" a] by auto
  obtain y r1 where y: "svc_register env now (register_request a) r = (Inr y, r1)"
    using svc_register_Inr [of env now "register_request a" r] by (metis prod.collapse)
  obtain r2 where h: "svc_heartbeat now (heartbeat_request usage active a) r1
      = (Inr (current_reply (inner r)), r2)"
    using heartbeat_after_register [of now usage active a env r] y by (metis prod.collapse snd_conv)
  show ?thesis
    using Pair y h by (cases x; cases "register_call n"; cases "heartbeat_call n")
      (simp_all add: sync_once_def act_defs on_agent_def rpc_def a1)
qed

text \<open>The network answers: the link comes up and both calls return.\<close>

definition answered :: "net \<Rightarrow> AgentConfig \<Rightarrow> 'z fs_scheme \<Rightarrow> bool" where
  "answered n cfg s \<longleftrightarrow> (\<exists>l. fst (connect n cfg s) = Inr l)
     \<and> register_call n = Delivered \<and> heartbeat_call n = Delivered"

lemma sync_unanswered:
  assumes "\<not> answered n (config a) a"
  shows "\<exists>e G. \<exists>r' \<in> {r, after_register env now a r, after_heartbeat env now usage active a r}.
     sync_once js env now n usage active (a, r) = (Inl e, (a\<lparr>faults := G\<rparr>, r'))"
proof (cases "connect n (config a) a")
  case (Pair x a1)
  then obtain G where a1: "a1 = a\<lparr>faults := G\<rparr>" using connect_state [of n "config a" a] by auto
  show ?thesis
    using Pair assms a1
    by (cases x; cases "register_call n"; cases "heartbeat_call n")
      (auto simp: sync_once_eq answered_def)
qed

lemma sync_answered:
  assumes "answered n (config a) a"
  shows "\<exists>G. sync_once js env now n usage active (a, r) =
     on_agent (handle_heartbeat js (current_reply (inner r)))
       (a\<lparr>faults := G\<rparr>, after_heartbeat env now usage active a r)"
proof (cases "connect n (config a) a")
  case (Pair x a1)
  then obtain G where a1: "a1 = a\<lparr>faults := G\<rparr>" using connect_state [of n "config a" a] by auto
  with Pair assms show ?thesis by (auto simp: sync_once_eq answered_def)
qed

section \<open>Properties\<close>

text \<open>One polling turn, answered or not.\<close>

lemma run_turn_unanswered:
  assumes "\<not> answered (t_net t) (config a) (a\<lparr>faults := t_faults t\<rparr>)"
  shows "\<exists>G r'. run_turn js env t ((a, r), b) =
     ((note_disconnected (a\<lparr>faults := G\<rparr>), r'), b\<lparr>attempt := saturating_add (attempt b) 1\<rparr>)"
proof -
  have "\<not> answered (t_net t) (config (a\<lparr>faults := t_faults t\<rparr>)) (a\<lparr>faults := t_faults t\<rparr>)"
    using assms by simp
  from sync_unanswered [OF this, of r env "t_now t" "t_usage t" 0 js]
  obtain e G r' where "sync_once js env (t_now t) (t_net t) (t_usage t) 0 (a\<lparr>faults := t_faults t\<rparr>, r)
      = (Inl e, (a\<lparr>faults := G\<rparr>, r'))" by auto
  then show ?thesis by (auto simp: run_turn_def next_delay_def Let_def)
qed

lemma note_disconnected_sel [simp]:
  "store (note_disconnected a) = store a" "files (note_disconnected a) = files a"
  "config (note_disconnected a) = config a" "m_control_plane_connected (note_disconnected a) = 0"
  "m_reconnect_total (note_disconnected a) = m_reconnect_total a + 1"
  "m_policy_version (note_disconnected a) = m_policy_version a"
  by (simp_all add: note_disconnected_def)

text \<open>Whether the network answers depends on the state only through the files the link reads.\<close>

abbreviation same_disk :: "'z fs_scheme \<Rightarrow> 'z fs_scheme \<Rightarrow> bool" where
  "same_disk s s' \<equiv> files s = files s' \<and> faults s = faults s'"

lemma act_try_same_disk:
  assumes "same_disk s s'" "fst (m s) = fst (m s')" "same_disk (snd (m s)) (snd (m s'))"
    and "\<And>x t t'. same_disk t t' \<Longrightarrow> fst (f x t) = fst (f x t')"
  shows "fst (act_try m f s) = fst (act_try m f s')"
proof -
  obtain x t t' where m: "m s = (x, t)" "m s' = (x, t')" and t: "same_disk t t'"
    using assms(2,3) by (cases "m s"; cases "m s'") auto
  show ?thesis using m assms(4) [OF t] by (cases x) (simp_all add: act_try_def)
qed

lemma read_same_disk:
  assumes "same_disk s s'"
  shows "fst (act_map_err g (fs_read p) s) = fst (act_map_err g (fs_read p) s')"
    and "same_disk (snd (act_map_err g (fs_read p) s)) (snd (act_map_err g (fs_read p) s'))"
  using assms by (auto simp: act_map_err_def fs_read_def fs_next_def
      split: list.splits io_outcome.splits option.splits)

lemma answered_cong:
  assumes "same_disk s s'"
  shows "answered n cfg s = answered n cfg s'"
proof -
  have "fst (connect n cfg s) = fst (connect n cfg s')"
    unfolding connect_def
    by (auto intro!: act_try_same_disk assms read_same_disk simp: act_ok_def act_err_def split: option.splits)
  then show ?thesis by (simp add: answered_def)
qed

lemma unanswered_turns:
  assumes "\<forall>t \<in> set ts. \<not> answered (t_net t) (config a) (a\<lparr>faults := t_faults t\<rparr>)"
    and "fold (run_turn js env) ts ((a, r), b) = ((a', r'), b')"
  shows "store a' = store a \<and> files a' = files a \<and> config a' = config a \<and> m_policy_version a' = m_policy_version a
     \<and> (ts \<noteq> [] \<longrightarrow> m_control_plane_connected a' = 0)
     \<and> m_reconnect_total a' = m_reconnect_total a + of_nat (length ts)
     \<and> unat (attempt b') = min (unat (attempt b) + length ts) (2 ^ 32 - 1)"
  using assms
proof (induction ts arbitrary: a r b)
  case Nil
  have "unat (attempt b) < 2 ^ 32" using unsigned_less [of "attempt b"] by simp
  with Nil show ?case by simp
next
  case (Cons t ts)
  obtain G r1 where t: "run_turn js env t ((a, r), b) =
      ((note_disconnected (a\<lparr>faults := G\<rparr>), r1), b\<lparr>attempt := saturating_add (attempt b) 1\<rparr>)"
    using run_turn_unanswered Cons.prems(1) by (metis list.set_intros(1))
  let ?a = "note_disconnected (a\<lparr>faults := G\<rparr>)"
  have "\<forall>u \<in> set ts. \<not> answered (t_net u) (config ?a) (?a\<lparr>faults := t_faults u\<rparr>)"
  proof
    fix u assume "u \<in> set ts"
    with Cons.prems(1) answered_cong [of "?a\<lparr>faults := t_faults u\<rparr>" "a\<lparr>faults := t_faults u\<rparr>"]
    show "\<not> answered (t_net u) (config ?a) (?a\<lparr>faults := t_faults u\<rparr>)" by simp
  qed
  from Cons.IH [OF this] Cons.prems(2) t show ?case
    by (cases ts) (auto simp: unat_saturating_add)
qed

text \<open>
  C9. A partition degrades the device to its last known good state and nothing else: over any
  number of polling turns none of which is answered (no link, a refused or half-configured
  TLS identity, or a lost request or reply), the store in memory and every file on disk stay
  as they were, and so do the configuration and the policy version shown, the agent shows itself as disconnected, counts one reconnect per turn, and
  its backoff has advanced by the number of turns (saturating).
\<close>

theorem partition_keeps_last_good:
  assumes "ts \<noteq> []"
    and "\<forall>t \<in> set ts. \<not> answered (t_net t) (config a) (a\<lparr>faults := t_faults t\<rparr>)"
    and "fold (run_turn js env) ts ((a, r), b) = ((a', r'), b')"
  shows "store a' = store a \<and> files a' = files a \<and> config a' = config a
     \<and> m_policy_version a' = m_policy_version a \<and> m_control_plane_connected a' = 0
     \<and> m_reconnect_total a' = m_reconnect_total a + of_nat (length ts)
     \<and> unat (attempt b') = min (unat (attempt b) + length ts) (2 ^ 32 - 1)"
  using assms(1) unanswered_turns [OF assms(2,3)] by simp

definition tls_settings :: "AgentConfig \<Rightarrow> nat" where
  "tls_settings cfg = length (filter (\<lambda>x. x \<noteq> None) [tls_ca cfg, tls_cert cfg, tls_key cfg])"

lemma connect_Inr:
  assumes "connect n cfg s = (Inr l, t)"
  shows "l_uri l = control_plane cfg \<and> (case l_tls l of
      None \<Rightarrow> tls_settings cfg = 0
    | Some c \<Rightarrow> \<exists>p q r. tls_ca cfg = Some p \<and> tls_cert cfg = Some q \<and> tls_key cfg = Some r
       \<and> files s p = Some (tc_ca c) \<and> files s q = Some (tc_cert c) \<and> files s r = Some (tc_key c)
       \<and> tc_domain c = (case tls_domain cfg of None \<Rightarrow> ''localhost'' | Some d \<Rightarrow> d))"
  using assms by (cases "tls_ca cfg"; cases "tls_cert cfg"; cases "tls_key cfg")
    (auto simp: connect_def tls_settings_def act_try_Inr_iff act_ok_def act_err_def
      dest!: map_err_read split: if_splits)

text \<open>
  C28. The agent's TLS configuration is whole or absent, never in between: whatever the disk and the
  network do, \<open>connect\<close> opens a channel to the configured URI without a TLS configuration only
  when none of the three TLS settings is present, and otherwise only with a configuration made
  of the CA, certificate and key as they are on disk and the configured domain. With one or
  two of the settings it is refused before any file is read or any connection is made. The
  URI is passed on as it is, its scheme is not looked at.
\<close>

theorem connect_tls_all_or_nothing:
  "case connect n cfg s of
     (Inr l, _) \<Rightarrow> l_uri l = control_plane cfg \<and> (case l_tls l of
         None \<Rightarrow> tls_settings cfg = 0
       | Some c \<Rightarrow> \<exists>p q r. tls_ca cfg = Some p \<and> tls_cert cfg = Some q \<and> tls_key cfg = Some r
          \<and> files s p = Some (tc_ca c) \<and> files s q = Some (tc_cert c) \<and> files s r = Some (tc_key c)
          \<and> tc_domain c = (case tls_domain cfg of None \<Rightarrow> ''localhost'' | Some d \<Rightarrow> d))
   | (Inl e, t) \<Rightarrow> (if tls_settings cfg \<in> {1, 2} then t = s \<and> (\<exists>m. e = StateErr m \<and> m \<noteq> []) else files t = files s)"
proof -
  obtain x t where c: "connect n cfg s = (x, t)" by fastforce
  then have t: "files t = files s" using connect_state [of n cfg s] by auto
  have half: "tls_settings cfg \<in> {1, 2} \<Longrightarrow> t = s \<and> (\<exists>m. x = Inl (StateErr m) \<and> m \<noteq> [])"
    using c by (cases "tls_ca cfg"; cases "tls_cert cfg"; cases "tls_key cfg")
      (auto simp: connect_def tls_settings_def act_err_def)
  show ?thesis
  proof (cases x)
    case (Inl e)
    with c t half show ?thesis by auto
  next
    case (Inr l)
    with c connect_Inr [of n cfg s l t] show ?thesis by auto
  qed
qed

end
