(* ===== verification/Fleet.thy ===== *)
theory Fleet
  imports Edge_Agent
begin

text \<open>
  The control plane and a fleet of agents together: operators change the desired state,
  devices poll or watch over a network that loses messages, device disks fail, devices and the
  control plane restart. The agents run the definitions of \<open>Edge_Agent\<close> against the handlers
  of \<open>Fleet_Service\<close>.
\<close>

section \<open>What an agent keeps true of its store\<close>

text \<open>
  A predicate \<open>R\<close> holds of the reported state in memory and of the one a restart would read,
  and the files in \<open>Q\<close> (the TLS identity) are there.
\<close>

definition store_safe ::
  "Persisted json \<Rightarrow> (ReportedState \<Rightarrow> bool) \<Rightarrow> path \<Rightarrow> path set \<Rightarrow> 'z store_sys_scheme \<Rightarrow> bool" where
  "store_safe js R sp Q s \<longleftrightarrow> st_path (store s) = sp \<and> R (reported_of s)
     \<and> (\<forall>st. reopen js sp (files s) = Some st \<longrightarrow> R (reported st)) \<and> (\<forall>q \<in> Q. files s q \<noteq> None)"

definition path_ok :: "path \<Rightarrow> path set \<Rightarrow> bool" where
  "path_ok sp Q \<longleftrightarrow> tmp_of sp \<noteq> sp \<and> tmp_of sp \<notin> Q"

lemma persist_effect:
  obtains (only_faults) G where "snd (persist js s) = s\<lparr>faults := G\<rparr>"
  | (writes) b G where "encode js (to_persisted (store s)) = Some b"
      "snd (persist js s) = snd (write_rename (st_path (store s)) b (s\<lparr>faults := G\<rparr>))"
proof -
  let ?m = "case parent (st_path (store s)) of None \<Rightarrow> act_ok ()
            | Some d \<Rightarrow> if d \<noteq> [] then act_map_err StIo fs_touch else act_ok ()"
  obtain r t where m: "?m s = (r, t)" by (cases "?m s") auto
  then obtain G where t: "t = s\<lparr>faults := G\<rparr>" using create_parent_result by blast
  show thesis
  proof (cases r)
    case (Inl e)
    with m t show thesis by (intro only_faults [of G]) (simp add: persist_def act_defs)
  next
    case (Inr u)
    show thesis
    proof (cases "encode js (to_persisted (store s))")
      case None
      with m t Inr show thesis by (intro only_faults [of G]) (simp add: persist_def act_defs)
    next
      case (Some b)
      have "snd (act_map_err StIo (write_rename (st_path (store s)) b) t) =
          snd (write_rename (st_path (store s)) b t)"
        by (auto simp: act_map_err_def split: prod.splits sum.splits)
      with m t Inr Some show thesis by (intro writes [of b G]) (simp_all add: persist_def act_defs)
    qed
  qed
qed

lemma write_rename_present:
  assumes "tmp_of p \<noteq> p" "q \<noteq> tmp_of p" "files s q \<noteq> None"
  shows "files (snd (write_rename p b s)) q \<noteq> None"
proof (cases "q = p")
  case True
  then show ?thesis using wr.old_or_new [OF assms(1), of b s] assms(3) by auto
next
  case False
  then show ?thesis using wr.save_frame [OF False assms(2), of b s] assms(3) by simp
qed

lemma persist_safe:
  assumes js: "json_ok js" and p: "path_ok sp Q" and s: "store_safe js R sp Q s"
  shows "store_safe js R sp Q (snd (persist js s))"
proof (cases rule: persist_effect [where js = js and s = s])
  case (only_faults G)
  with s show ?thesis by (simp add: store_safe_def)
next
  case (writes b G)
  have sp: "st_path (store s) = sp" using s by (simp add: store_safe_def)
  obtain F H where d: "snd (persist js s) = s\<lparr>files := F, faults := H\<rparr>"
    using writes(2) wr.save_only_disk [of "st_path (store s)" b "s\<lparr>faults := G\<rparr>"] by auto
  then have F: "F = files (snd (write_rename sp b (s\<lparr>faults := G\<rparr>)))"
    using writes(2) sp by (metis fs.select_convs(1) fs.surjective fs.update_convs(1,2))
  have "F sp = files s sp \<or> F sp = Some b"
    using wr.old_or_new [of sp b "s\<lparr>faults := G\<rparr>"] p F by (simp add: path_ok_def)
  moreover have "decode js b = Some (to_persisted (store s))"
    using js writes(1) by (simp add: json_ok_def)
  ultimately have "reopen js sp F = reopen js sp (files s) \<or> reopen js sp F = Some (store s)"
    using sp by (auto simp: reopen_def)
  moreover have "\<forall>q \<in> Q. F q \<noteq> None"
  proof
    fix q assume "q \<in> Q"
    then have "q \<noteq> tmp_of sp" "files (s\<lparr>faults := G\<rparr>) q \<noteq> None" "tmp_of sp \<noteq> sp"
      using p s by (auto simp: path_ok_def store_safe_def)
    then show "F q \<noteq> None" unfolding F by (intro write_rename_present)
  qed
  ultimately show ?thesis using s d by (auto simp: store_safe_def)
qed

lemma ingest_safe:
  assumes "json_ok js" "path_ok sp Q" "store_safe js R sp Q s"
  shows "store_safe js R sp Q (snd (ingest js d s))"
proof (cases "case desired (store s) of None \<Rightarrow> True | Some d0 \<Rightarrow> seq d0 < seq d")
  case True
  let ?s = "s\<lparr>store := (store s)\<lparr>desired := Some d\<rparr>\<rparr>"
  have "snd (ingest js d s) = snd (persist js ?s)"
    using True by (cases "persist js ?s"; cases "fst (persist js ?s)") (auto simp: ingest_def act_defs)
  moreover have "store_safe js R sp Q ?s" using assms(3) by (simp add: store_safe_def)
  ultimately show ?thesis using persist_safe [OF assms(1,2)] by simp
next
  case False
  with assms(3) show ?thesis by (auto simp: ingest_def act_defs)
qed

lemma mark_safe:
  assumes "json_ok js" "path_ok sp Q" "store_safe js R sp Q s"
    and "R (snd (apply_policy p q (reported_of s)))"
  shows "store_safe js R sp Q (snd (mark_policy_applied js p q s))"
proof -
  let ?r = "snd (apply_policy p q (reported_of s))"
  let ?s = "s\<lparr>store := (store s)\<lparr>reported := ?r, last_good_policy := p\<rparr>\<rparr>"
  have "snd (mark_policy_applied js p q s) = snd (persist js ?s)"
    by (cases "apply_policy p q (reported_of s)"; cases "persist js ?s"; cases "fst (persist js ?s)")
      (auto simp: mark_policy_applied_def act_defs)
  moreover have "store_safe js R sp Q ?s" using assms(3,4) by (simp add: store_safe_def)
  ultimately show ?thesis using persist_safe [OF assms(1,2)] by simp
qed

lemma watch_apply_safe:
  assumes "json_ok js" "path_ok sp Q" "store_safe js R sp Q a" and "R (reconcile d (reported_of a))"
  shows "store_safe js R sp Q (watch_apply js d a)"
proof (cases "ingest js d a")
  case (Pair r t)
  have t: "store_safe js R sp Q t" using ingest_safe [OF assms(1-3), of d] Pair by simp
  show ?thesis
  proof (cases "\<exists>pol. r = Inr (ApplyPolicy pol)")
    case True
    then obtain pol where pol: "r = Inr (ApplyPolicy pol)" by blast
    then have "R (snd (apply_policy pol (seq d) (reported_of t)))"
      using assms(4) ingest_reported [OF Pair] by (simp add: reconcile_def)
    then show ?thesis using Pair pol mark_safe [OF assms(1,2) t] by (simp add: watch_apply_def)
  next
    case False
    with Pair t show ?thesis by (auto simp: watch_apply_def split: sum.splits ReconcileAction.splits)
  qed
qed

lemma store_safe_cong:
  "store s = store s' \<Longrightarrow> files s = files s' \<Longrightarrow> store_safe js R sp Q s = store_safe js R sp Q s'"
  by (simp add: store_safe_def)

lemma apply_desired_files: "files (snd (apply_desired js d a)) = files (watch_apply js d a)"
  by (auto simp: apply_desired_def watch_apply_def act_defs
      split: prod.splits sum.splits ReconcileAction.splits)

lemma apply_desired_safe:
  assumes "json_ok js" "path_ok sp Q" "store_safe js R sp Q a" and "R (reconcile d (reported_of a))"
  shows "store_safe js R sp Q (snd (apply_desired js d a))"
  using watch_apply_safe [OF assms] store_safe_cong [OF apply_desired_store apply_desired_files] by blast

section \<open>The fleet\<close>

record fleet =
  reg :: reg_sys
  devs :: "string \<Rightarrow> agent_sys \<times> Backoff"

text \<open>
  An operator's change of the desired state, a device's polling or watch turn, a restart of a
  device (with the faults of its disk while it opens the store; a start that fails is tried
  again later) and a restart of the control plane.
\<close>

datatype fleet_event = Operate reg_op | Poll string turn | WatchTurn string turn
  | Reboot string "io_outcome list" | ControlRestart

definition set_dev :: "string \<Rightarrow> (agent_sys \<times> reg_sys) \<times> Backoff \<Rightarrow> fleet \<Rightarrow> fleet" where
  "set_dev k st w = w\<lparr>reg := snd (fst st), devs := (devs w)(k := (fst (fst st), snd st))\<rparr>"

definition reboot :: "Persisted json \<Rightarrow> io_outcome list \<Rightarrow> agent_sys \<Rightarrow> agent_sys" where
  "reboot js fl a =
     (case EdgeAgent_new js (config a) (a\<lparr>faults := fl\<rparr>) of
        (Inr st, a') \<Rightarrow> a'\<lparr>store := st, m_control_plane_connected := 0, m_reconnect_total := 0,
                          m_policy_version := 0\<rparr>
      | (Inl _, _) \<Rightarrow> a)"

fun fleet_step :: "Persisted json \<Rightarrow> reg_env \<Rightarrow> path \<Rightarrow> fleet_event \<Rightarrow> fleet \<Rightarrow> fleet" where
  "fleet_step js env p (Operate op) w = w\<lparr>reg := reg_step env (op, []) (reg w)\<rparr>"
| "fleet_step js env p (Poll k t) w =
     set_dev k (run_turn js env t ((fst (devs w k), reg w), snd (devs w k))) w"
| "fleet_step js env p (WatchTurn k t) w =
     set_dev k (watch_turn js t ((fst (devs w k), reg w), snd (devs w k))) w"
| "fleet_step js env p (Reboot k fl) w =
     w\<lparr>devs := (devs w)(k := (reboot js fl (fst (devs w k)), run_backoff))\<rparr>"
| "fleet_step js env p ControlRestart w =
     (case Registry_load env p (reg w) of
        (Inr j, r) \<Rightarrow> w\<lparr>reg := r\<lparr>inner := j\<rparr>\<rparr>
      | (Inl _, _) \<Rightarrow> w)"

fun event_ok :: "fleet_event \<Rightarrow> bool" where
  "event_ok (Operate op) = finite_op (op, [])"
| "event_ok (Poll k t) = f64_finite (u_cpu_usage (t_usage t))"
| "event_ok (WatchTurn k t) = f64_finite (u_cpu_usage (t_usage t))"
| "event_ok _ = True"

section \<open>The control plane on a disk that works\<close>

definition reg_sane :: "reg_env \<Rightarrow> path \<Rightarrow> reg_sys \<Rightarrow> bool" where
  "reg_sane env p r \<longleftrightarrow> reg_inv p r \<and> stored env p (files r) (inner r) \<and> faults r = []
     \<and> (policy_seq (inner r) = 0 \<longrightarrow> in_policy (inner r) = None)"

lemma maybe_persist_faults: "faults s = [] \<Longrightarrow> faults (maybe_persist env s) = []"
  using wr.save_reliable [of s]
  by (auto simp: maybe_persist_def write_snapshot_def act_defs split: option.splits)

lemma reg_step_faults: "faults (reg_step env (op, []) r) = []"
  by (cases op) (auto simp: reg_step_def register_def heartbeat_update_def set_policy_def
      set_desired_software_def Let_def maybe_persist_faults split: option.splits)

lemma reg_sane_step:
  assumes env: "reg_env_ok env" and p: "tmp_of p \<noteq> p" and r: "reg_sane env p r"
    and op: "finite_op (op, [])" and b: "unat (policy_seq (inner r)) + 1 < 2 ^ 64"
  shows "reg_sane env p (reg_step env (op, []) r)"
proof -
  let ?t = "reg_step env (op, []) r"
  have "reg_inv p ?t" using reg_inv_step r op by (simp add: reg_sane_def)
  moreover have "stored env p (files ?t) (inner ?t)"
    using reg_step_stored(2) [OF env p _ op] r by (simp add: reg_sane_def)
  moreover have "policy_seq (inner ?t) = 0 \<longrightarrow> in_policy (inner ?t) = None"
    using vs.seq_step [OF b, of env "(op, [])"] r by (auto simp: reg_sane_def desired_content_def)
  ultimately show ?thesis by (simp add: reg_sane_def reg_step_faults)
qed

text \<open>Calls from devices leave the desired state alone.\<close>

lemma reg_step_report:
  "current_policy (reg_step env (Register now did hw sw rp rsw, []) r) = current_policy r"
  "current_policy (reg_step env (Heartbeat now u, []) r) = current_policy r"
  by (auto simp: reg_step_def register_def heartbeat_update_def current_policy_def Let_def
      split: option.splits)

lemma reg_report_sane:
  assumes env: "reg_env_ok env" and p: "tmp_of p \<noteq> p" and r: "reg_sane env p r"
    and op: "finite_op (op, [])" and same: "current_policy (reg_step env (op, []) r) = current_policy r"
  shows "reg_sane env p (reg_step env (op, []) r)"
proof -
  let ?t = "reg_step env (op, []) r"
  have "reg_inv p ?t" using reg_inv_step r op by (simp add: reg_sane_def)
  moreover have "stored env p (files ?t) (inner ?t)"
    using reg_step_stored(2) [OF env p _ op] r by (simp add: reg_sane_def)
  ultimately show ?thesis
    using r same by (simp add: reg_sane_def reg_step_faults current_policy_def)
qed

lemma reg_faults_id: "faults (r :: reg_sys) = [] \<Longrightarrow> r\<lparr>faults := []\<rparr> = r"
  by (cases r) simp

lemma after_register_step:
  "faults r = [] \<Longrightarrow> after_register env now a r =
     reg_step env (Register now (ac_device_id (config a)) (ac_hardware_id (config a))
       (ac_software_version (config a)) (show_u64 (policy_version (reported_of a)))
       (r_software_version (reported_of a)), []) r"
  by (simp add: snd_svc_register reg_step_def reg_faults_id)

abbreviation usage_update :: "ResourceUsage \<Rightarrow> u64 \<Rightarrow> 'z agent_sys_scheme \<Rightarrow> HeartbeatUpdate" where
  "usage_update usage active a \<equiv> heartbeat_of_usage (ac_device_id (config a))
     (show_u64 (policy_version (reported_of a))) (r_software_version (reported_of a)) 1 (Some usage) active"

lemma snd_svc_heartbeat:
  "snd (svc_heartbeat now (heartbeat_request usage active a) r) =
     snd (heartbeat_update now (usage_update usage active a) r)"
  by (cases "heartbeat_update now (usage_update usage active a) r";
      cases "fst (heartbeat_update now (usage_update usage active a) r)")
    (auto simp: svc_heartbeat_def heartbeat_request_def)

lemma after_heartbeat_step:
  assumes "faults r = []"
  shows "after_heartbeat env now usage active a r =
     reg_step env (Heartbeat now (usage_update usage active a), []) (after_register env now a r)"
proof -
  have "faults (after_register env now a r) = []"
    unfolding after_register_step [OF assms] by (rule reg_step_faults)
  then show ?thesis by (simp add: snd_svc_heartbeat reg_step_def reg_faults_id)
qed

lemma finite_usage: "finite_op (Heartbeat now (usage_update usage active a), []) = f64_finite (u_cpu_usage usage)"
  by (simp add: finite_op_def heartbeat_of_usage_def)

lemma sync_registry:
  assumes env: "reg_env_ok env" and p: "tmp_of p \<noteq> p" and r: "reg_sane env p r"
    and cpu: "f64_finite (u_cpu_usage usage)"
    and r': "r' \<in> {r, after_register env now a r, after_heartbeat env now usage active a r}"
  shows "reg_sane env p r' \<and> current_policy r' = current_policy r"
proof -
  have f: "faults r = []" using r by (simp add: reg_sane_def)
  let ?r1 = "after_register env now a r" and ?r2 = "after_heartbeat env now usage active a r"
  have r1: "reg_sane env p ?r1 \<and> current_policy ?r1 = current_policy r"
    using reg_report_sane [OF env p r] reg_step_report(1)
    by (simp add: after_register_step [OF f] finite_op_def)
  then have "reg_sane env p ?r2 \<and> current_policy ?r2 = current_policy r"
    unfolding after_heartbeat_step [OF f]
    using reg_report_sane [OF env p, of ?r1 "Heartbeat now (usage_update usage active a)"]
    by (simp only: reg_step_report(2) finite_usage cpu)
  with r1 r r' show ?thesis by blast
qed

section \<open>A device against the control plane\<close>

text \<open>
  What a device reports is behind the control plane's sequence number, or level with it and
  then it is the control plane's policy.
\<close>

definition device_ok :: "Policy option \<times> u64 \<Rightarrow> ReportedState \<Rightarrow> bool" where
  "device_ok c r \<longleftrightarrow> applied_seq r \<le> snd c
     \<and> (\<forall>x. applied_seq r = snd c \<longrightarrow> fst c = Some x \<longrightarrow> policy_version r = version x)"

lemma device_ok_reconcile:
  assumes "device_ok (Some x, q) r" and "q \<noteq> 0" and "seq d = max q 1" and "version (policy d) = version x"
  shows "device_ok (Some x, q) (reconcile d r)" and "policy_version (reconcile d r) = version x"
proof -
  have "1 \<le> q" using assms(2) by (simp add: word_le_nat_alt unat_gt_0 Suc_leI)
  then have "seq d = q" using assms(3) by (simp add: max_def)
  then show "device_ok (Some x, q) (reconcile d r)" and "policy_version (reconcile d r) = version x"
    using assms(1,4) by (auto simp: device_ok_def reconcile_eq)
qed

lemma ingest_config: "ingest js d a = (r, t) \<Longrightarrow> config t = config a"
  by (cases rule: ingest_cases [where js = js and d = d and s = a]) auto

lemma mark_config: "mark_policy_applied js p q a = (r, t) \<Longrightarrow> config t = config a"
  by (cases rule: mark_cases [where js = js and p = p and q = q and s = a]) auto

lemma watch_apply_config [simp]: "config (watch_apply js d a) = config a"
  by (auto simp: watch_apply_def dest: ingest_config split: prod.splits sum.splits ReconcileAction.splits)
    (metis ingest_config mark_config prod.collapse)

lemma apply_desired_config [simp]: "config (snd (apply_desired js d a)) = config a"
  by (auto simp: apply_desired_def act_defs dest!: ingest_config mark_config
      split: prod.splits sum.splits ReconcileAction.splits)

lemma handle_heartbeat_safe:
  assumes js: "json_ok js" and p: "path_ok sp Q" and a: "store_safe js (device_ok (current_policy r)) sp Q a"
    and q: "policy_seq (inner r) = 0 \<longrightarrow> in_policy (inner r) = None"
  shows "store_safe js (device_ok (current_policy r)) sp Q (snd (handle_heartbeat js (current_reply (inner r)) a))"
    and "config (snd (handle_heartbeat js (current_reply (inner r)) a)) = config a"
proof -
  let ?a = "a\<lparr>m_control_plane_connected := 1\<rparr>"
  have s: "store_safe js (device_ok (current_policy r)) sp Q ?a" using a by (simp add: store_safe_def)
  have "store_safe js (device_ok (current_policy r)) sp Q (snd (handle_heartbeat js (current_reply (inner r)) a))
    \<and> config (snd (handle_heartbeat js (current_reply (inner r)) a)) = config a"
  proof (cases "in_policy (inner r)")
    case None
    then show ?thesis using s by (simp add: handle_heartbeat_def current_reply_def act_defs)
  next
    case (Some x)
    let ?d = "\<lparr>seq = max (policy_seq (inner r)) 1, policy = local_policy (last_good_policy (store a)) x,
      d_software_version = desired_software (inner r)\<rparr>"
    have "device_ok (current_policy r) (reconcile ?d (reported_of ?a))"
      using s Some q device_ok_reconcile(1) [of x "policy_seq (inner r)" "reported_of a" ?d]
      by (simp add: store_safe_def current_policy_def local_policy_def)
    from apply_desired_safe [OF js p s this]
    show ?thesis using Some by (simp add: handle_heartbeat_def current_reply_def act_defs)
  qed
  then show "store_safe js (device_ok (current_policy r)) sp Q (snd (handle_heartbeat js (current_reply (inner r)) a))"
    and "config (snd (handle_heartbeat js (current_reply (inner r)) a)) = config a" by blast+
qed

lemma store_safe_frame [simp]:
  "store_safe js R sp Q (a\<lparr>faults := G\<rparr>) = store_safe js R sp Q a"
  "store_safe js R sp Q (note_disconnected a') = store_safe js R sp Q a'"
  by (simp_all add: store_safe_def)

lemma handle_heartbeat_ok:
  assumes "disk_ok js a"
  shows "\<exists>b t. handle_heartbeat js hb a = (Inr b, t)"
proof -
  have "disk_ok js (a\<lparr>m_control_plane_connected := 1\<rparr>)" using assms by (simp add: disk_ok_def)
  then show ?thesis
    using apply_desired_reliable by (fastforce simp: handle_heartbeat_def act_defs split: option.splits)
qed

lemma run_turn_safe:
  assumes js: "json_ok js" and env: "reg_env_ok env" and p: "tmp_of p \<noteq> p" and r: "reg_sane env p r"
    and cpu: "f64_finite (u_cpu_usage (t_usage t))" and sp: "path_ok sp Q"
    and a: "store_safe js (device_ok (current_policy r)) sp Q a"
    and run: "run_turn js env t ((a, r), b) = ((a', r'), b')"
  shows "reg_sane env p r' \<and> current_policy r' = current_policy r \<and> config a' = config a
     \<and> store_safe js (device_ok (current_policy r)) sp Q a'"
proof (cases "answered (t_net t) (config a) (a\<lparr>faults := t_faults t\<rparr>)")
  case False
  let ?a = "a\<lparr>faults := t_faults t\<rparr>"
  have "\<not> answered (t_net t) (config ?a) ?a" using False by simp
  from sync_unanswered [OF this, of r env "t_now t" "t_usage t" 0 js]
  obtain e G r1 where r1: "r1 \<in> {r, after_register env (t_now t) ?a r,
        after_heartbeat env (t_now t) (t_usage t) 0 ?a r}"
    and s: "sync_once js env (t_now t) (t_net t) (t_usage t) 0 (?a, r) = (Inl e, (a\<lparr>faults := G\<rparr>, r1))"
    by auto
  have "r' = r1" "a' = note_disconnected (a\<lparr>faults := G\<rparr>)"
    using run s by (auto simp: run_turn_def Let_def)
  then show ?thesis using sync_registry [OF env p r cpu r1] a by simp
next
  case True
  let ?a = "a\<lparr>faults := t_faults t\<rparr>"
  have "answered (t_net t) (config ?a) ?a" using True by simp
  from sync_answered [OF this, of js env "t_now t" "t_usage t" 0 r]
  obtain G where s: "sync_once js env (t_now t) (t_net t) (t_usage t) 0 (?a, r) =
      on_agent (handle_heartbeat js (current_reply (inner r)))
        (a\<lparr>faults := G\<rparr>, after_heartbeat env (t_now t) (t_usage t) 0 ?a r)" by auto
  let ?h = "handle_heartbeat js (current_reply (inner r)) (a\<lparr>faults := G\<rparr>)"
  obtain x u where h: "?h = (x, u)" by (cases ?h)
  have "r' = after_heartbeat env (t_now t) (t_usage t) 0 ?a r \<and> (a' = snd ?h \<or> a' = note_disconnected (snd ?h))"
    using run by (cases x) (simp_all add: run_turn_def s h on_agent_def Let_def)
  moreover have "store_safe js (device_ok (current_policy r)) sp Q (snd ?h)" "config (snd ?h) = config a"
    using handle_heartbeat_safe [OF js sp, of r "a\<lparr>faults := G\<rparr>"] a r by (simp_all add: reg_sane_def)
  moreover have "reg_sane env p (after_heartbeat env (t_now t) (t_usage t) 0 ?a r)
      \<and> current_policy (after_heartbeat env (t_now t) (t_usage t) 0 ?a r) = current_policy r"
    by (rule sync_registry [OF env p r cpu, where now = "t_now t" and active = 0 and a = ?a]) simp
  ultimately show ?thesis by auto
qed

lemma watch_reply_snd:
  assumes "faults r = []"
  shows "snd (watch_reply now (edge_report usage a) r) =
     reg_step env (Heartbeat now (usage_update usage 0 a), []) r"
  using assms by (simp add: watch_reply_def Let_def edge_report_def reg_step_def reg_faults_id
      split: prod.splits)

lemma watch_reply_command:
  assumes "watch_reply now rep r = (cmd, r')"
  shows "cc_command cmd = Some NoopCommand \<or>
    (\<exists>x. in_policy (inner r) = Some x \<and> cc_seq cmd = policy_seq (inner r)
       \<and> cc_command cmd = Some (PolicyUpdate (Some x)))"
proof -
  let ?u = "heartbeat_of_usage (er_device_id rep) (er_reported_policy_version rep)
    (er_reported_software_version rep) (er_health rep) (er_usage rep) (er_active_connections rep)"
  have "current_policy (snd (heartbeat_update now ?u r)) = current_policy r"
    by (auto simp: heartbeat_update_def current_policy_def Let_def split: option.splits)
  with assms show ?thesis
    by (auto simp: watch_reply_def Let_def current_policy_def split: prod.splits option.splits if_splits)
qed

lemma watch_turn_safe:
  assumes js: "json_ok js" and env: "reg_env_ok env" and p: "tmp_of p \<noteq> p" and r: "reg_sane env p r"
    and cpu: "f64_finite (u_cpu_usage (t_usage t))" and sp: "path_ok sp Q"
    and a: "store_safe js (device_ok (current_policy r)) sp Q a"
    and run: "watch_turn js t ((a, r), b) = ((a', r'), b')"
  shows "reg_sane env p r' \<and> current_policy r' = current_policy r \<and> config a' = config a
     \<and> store_safe js (device_ok (current_policy r)) sp Q a'"
proof -
  let ?R = "device_ok (current_policy r)"
  obtain x a1 where c: "connect (t_net t) (config a) (a\<lparr>faults := t_faults t\<rparr>) = (x, a1)" by fastforce
  then obtain G where a1: "a1 = a\<lparr>faults := G\<rparr>"
    using connect_state [of "t_net t" "config a" "a\<lparr>faults := t_faults t\<rparr>"] by auto
  obtain cmd r1 where w: "watch_reply (t_now t) (edge_report (t_usage t) a1) r = (cmd, r1)" by fastforce
  have r1: "reg_sane env p r1 \<and> current_policy r1 = current_policy r"
  proof -
    have "r1 = reg_step env (Heartbeat (t_now t) (usage_update (t_usage t) 0 a1), []) r"
      using watch_reply_snd [of r "t_now t" "t_usage t" a1 env] w r by (simp add: reg_sane_def)
    then show ?thesis
      using reg_report_sane [OF env p r, of "Heartbeat (t_now t) (usage_update (t_usage t) 0 a1)"]
      by (simp only: reg_step_report(2) finite_usage cpu)
  qed
  have h: "store_safe js ?R sp Q (handle_command js cmd a1) \<and> config (handle_command js cmd a1) = config a"
    using watch_reply_command [OF w]
  proof (elim disjE exE conjE)
    assume "cc_command cmd = Some NoopCommand"
    then show ?thesis using a a1 by (simp add: handle_command_def)
  next
    fix x assume x: "in_policy (inner r) = Some x" "cc_seq cmd = policy_seq (inner r)"
      "cc_command cmd = Some (PolicyUpdate (Some x))"
    let ?d = "\<lparr>seq = max (policy_seq (inner r)) 1, policy = x, d_software_version = []\<rparr>"
    have "?R (reconcile ?d (reported_of a1))"
      using a a1 x r device_ok_reconcile(1) [of x "policy_seq (inner r)" "reported_of a" ?d]
      by (simp add: store_safe_def current_policy_def reg_sane_def)
    with watch_apply_safe [OF js sp, of ?R a1 ?d] a a1 x show ?thesis
      by (simp add: handle_command_def)
  qed
  have "(r' = r \<or> r' = r1) \<and> (a' = note_disconnected a1 \<or> a' = note_disconnected (handle_command js cmd a1))"
    using run c w by (cases x; cases "watch_call (t_net t)") (auto simp: watch_turn_def)
  then show ?thesis using r1 r h a a1 by auto
qed

section \<open>The invariant of the fleet\<close>

definition fleet_inv ::
  "Persisted json \<Rightarrow> reg_env \<Rightarrow> path \<Rightarrow> (string \<Rightarrow> path set) \<Rightarrow> fleet \<Rightarrow> bool" where
  "fleet_inv js env p Q w \<longleftrightarrow> reg_sane env p (reg w) \<and>
     (\<forall>k. path_ok (state_path (config (fst (devs w k)))) (Q k) \<and>
       store_safe js (device_ok (current_policy (reg w))) (state_path (config (fst (devs w k)))) (Q k)
         (fst (devs w k)))"

lemma store_safe_mono:
  "store_safe js R sp Q s \<Longrightarrow> (\<And>r. R r \<Longrightarrow> R' r) \<Longrightarrow> store_safe js R' sp Q s"
  by (auto simp: store_safe_def)

lemma device_ok_step:
  assumes "unat (policy_seq (inner r)) + 1 < 2 ^ 64" and "device_ok (current_policy r) x"
  shows "device_ok (current_policy (reg_step env op r)) x"
proof -
  let ?q = "policy_seq (inner r)"
  from vs.seq_step [OF assms(1), of env op] show ?thesis
  proof
    assume "policy_seq (inner (reg_step env op r)) = ?q \<and> desired_content (reg_step env op r) = desired_content r"
    then show ?thesis using assms(2) by (simp add: current_policy_def desired_content_def)
  next
    assume "unat (policy_seq (inner (reg_step env op r))) = unat ?q + 1"
    then have "applied_seq x < policy_seq (inner (reg_step env op r))"
      using assms(2) by (simp add: device_ok_def current_policy_def word_le_nat_alt word_less_nat_alt)
    then show ?thesis by (auto simp: device_ok_def current_policy_def)
  qed
qed

lemma reboot_safe:
  assumes a: "store_safe js R sp Q a" and sp: "state_path (config a) = sp" and R: "R default_reported"
  shows "store_safe js R sp Q (reboot js fl a)" and "config (reboot js fl a) = config a"
proof -
  have "store_safe js R sp Q (reboot js fl a) \<and> config (reboot js fl a) = config a"
  proof (cases "StateStore_open js sp (a\<lparr>faults := fl\<rparr>)")
    case (Pair x t)
    show ?thesis
    proof (cases x)
      case (Inl e)
      with Pair a sp show ?thesis by (simp add: reboot_def EdgeAgent_new_def act_map_err_def)
    next
      case (Inr st)
      with Pair have o: "StateStore_open js sp (a\<lparr>faults := fl\<rparr>) = (Inr st, t)" by simp
      obtain G where t: "t = a\<lparr>faults := G\<rparr>" using open_any_fault(2) [OF o] by auto
      have st: "st = fresh_store sp \<or> reopen js sp (files a) = Some st" using open_any_fault(1) [OF o] by simp
      then have "st_path st = sp" "R (reported st)"
        using a R by (auto simp: store_safe_def fresh_store_def reopen_def of_persisted_def split: option.splits)
      then show ?thesis
        using o a sp t by (simp add: reboot_def EdgeAgent_new_def act_map_err_def store_safe_def)
    qed
  qed
  then show "store_safe js R sp Q (reboot js fl a)" and "config (reboot js fl a) = config a" by blast+
qed

lemma current_policy_seq: "current_policy r = c \<Longrightarrow> policy_seq (inner r) = snd c"
  by (auto simp: current_policy_def)

lemma fleet_inv_dev:
  assumes "fleet_inv js env p Q w"
  shows "reg_sane env p (reg w)" "path_ok (state_path (config (fst (devs w k)))) (Q k)"
    "store_safe js (device_ok (current_policy (reg w))) (state_path (config (fst (devs w k)))) (Q k) (fst (devs w k))"
  using assms by (simp_all add: fleet_inv_def)

lemma fleet_inv_set_dev:
  assumes w: "fleet_inv js env p Q w" and a: "fst (devs w k) = a"
    and st: "reg_sane env p r' \<and> current_policy r' = current_policy (reg w) \<and> config a' = config a
      \<and> store_safe js (device_ok (current_policy (reg w))) (state_path (config a)) (Q k) a'"
  shows "fleet_inv js env p Q (set_dev k ((a', r'), b') w)"
  using fleet_inv_dev [OF w] st a by (auto simp: fleet_inv_def set_dev_def)

text \<open>Every event but an operator's keeps the desired state.\<close>

definition desired_kept :: "fleet_event \<Rightarrow> fleet \<Rightarrow> fleet \<Rightarrow> bool" where
  "desired_kept e w w' \<longleftrightarrow> (case e of Operate _ \<Rightarrow>
        unat (policy_seq (inner (reg w'))) \<le> unat (policy_seq (inner (reg w))) + 1
      | _ \<Rightarrow> current_policy (reg w') = current_policy (reg w))"

lemma fleet_inv_step:
  assumes js: "json_ok js" and env: "reg_env_ok env" and p: "tmp_of p \<noteq> p"
    and w: "fleet_inv js env p Q w" and e: "event_ok e"
    and b: "unat (policy_seq (inner (reg w))) + 1 < 2 ^ 64"
  shows "fleet_inv js env p Q (fleet_step js env p e w) \<and> desired_kept e w (fleet_step js env p e w)
    \<and> (\<forall>k. config (fst (devs (fleet_step js env p e w) k)) = config (fst (devs w k)))"
proof (cases e)
  case (Operate op)
  note d = fleet_inv_dev [OF w]
  have "reg_sane env p (reg_step env (op, []) (reg w))"
    using reg_sane_step [OF env p d(1) _ b] e Operate by simp
  moreover have "store_safe js (device_ok (current_policy (reg_step env (op, []) (reg w))))
      (state_path (config (fst (devs w k)))) (Q k) (fst (devs w k))" for k
    using d(3) device_ok_step [OF b] by (rule store_safe_mono)
  ultimately show ?thesis
    using Operate d(2) vs.seq_step [OF b, of env "(op, [])"] by (auto simp: fleet_inv_def desired_kept_def)
next
  case (Poll k t)
  obtain a' r' b' where run: "run_turn js env t ((fst (devs w k), reg w), snd (devs w k)) = ((a', r'), b')"
    by (metis prod.collapse)
  have st: "reg_sane env p r' \<and> current_policy r' = current_policy (reg w) \<and> config a' = config (fst (devs w k))
      \<and> store_safe js (device_ok (current_policy (reg w))) (state_path (config (fst (devs w k)))) (Q k) a'"
    using run_turn_safe [OF js env p fleet_inv_dev(1) [OF w] _ fleet_inv_dev(2,3) [OF w] run] e Poll by simp
  from fleet_inv_set_dev [OF w refl st] st run Poll show ?thesis by (simp add: desired_kept_def set_dev_def)
next
  case (WatchTurn k t)
  obtain a' r' b' where run: "watch_turn js t ((fst (devs w k), reg w), snd (devs w k)) = ((a', r'), b')"
    by (metis prod.collapse)
  have st: "reg_sane env p r' \<and> current_policy r' = current_policy (reg w) \<and> config a' = config (fst (devs w k))
      \<and> store_safe js (device_ok (current_policy (reg w))) (state_path (config (fst (devs w k)))) (Q k) a'"
    using watch_turn_safe [OF js env p fleet_inv_dev(1) [OF w] _ fleet_inv_dev(2,3) [OF w] run] e WatchTurn by simp
  from fleet_inv_set_dev [OF w refl st] st run WatchTurn show ?thesis by (simp add: desired_kept_def set_dev_def)
next
  case (Reboot k fl)
  note d = fleet_inv_dev [OF w]
  have "device_ok (current_policy (reg w)) default_reported"
    using d(1) by (auto simp: device_ok_def reg_sane_def current_policy_def default_reported_def)
  note s = reboot_safe [OF d(3) [of k] refl this]
  from s d(1,2,3) Reboot show ?thesis by (auto simp: fleet_inv_def desired_kept_def)
next
  case ControlRestart
  note d = fleet_inv_dev [OF w]
  have st: "stored env p (files (reg w)) (inner (reg w))" and f: "faults (reg w) = []"
    using d(1) by (simp_all add: reg_sane_def)
  obtain j where j: "Registry_load env p (reg w) = (Inr j, reg w)" "same_fleet j (inner (reg w))"
    "persist_path j = Some p" "inner_inv j" "finite_cpu j"
    using load_stored [OF env st f] by blast
  have "same_fleet (inner (reg w)) j" using j(2) by (simp add: same_fleet_def)
  then have "reg_sane env p (reg w\<lparr>inner := j\<rparr>)" "current_policy (reg w\<lparr>inner := j\<rparr>) = current_policy (reg w)"
    using d(1) j stored_same_fleet [OF st]
    by (simp_all add: reg_sane_def reg_inv_def same_fleet_def current_policy_def)
  then show ?thesis using ControlRestart j(1) d(2,3) by (simp add: fleet_inv_def desired_kept_def)
qed

lemma desired_kept_seq:
  "desired_kept e w w' \<Longrightarrow> unat (policy_seq (inner (reg w'))) \<le> unat (policy_seq (inner (reg w))) + 1"
  by (cases e) (auto simp: desired_kept_def current_policy_def)

lemma fleet_inv_run:
  assumes js: "json_ok js" and env: "reg_env_ok env" and p: "tmp_of p \<noteq> p"
    and "fleet_inv js env p Q w" and "list_all event_ok es"
    and "unat (policy_seq (inner (reg w))) + length es < 2 ^ 64"
  shows "fleet_inv js env p Q (fold (fleet_step js env p) es w)
    \<and> unat (policy_seq (inner (reg (fold (fleet_step js env p) es w)))) \<le> unat (policy_seq (inner (reg w))) + length es
    \<and> (\<forall>k. config (fst (devs (fold (fleet_step js env p) es w) k)) = config (fst (devs w k)))"
  using assms(4-)
proof (induction es arbitrary: w)
  case (Cons e es)
  let ?w = "fleet_step js env p e w"
  have "fleet_inv js env p Q ?w \<and> desired_kept e w ?w \<and> (\<forall>k. config (fst (devs ?w k)) = config (fst (devs w k)))"
    using Cons.prems by (intro fleet_inv_step [OF js env p]) auto
  moreover from this have "unat (policy_seq (inner (reg ?w))) \<le> unat (policy_seq (inner (reg w))) + 1"
    using desired_kept_seq by blast
  ultimately show ?case using Cons.IH [of ?w] Cons.prems by auto
qed simp

section \<open>Convergence\<close>

definition tls_paths :: "AgentConfig \<Rightarrow> path set" where
  "tls_paths cfg = {q. tls_ca cfg = Some q \<or> tls_cert cfg = Some q \<or> tls_key cfg = Some q}"

text \<open>A turn in which nothing fails.\<close>

definition good_turn :: "turn \<Rightarrow> AgentConfig \<Rightarrow> bool" where
  "good_turn t cfg \<longleftrightarrow> uri_valid (t_net t) \<and> reachable (t_net t)
     \<and> register_call (t_net t) = Delivered \<and> heartbeat_call (t_net t) = Delivered
     \<and> (tls_settings cfg = 0 \<or> tls_settings cfg = 3 \<and> tls_accepted (t_net t))
     \<and> t_faults t = [] \<and> f64_finite (u_cpu_usage (t_usage t))"

lemma fs_read_present:
  "faults s = [] \<Longrightarrow> files s q \<noteq> None \<Longrightarrow> act_map_err g (fs_read q) s = (Inr (the (files s q)), s)"
  by (auto simp: act_map_err_def fs_defs)

lemma connect_good:
  assumes t: "good_turn t cfg" and f: "faults s = []" and q: "\<forall>q \<in> tls_paths cfg. files s q \<noteq> None"
  shows "\<exists>l. connect (t_net t) cfg s = (Inr l, s)"
proof -
  consider "tls_ca cfg = None" "tls_cert cfg = None" "tls_key cfg = None"
    | x y z where "tls_ca cfg = Some x" "tls_cert cfg = Some y" "tls_key cfg = Some z" "tls_accepted (t_net t)"
    using t by (cases "tls_ca cfg"; cases "tls_cert cfg"; cases "tls_key cfg")
      (auto simp: good_turn_def tls_settings_def)
  then show ?thesis
  proof cases
    case 1
    with t show ?thesis by (simp add: connect_def good_turn_def act_ok_def)
  next
    case (2 x y z)
    then have "files s x \<noteq> None" "files s y \<noteq> None" "files s z \<noteq> None"
      using q by (auto simp: tls_paths_def)
    note r = this [THEN fs_read_present [OF f, where g = "\<lambda>_. StateErr []"]]
    from 2 t r show ?thesis by (simp add: connect_def good_turn_def act_try_def act_ok_def)
  qed
qed

text \<open>The control plane's record of a device after a synchronization.\<close>

lemma after_heartbeat_devices:
  "map_option reported_policy_version (get_device k (after_heartbeat env now usage active a r)) =
     (if k = ac_device_id (config a) then Some (show_u64 (policy_version (reported_of a)))
      else map_option reported_policy_version (get_device k r))"
  by (simp add: snd_svc_heartbeat snd_svc_register heartbeat_update_def register_def Let_def
      heartbeat_of_usage_def get_device_def map_of_update)

lemma apply_desired_connected:
  assumes "apply_desired js d a = (r, t)"
  shows "m_control_plane_connected t = m_control_plane_connected a"
proof -
  have i: "m_control_plane_connected v = m_control_plane_connected a" if "ingest js d a = (y, v)" for y v
    by (cases rule: ingest_cases [where js = js and d = d and s = a]) (use that in auto)
  have m: "m_control_plane_connected v = m_control_plane_connected u"
    if "mark_policy_applied js p q u = (y, v)" for p q u y v
    by (cases rule: mark_cases [where js = js and p = p and q = q and s = u]) (use that in auto)
  show ?thesis
    using assms by (auto simp: apply_desired_def act_defs dest!: i m
        split: prod.splits sum.splits ReconcileAction.splits)
qed

lemma good_turn_effect:
  assumes js: "\<forall>x. encode js x \<noteq> None" and t: "good_turn t (config a)"
    and q: "\<forall>q \<in> tls_paths (config a). files a q \<noteq> None"
    and r: "current_policy r = (Some x, sq)" "sq \<noteq> 0" and a: "device_ok (Some x, sq) (reported_of a)"
  shows "\<exists>a'. run_turn js env t ((a, r), b) = ((a', after_heartbeat env (t_now t) (t_usage t) 0 a r), reset b)
     \<and> policy_version (reported_of a') = version x \<and> m_control_plane_connected a' = 1"
proof -
  let ?a = "a\<lparr>faults := []\<rparr>"
  have f: "t_faults t = []" using t by (simp add: good_turn_def)
  obtain l where "connect (t_net t) (config a) ?a = (Inr l, ?a)"
    using connect_good [OF t, of ?a] q by auto
  moreover have "register_call (t_net t) = Delivered" "heartbeat_call (t_net t) = Delivered"
    using t by (simp_all add: good_turn_def)
  ultimately have s: "sync_once js env (t_now t) (t_net t) (t_usage t) 0 (?a, r) =
      on_agent (handle_heartbeat js (current_reply (inner r))) (?a, after_heartbeat env (t_now t) (t_usage t) 0 a r)"
    by (simp add: sync_once_eq)
  let ?c = "?a\<lparr>m_control_plane_connected := 1\<rparr>"
  let ?d = "\<lparr>seq = max sq 1, policy = local_policy (last_good_policy (store a)) x,
    d_software_version = desired_software (inner r)\<rparr>"
  have h: "handle_heartbeat js (current_reply (inner r)) ?a = apply_desired js ?d ?c"
    using r(1) by (simp add: handle_heartbeat_def current_reply_def act_defs current_policy_def)
  have "disk_ok js ?c" using js by (simp add: disk_ok_def)
  then obtain v u where u: "apply_desired js ?d ?c = (Inr v, u)" "reported_of u = reconcile ?d (reported_of ?c)"
    using apply_desired_reliable by blast
  have "policy_version (reported_of u) = version x"
    using device_ok_reconcile(2) [OF a r(2), of ?d] u(2) by (simp add: local_policy_def)
  moreover have "m_control_plane_connected u = 1"
    using apply_desired_connected [OF u(1)] by simp
  ultimately show ?thesis using s h u(1) f by (simp add: run_turn_def on_agent_def)
qed

text \<open>A device shows the control plane's policy; the control plane's record shows it too.\<close>

definition in_sync :: "Policy \<Rightarrow> fleet \<Rightarrow> string \<Rightarrow> bool" where
  "in_sync x w k \<longleftrightarrow> policy_version (reported_of (fst (devs w k))) = version x"

definition recorded :: "Policy \<Rightarrow> fleet \<Rightarrow> string \<Rightarrow> bool" where
  "recorded x w k \<longleftrightarrow> map_option reported_policy_version
     (get_device (ac_device_id (config (fst (devs w k)))) (reg w)) = Some (show_u64 (version x))"

text \<open>A fleet in which a policy has been pushed, and its devices that can be polled.\<close>

definition pollable ::
  "Persisted json \<Rightarrow> reg_env \<Rightarrow> path \<Rightarrow> (string \<Rightarrow> path set) \<Rightarrow> (string \<Rightarrow> turn) \<Rightarrow> string set
     \<Rightarrow> Policy \<times> u64 \<Rightarrow> fleet \<Rightarrow> bool" where
  "pollable js env p Q tn K c w \<longleftrightarrow> fleet_inv js env p Q w \<and> current_policy (reg w) = (Some (fst c), snd c)
     \<and> snd c \<noteq> 0 \<and> unat (snd c) + 1 < 2 ^ 64
     \<and> (\<forall>k \<in> K. good_turn (tn k) (config (fst (devs w k))) \<and> tls_paths (config (fst (devs w k))) \<subseteq> Q k)"

lemma poll_good:
  assumes js: "json_ok js" "\<forall>x. encode js x \<noteq> None" and env: "reg_env_ok env" and p: "tmp_of p \<noteq> p"
    and w: "pollable js env p Q tn K c w" and k: "k \<in> K" and w': "w' = fleet_step js env p (Poll k (tn k)) w"
  shows "pollable js env p Q tn K c w'" and "\<forall>j. config (fst (devs w' j)) = config (fst (devs w j))"
    and "in_sync (fst c) w' k" and "\<forall>j. j \<noteq> k \<longrightarrow> in_sync (fst c) w' j = in_sync (fst c) w j"
    and "in_sync (fst c) w k \<Longrightarrow> recorded (fst c) w' k \<and> (\<forall>j. recorded (fst c) w j \<longrightarrow> recorded (fst c) w' j)"
proof -
  let ?a = "fst (devs w k)"
  have inv: "fleet_inv js env p Q w" and cp: "current_policy (reg w) = (Some (fst c), snd c)"
    and nz: "snd c \<noteq> 0" and b: "unat (policy_seq (inner (reg w))) + 1 < 2 ^ 64"
    and good: "good_turn (tn k) (config ?a)" "tls_paths (config ?a) \<subseteq> Q k"
    using w k by (auto simp: pollable_def current_policy_def)
  have ev: "event_ok (Poll k (tn k))" using good by (simp add: good_turn_def)
  note st = fleet_inv_step [OF js(1) env p inv ev b]
  from st w' show cfg: "\<forall>j. config (fst (devs w' j)) = config (fst (devs w j))" by simp
  show "pollable js env p Q tn K c w'"
    using st w w' cfg by (auto simp: pollable_def desired_kept_def)
  have "\<forall>q \<in> tls_paths (config ?a). files ?a q \<noteq> None" "device_ok (Some (fst c), snd c) (reported_of ?a)"
    using fleet_inv_dev(3) [OF inv, of k] good cp by (auto simp: store_safe_def)
  from good_turn_effect [OF js(2) good(1) this(1) cp nz this(2), of env "snd (devs w k)"]
  obtain a' where run: "run_turn js env (tn k) ((?a, reg w), snd (devs w k)) =
      ((a', after_heartbeat env (t_now (tn k)) (t_usage (tn k)) 0 ?a (reg w)), reset (snd (devs w k)))"
    and v: "policy_version (reported_of a') = version (fst c)" by blast
  have d: "devs w' = (devs w)(k := (a', reset (snd (devs w k))))"
    and r: "reg w' = after_heartbeat env (t_now (tn k)) (t_usage (tn k)) 0 ?a (reg w)"
    using run w' by (simp_all add: set_dev_def)
  show "in_sync (fst c) w' k" using d v by (simp add: in_sync_def)
  show "\<forall>j. j \<noteq> k \<longrightarrow> in_sync (fst c) w' j = in_sync (fst c) w j" using d by (simp add: in_sync_def)
  show "recorded (fst c) w' k \<and> (\<forall>j. recorded (fst c) w j \<longrightarrow> recorded (fst c) w' j)" if "in_sync (fst c) w k"
    using that cfg unfolding recorded_def r after_heartbeat_devices by (auto simp: in_sync_def)
qed

definition polls :: "(string \<Rightarrow> turn) \<Rightarrow> string list \<Rightarrow> fleet_event list" where
  "polls tn ks = map (\<lambda>k. Poll k (tn k)) ks"

lemma polls_in_sync:
  assumes js: "json_ok js" "\<forall>x. encode js x \<noteq> None" and env: "reg_env_ok env" and p: "tmp_of p \<noteq> p"
    and "pollable js env p Q tn K c w" and "set ks \<subseteq> K"
  shows "pollable js env p Q tn K c (fold (fleet_step js env p) (polls tn ks) w)
     \<and> (\<forall>j. in_sync (fst c) w j \<or> j \<in> set ks
          \<longrightarrow> in_sync (fst c) (fold (fleet_step js env p) (polls tn ks) w) j)"
  using assms(5,6)
proof (induction ks arbitrary: w)
  case (Cons k ks)
  define v where "v = fleet_step js env p (Poll k (tn k)) w"
  have k: "k \<in> K" "set ks \<subseteq> K" using Cons.prems(2) by simp_all
  note g = poll_good [OF js env p Cons.prems(1) k(1) v_def]
  have "in_sync (fst c) w j \<or> j \<in> set (k # ks) \<Longrightarrow> in_sync (fst c) v j \<or> j \<in> set ks" for j
    using g(3,4) by (cases "j = k") auto
  moreover have "fold (fleet_step js env p) (polls tn (k # ks)) w = fold (fleet_step js env p) (polls tn ks) v"
    by (simp add: polls_def v_def)
  ultimately show ?case using Cons.IH [OF g(1) k(2)] by (auto simp del: fleet_step.simps)
qed (simp add: polls_def)

lemma polls_recorded:
  assumes js: "json_ok js" "\<forall>x. encode js x \<noteq> None" and env: "reg_env_ok env" and p: "tmp_of p \<noteq> p"
    and "pollable js env p Q tn K c w" and "set ks \<subseteq> K" and "\<forall>k \<in> K. in_sync (fst c) w k"
  shows "\<forall>j. recorded (fst c) w j \<or> j \<in> set ks
     \<longrightarrow> recorded (fst c) (fold (fleet_step js env p) (polls tn ks) w) j"
  using assms(5-)
proof (induction ks arbitrary: w)
  case (Cons k ks)
  define v where "v = fleet_step js env p (Poll k (tn k)) w"
  have k: "k \<in> K" "set ks \<subseteq> K" using Cons.prems(2) by simp_all
  note g = poll_good [OF js env p Cons.prems(1) k(1) v_def]
  have "recorded (fst c) w j \<or> j \<in> set (k # ks) \<Longrightarrow> recorded (fst c) v j \<or> j \<in> set ks" for j
    using g(5) Cons.prems(3) k by (cases "j = k") auto
  moreover have "\<forall>j \<in> K. in_sync (fst c) v j"
  proof
    fix j assume "j \<in> K"
    then show "in_sync (fst c) v j" using g(3,4) Cons.prems(3) by (cases "j = k") auto
  qed
  moreover have "fold (fleet_step js env p) (polls tn (k # ks)) w = fold (fleet_step js env p) (polls tn ks) v"
    by (simp add: polls_def v_def)
  ultimately show ?case using Cons.IH [OF g(1) k(2)] by (auto simp del: fleet_step.simps)
qed (simp add: polls_def)

section \<open>Properties\<close>

text \<open>A fleet before its first day: an empty control plane and devices without a store.\<close>

definition fleet_start :: "path \<Rightarrow> fleet \<Rightarrow> bool" where
  "fleet_start p w \<longleftrightarrow> reg w = reg_boot p (files (reg w)) \<and> files (reg w) p = None \<and>
     (\<forall>k. let a = fst (devs w k); sp = state_path (config a)
          in store a = fresh_store sp \<and> files a sp = None \<and> path_ok sp (tls_paths (config a)))"

lemma fleet_start_inv:
  assumes w: "fleet_start p w"
    and Q: "\<And>k. Q k \<subseteq> tls_paths (config (fst (devs w k))) \<and> (\<forall>q \<in> Q k. files (fst (devs w k)) q \<noteq> None)"
  shows "fleet_inv js env p Q w" and "policy_seq (inner (reg w)) = 0"
proof -
  obtain F where r: "reg w = reg_boot p F" "F p = None"
    using w by (auto simp: fleet_start_def reg_boot_def)
  have "reg_sane env p (reg w)"
    using r reg_boot_inv(1) [of p F] reg_boot_inv(2) [of F p env]
    by (simp add: reg_sane_def) (simp add: reg_boot_def default_inner_def)
  moreover have "store_safe js (device_ok (current_policy (reg w))) (state_path (config (fst (devs w k)))) (Q k)
      (fst (devs w k))" "path_ok (state_path (config (fst (devs w k)))) (Q k)" for k
    using w Q [of k] r unfolding fleet_start_def Let_def store_safe_def path_ok_def
    by (auto simp: fresh_store_def reopen_def device_ok_def default_reported_def current_policy_def
        reg_boot_def default_inner_def)
  ultimately show "fleet_inv js env p Q w" by (simp add: fleet_inv_def)
  show "policy_seq (inner (reg w)) = 0" using r by (simp add: reg_boot_def default_inner_def)
qed

text \<open>
  C5. No device is ever ahead of the control plane or disagrees with it: start an empty control
  plane (on a disk that works) and a fleet of new devices, and let operators push desired
  states, devices poll and watch over a lossy network with failing disks, and devices and the
  control plane restart, in any order. Then every device's applied sequence number is at
  most the control plane's, and if it is equal the device reports exactly the desired policy
  version, in memory and in what its next restart would read.
\<close>

theorem fleet_never_diverges:
  assumes "json_ok js" and "reg_env_ok env" and "tmp_of p \<noteq> p" and "fleet_start p w0"
    and "list_all event_ok es" and "length es < 2 ^ 64"
    and "w = fold (fleet_step js env p) es w0" and "a = fst (devs w k)"
    and "st = store a \<or> reopen js (state_path (config a)) (files a) = Some st"
  shows "applied_seq (reported st) \<le> policy_seq (inner (reg w))
     \<and> (applied_seq (reported st) = policy_seq (inner (reg w)) \<and> in_policy (inner (reg w)) = Some x
        \<longrightarrow> policy_version (reported st) = version x)"
proof -
  have "fleet_inv js env p (\<lambda>_. {}) w"
    using fleet_inv_run [OF assms(1-3) fleet_start_inv(1) [OF assms(4)] assms(5), of "\<lambda>_. {}"]
      fleet_start_inv(2) [OF assms(4), of "\<lambda>_. {}"] assms(6,7) by simp
  then have "device_ok (current_policy (reg w)) (reported st)"
    using assms(8,9) fleet_inv_dev(3) [of js env p _ w k] by (auto simp: store_safe_def)
  then show ?thesis by (simp add: device_ok_def current_policy_def)
qed

text \<open>
  C1. The fleet converges: after any such history (partitions, lost replies, failed disks,
  restarts, stale and duplicated deliveries) in which some policy is desired at the end, poll
  the devices of a list twice without failures. Then the desired state has not changed, every
  device of the list reports the desired policy version, and the control plane's own record
  of each of them says so.
\<close>

theorem fleet_converges:
  assumes "json_ok js" and "\<forall>x. encode js x \<noteq> None" and "reg_env_ok env" and "tmp_of p \<noteq> p"
    and start: "fleet_start p w0" and "list_all event_ok es" and "length es + 1 < 2 ^ 64"
    and w: "w = fold (fleet_step js env p) es w0" and x: "current_policy (reg w) = (Some x, sq)"
    and good: "\<forall>k \<in> set ks. good_turn (tn k) (config (fst (devs w0 k)))
       \<and> (\<forall>q \<in> tls_paths (config (fst (devs w0 k))). files (fst (devs w0 k)) q \<noteq> None)"
    and w': "w' = fold (fleet_step js env p) (polls tn (ks @ ks)) w"
  shows "current_policy (reg w') = (Some x, sq) \<and> (\<forall>k \<in> set ks. in_sync x w' k \<and> recorded x w' k)"
proof -
  let ?Q = "\<lambda>k. if k \<in> set ks then tls_paths (config (fst (devs w0 k))) else {}"
  have Q: "?Q k \<subseteq> tls_paths (config (fst (devs w0 k))) \<and> (\<forall>q \<in> ?Q k. files (fst (devs w0 k)) q \<noteq> None)" for k
    using good by auto
  have inv: "fleet_inv js env p ?Q w \<and> unat (policy_seq (inner (reg w))) \<le> length es
      \<and> (\<forall>k. config (fst (devs w k)) = config (fst (devs w0 k)))"
    using fleet_inv_run [OF assms(1,3,4) fleet_start_inv(1) [OF start Q] assms(6)]
      fleet_start_inv(2) [OF start Q] assms(7) w by simp
  then have "sq \<noteq> 0" "unat sq + 1 < 2 ^ 64"
    using x assms(7) fleet_inv_dev(1) [of js env p ?Q w] by (auto simp: reg_sane_def current_policy_def)
  then have 0: "pollable js env p ?Q tn (set ks) (x, sq) w"
    using inv x good by (simp add: pollable_def)
  let ?v = "fold (fleet_step js env p) (polls tn ks) w"
  have 1: "pollable js env p ?Q tn (set ks) (x, sq) ?v \<and> (\<forall>k \<in> set ks. in_sync x ?v k)"
    using polls_in_sync [OF assms(1-4) 0, of ks] by auto
  have e: "w' = fold (fleet_step js env p) (polls tn ks) ?v" using w' by (simp add: polls_def)
  have 2: "pollable js env p ?Q tn (set ks) (x, sq) w' \<and> (\<forall>k \<in> set ks. in_sync x w' k)"
    unfolding e using polls_in_sync [OF assms(1-4), of ?Q tn "set ks" "(x, sq)" ?v ks] 1 by auto
  have 3: "\<forall>k \<in> set ks. recorded x w' k"
    unfolding e using polls_recorded [OF assms(1-4), of ?Q tn "set ks" "(x, sq)" ?v ks] 1 by auto
  from 2 3 show ?thesis by (simp add: pollable_def)
qed

text \<open>
  C25. The watch stream converges in one exchange: a device that satisfies the fleet invariant
  and whose report reaches the control plane and is answered, on a disk that works, reports
  the desired policy version afterwards, whether the control plane answered with the policy
  or, finding the device up to date, with a no-op.
\<close>

theorem watch_exchange_converges:
  assumes "\<forall>x. encode js x \<noteq> None" and c: "current_policy r = (Some x, sq)" "sq \<noteq> 0"
    and a: "device_ok (Some x, sq) (reported_of a)"
    and "t_faults t = []" and conn: "connect (t_net t) (config a) (a\<lparr>faults := []\<rparr>) = (Inr l, a1)"
    and "faults a1 = []" and "watch_call (t_net t) = Delivered"
    and run: "watch_turn js t ((a, r), b) = ((a', r'), b')"
  shows "policy_version (reported_of a') = version x \<and> current_policy r' = (Some x, sq)"
proof -
  obtain G where a1: "a1 = a\<lparr>faults := G\<rparr>" using connect_state [of "t_net t" "config a" "a\<lparr>faults := []\<rparr>"] conn by auto
  obtain cmd r1 where w: "watch_reply (t_now t) (edge_report (t_usage t) a1) r = (cmd, r1)" by fastforce
  have r': "r' = r1" "a' = note_disconnected (handle_command js cmd a1)"
    using run conn w assms(5,8) by (auto simp: watch_turn_def)
  let ?u = "usage_update (t_usage t) 0 a1"
  have h: "current_policy (snd (heartbeat_update (t_now t) ?u r)) = (Some x, sq)"
    using c by (auto simp: heartbeat_update_def current_policy_def Let_def split: option.splits)
  have cmd: "cmd = (if applied_seq (reported_of a) < sq \<and> policy_version (reported_of a) \<noteq> version x
      then \<lparr>cc_seq = sq, cc_command = Some (PolicyUpdate (Some x))\<rparr>
      else \<lparr>cc_seq = applied_seq (reported_of a), cc_command = Some NoopCommand\<rparr>)"
    and r1: "current_policy r1 = (Some x, sq)"
    using w h by (auto simp: watch_reply_def Let_def edge_report_def a1 parse_show_u64 split: if_splits)
  show ?thesis
  proof (cases "applied_seq (reported_of a) < sq \<and> policy_version (reported_of a) \<noteq> version x")
    case True
    let ?d = "\<lparr>seq = max sq 1, policy = x, d_software_version = []\<rparr>"
    have "disk_ok js a1" using assms(1,7) by (simp add: disk_ok_def)
    then have "reported_of (watch_apply js ?d a1) = reconcile ?d (reported_of a1)"
      using watch_apply_reliable by blast
    then have "policy_version (reported_of a') = version x"
      using device_ok_reconcile(2) [OF a c(2), of ?d] r'(2) cmd True a1 by (simp add: handle_command_def)
    with r1 r' show ?thesis by simp
  next
    case False
    then have "policy_version (reported_of a) = version x" using a by (auto simp: device_ok_def)
    with False r' cmd r1 a1 show ?thesis by (simp add: handle_command_def)
  qed
qed

end
