(* ===== verification/Socket_Addr.thy ===== *)
theory Socket_Addr
  imports Rust_Std
begin

text \<open>
  \<open>str::parse::<SocketAddr>\<close> of Rust's standard library (\<open>core::net::parser\<close>), which the
  binaries use for their listen addresses and to tell a literal upstream from a host name.
  A parser takes the input and gives a value with the rest, or nothing; a parser that gives
  nothing has consumed nothing.
\<close>

section \<open>Addresses\<close>

type_synonym u16 = "16 word"
type_synonym ipv4 = "u8 \<times> u8 \<times> u8 \<times> u8"

datatype socket_addr = SocketV4 ipv4 u16 | SocketV6 "u16 list" u32 u16

section \<open>Parsers\<close>

type_synonym 'a parser = "string \<Rightarrow> ('a \<times> string) option"

fun read_given_char :: "char \<Rightarrow> unit parser" where
  "read_given_char c [] = None"
| "read_given_char c (x # xs) = (if x = c then Some ((), xs) else None)"

text \<open>From the second item on, a separator comes first.\<close>

definition read_separator :: "char \<Rightarrow> nat \<Rightarrow> 'a parser \<Rightarrow> 'a parser" where
  "read_separator sep index inner s =
     (if index = 0 then inner s
      else case read_given_char sep s of None \<Rightarrow> None | Some (_, r) \<Rightarrow> inner r)"

definition to_digit :: "nat \<Rightarrow> char \<Rightarrow> nat option" where
  "to_digit radix c =
     (let n = code_of c;
          d = (if 48 \<le> n \<and> n \<le> 57 then Some (n - 48)
               else if 97 \<le> n \<and> n \<le> 122 then Some (n - 87)
               else if 65 \<le> n \<and> n \<le> 90 then Some (n - 55) else None)
      in case d of None \<Rightarrow> None | Some v \<Rightarrow> if v < radix then Some v else None)"

definition is_digit :: "nat \<Rightarrow> char \<Rightarrow> bool" where
  "is_digit radix c \<longleftrightarrow> to_digit radix c \<noteq> None"

definition radix_val :: "nat \<Rightarrow> string \<Rightarrow> nat" where
  "radix_val radix ds = foldl (\<lambda>acc c. acc * radix + (case to_digit radix c of None \<Rightarrow> 0 | Some v \<Rightarrow> v)) 0 ds"

text \<open>
  All digits are read; too many of them, none, a leading zero where that is refused, or a
  number that does not fit make it fail.
\<close>

definition read_number :: "nat \<Rightarrow> nat option \<Rightarrow> bool \<Rightarrow> ('n::len word) parser" where
  "read_number radix max_digits allow_zero_prefix s =
     (let ds = takeWhile (is_digit radix) s; v = radix_val radix ds
      in if ds = [] \<or> (case max_digits of None \<Rightarrow> False | Some m \<Rightarrow> m < length ds)
            \<or> \<not> allow_zero_prefix \<and> hd ds = CHR ''0'' \<and> 1 < length ds
            \<or> 2 ^ LENGTH('n) \<le> v
         then None else Some (of_nat v, dropWhile (is_digit radix) s))"

definition read_octet :: "nat \<Rightarrow> u8 parser" where
  "read_octet i = read_separator (CHR ''.'') i (read_number 10 (Some 3) False)"

definition read_ipv4_addr :: "ipv4 parser" where
  "read_ipv4_addr s =
     (case read_octet 0 s of None \<Rightarrow> None | Some (a, s1) \<Rightarrow>
      case read_octet 1 s1 of None \<Rightarrow> None | Some (b, s2) \<Rightarrow>
      case read_octet 2 s2 of None \<Rightarrow> None | Some (c, s3) \<Rightarrow>
      case read_octet 3 s3 of None \<Rightarrow> None | Some (d, s4) \<Rightarrow> Some ((a, b, c, d), s4))"

definition from_be_bytes :: "u8 \<Rightarrow> u8 \<Rightarrow> u16" where
  "from_be_bytes hi lo = ucast hi * 256 + ucast lo"

text \<open>
  The groups of an IPv6 address up to a limit, whether they ended in an embedded IPv4 address
  (which takes two groups), and the rest.
\<close>

function read_groups :: "nat \<Rightarrow> nat \<Rightarrow> string \<Rightarrow> u16 list \<times> bool \<times> string" where
  "read_groups limit i s =
     (if limit \<le> i then ([], False, s)
      else case (if i + 1 < limit then read_separator (CHR '':'') i read_ipv4_addr s else None) of
             Some ((a, b, c, d), r) \<Rightarrow> ([from_be_bytes a b, from_be_bytes c d], True, r)
           | None \<Rightarrow>
               (case read_separator (CHR '':'') i (read_number 16 (Some 4) True) s of
                  None \<Rightarrow> ([], False, s)
                | Some (g, r) \<Rightarrow> (case read_groups limit (i + 1) r of (gs, v4, r') \<Rightarrow> (g # gs, v4, r'))))"
  by pat_completeness auto
termination by (relation "measure (\<lambda>(limit, i, s). limit - i)") auto

declare read_groups.simps [simp del]

definition read_ipv6_addr :: "(u16 list) parser" where
  "read_ipv6_addr s =
     (case read_groups 8 0 s of (head, head_ipv4, r) \<Rightarrow>
        if length head = 8 then Some (head, r)
        else if head_ipv4 then None
        else case read_given_char (CHR '':'') r of None \<Rightarrow> None | Some (_, r1) \<Rightarrow>
             case read_given_char (CHR '':'') r1 of None \<Rightarrow> None | Some (_, r2) \<Rightarrow>
             case read_groups (8 - (length head + 1)) 0 r2 of (tail, _, r3) \<Rightarrow>
               Some (head @ replicate (8 - length head - length tail) 0 @ tail, r3))"

definition read_port :: "u16 parser" where
  "read_port s = (case read_given_char (CHR '':'') s of None \<Rightarrow> None | Some (_, r) \<Rightarrow> read_number 10 None True r)"

definition read_scope_id :: "u32 parser" where
  "read_scope_id s = (case read_given_char (CHR ''%'') s of None \<Rightarrow> None | Some (_, r) \<Rightarrow> read_number 10 None True r)"

definition read_socket_addr_v4 :: "socket_addr parser" where
  "read_socket_addr_v4 s =
     (case read_ipv4_addr s of None \<Rightarrow> None | Some (ip, r) \<Rightarrow>
      case read_port r of None \<Rightarrow> None | Some (port, r') \<Rightarrow> Some (SocketV4 ip port, r'))"

definition read_socket_addr_v6 :: "socket_addr parser" where
  "read_socket_addr_v6 s =
     (case read_given_char (CHR ''['') s of None \<Rightarrow> None | Some (_, r1) \<Rightarrow>
      case read_ipv6_addr r1 of None \<Rightarrow> None | Some (ip, r2) \<Rightarrow>
      case (case read_scope_id r2 of None \<Rightarrow> (0, r2) | Some x \<Rightarrow> x) of (scope, r3) \<Rightarrow>
      case read_given_char (CHR '']'') r3 of None \<Rightarrow> None | Some (_, r4) \<Rightarrow>
      case read_port r4 of None \<Rightarrow> None | Some (port, r5) \<Rightarrow> Some (SocketV6 ip scope port, r5))"

text \<open>The whole string has to be read.\<close>

definition parse_socket_addr :: "string \<Rightarrow> socket_addr option" where
  "parse_socket_addr s =
     (case (case read_socket_addr_v4 s of None \<Rightarrow> read_socket_addr_v6 s | Some x \<Rightarrow> Some x) of
        None \<Rightarrow> None
      | Some (a, r) \<Rightarrow> if r = [] then Some a else None)"

section \<open>Texts\<close>

text \<open>
  One text of each address: the dotted form, and the form with all eight hexadecimal groups. (Rust
  prints a run of zero groups as two colons; the parser reads both.)
\<close>

definition hex_char :: "nat \<Rightarrow> char" where
  "hex_char d = ''0123456789abcdef'' ! d"

fun show_hex :: "nat \<Rightarrow> string" where
  "show_hex n = (if n < 16 then [hex_char n] else show_hex (n div 16) @ [hex_char (n mod 16)])"

declare show_hex.simps [simp del]

fun show_ipv4 :: "ipv4 \<Rightarrow> string" where
  "show_ipv4 (a, b, c, d) = join_on (CHR ''.'') (map (\<lambda>x. show_nat (unat x)) [a, b, c, d])"

definition show_groups :: "u16 list \<Rightarrow> string" where
  "show_groups gs = join_on (CHR '':'') (map (\<lambda>g. show_hex (unat g)) gs)"

fun show_socket_addr :: "socket_addr \<Rightarrow> string" where
  "show_socket_addr (SocketV4 ip port) = show_ipv4 ip @ '':'' @ show_nat (unat port)"
| "show_socket_addr (SocketV6 gs scope port) =
     ''['' @ show_groups gs @ (if scope = 0 then [] else ''%'' @ show_nat (unat scope)) @ '']:'' @ show_nat (unat port)"

section \<open>Lemmas\<close>

text \<open>What makes a numeral readable: digits only, and no superfluous zero in front.\<close>

definition numeral_of :: "nat \<Rightarrow> nat \<Rightarrow> string \<Rightarrow> bool" where
  "numeral_of radix n ds \<longleftrightarrow> ds \<noteq> [] \<and> list_all (is_digit radix) ds \<and> radix_val radix ds = n
     \<and> (hd ds = CHR ''0'' \<longrightarrow> length ds = 1)"

definition stops :: "nat \<Rightarrow> string \<Rightarrow> bool" where
  "stops radix r \<longleftrightarrow> r = [] \<or> \<not> is_digit radix (hd r)"

lemma stops_simps [simp]: "stops radix []" "stops radix (c # r) \<longleftrightarrow> \<not> is_digit radix c"
  by (simp_all add: stops_def)

lemma read_number_numeral:
  assumes "numeral_of radix n ds" and "stops radix r" and "n < 2 ^ LENGTH('n::len)"
    and "\<And>m. md = Some m \<Longrightarrow> length ds \<le> m"
  shows "read_number radix md zp (ds @ r) = Some (of_nat n :: 'n word, r)"
proof -
  have d: "\<And>x. x \<in> set ds \<Longrightarrow> is_digit radix x" using assms(1) by (simp add: numeral_of_def list_all_iff)
  then have "takeWhile (is_digit radix) (ds @ r) = ds" "dropWhile (is_digit radix) (ds @ r) = r"
    using assms(2) by (cases r; simp add: stops_def)+
  with assms show ?thesis by (auto simp: read_number_def numeral_of_def Let_def split: option.splits)
qed

lemma radix_val_snoc:
  "radix_val radix (ds @ [c]) = radix_val radix ds * radix + (case to_digit radix c of None \<Rightarrow> 0 | Some v \<Rightarrow> v)"
  by (simp add: radix_val_def)

lemma to_digit_char: "d < 10 \<Longrightarrow> to_digit 10 (digit_char d) = Some d"
proof -
  assume "d < 10"
  then have "d \<in> {0,1,2,3,4,5,6,7,8,9}" by auto
  then show ?thesis by (auto simp: digit_char_def to_digit_def)
qed

lemma to_digit_hex: "d < 16 \<Longrightarrow> to_digit 16 (hex_char d) = Some d"
proof -
  assume "d < 16"
  then have "d = 0 \<or> d = 1 \<or> d = 2 \<or> d = 3 \<or> d = 4 \<or> d = 5 \<or> d = 6 \<or> d = 7 \<or> d = 8 \<or> d = 9
      \<or> d = 10 \<or> d = 11 \<or> d = 12 \<or> d = 13 \<or> d = 14 \<or> d = 15" by arith
  then show ?thesis by (elim disjE) (simp_all add: hex_char_def to_digit_def)
qed

text \<open>A numeral grows by one digit at its end.\<close>

lemma numeral_of_digit: "to_digit radix c = Some d \<Longrightarrow> numeral_of radix d [c]"
  by (simp add: numeral_of_def is_digit_def radix_val_def)

lemma numeral_of_snoc:
  assumes "numeral_of radix n ds" and "to_digit radix c = Some d" and "0 < n"
  shows "numeral_of radix (n * radix + d) (ds @ [c])"
proof -
  have "hd ds \<noteq> CHR ''0''"
  proof
    assume "hd ds = CHR ''0''"
    then have "ds = [CHR ''0'']" using assms(1) by (cases ds) (auto simp: numeral_of_def)
    then have "radix_val radix ds = 0" by (simp add: radix_val_def to_digit_def split: option.splits)
    then show False using assms(1,3) by (simp add: numeral_of_def)
  qed
  then show ?thesis using assms(1,2) by (simp add: numeral_of_def is_digit_def radix_val_snoc)
qed

lemma numeral_show_nat: "numeral_of 10 n (show_nat n)"
proof (induction n rule: show_nat.induct)
  case (1 n)
  show ?case
  proof (cases "n < 10")
    case True
    then show ?thesis using numeral_of_digit [OF to_digit_char] by (simp add: show_nat.simps [of n])
  next
    case False
    with numeral_of_snoc [OF 1 to_digit_char [of "n mod 10"]] show ?thesis
      by (simp add: show_nat.simps [of n] div_greater_zero_iff)
  qed
qed

lemma numeral_show_hex: "numeral_of 16 n (show_hex n)"
proof (induction n rule: show_hex.induct)
  case (1 n)
  show ?case
  proof (cases "n < 16")
    case True
    then show ?thesis using numeral_of_digit [OF to_digit_hex] by (simp add: show_hex.simps [of n])
  next
    case False
    with numeral_of_snoc [OF 1 to_digit_hex [of "n mod 16"]] show ?thesis
      by (simp add: show_hex.simps [of n] div_greater_zero_iff)
  qed
qed

lemma show_hex_length: "n < 16 ^ d \<Longrightarrow> 0 < d \<Longrightarrow> length (show_hex n) \<le> d"
proof (induction n arbitrary: d rule: show_hex.induct)
  case (1 n)
  show ?case
  proof (cases "n < 16")
    case False
    then have "1 < d" using 1(2,3) by (cases d) (auto simp: not_less_eq_eq intro: ccontr)
    moreover from this have "n div 16 < 16 ^ (d - 1)"
      using 1(2) by (cases d) (simp_all add: less_mult_imp_div_less mult.commute)
    ultimately show ?thesis using 1(1) [of "d - 1"] False by (simp add: show_hex.simps [of n])
  qed (use 1(3) in \<open>simp add: show_hex.simps [of n]\<close>)
qed

lemma read_decimal:
  fixes w :: "'n::len word"
  assumes "stops 10 r" and "\<And>m. md = Some m \<Longrightarrow> length (show_nat (unat w)) \<le> m"
  shows "read_number 10 md zp (show_nat (unat w) @ r) = Some (w, r)"
  using read_number_numeral [OF numeral_show_nat assms(1), of "unat w" md zp, where 'n = 'n] assms(2)
  by (simp add: unsigned_less)

lemma octet_length: "length (show_nat (unat (a :: u8))) \<le> 3"
  using unsigned_less [of a, where 'a = nat] by (intro show_nat_length) simp_all

lemma read_octet_show:
  assumes "stops 10 r"
  shows "read_octet 0 (show_nat (unat a) @ r) = Some (a, r)"
    and "0 < i \<Longrightarrow> read_octet i (CHR ''.'' # show_nat (unat a) @ r) = Some (a, r)"
  using read_decimal [OF assms, of "Some 3" a False] octet_length
  by (simp_all add: read_octet_def read_separator_def)

lemma not_digit [simp]:
  "\<not> is_digit 10 (CHR ''.'')" "\<not> is_digit 10 (CHR '':'')" "\<not> is_digit 10 (CHR '']'')" "\<not> is_digit 10 (CHR ''['')"
  "\<not> is_digit 16 (CHR '':'')" "\<not> is_digit 16 (CHR '']'')" "\<not> is_digit 16 (CHR ''%'')"
  by (simp_all add: is_digit_def to_digit_def)

lemma read_ipv4_show: "stops 10 r \<Longrightarrow> read_ipv4_addr (show_ipv4 ip @ r) = Some (ip, r)"
  by (cases ip) (simp add: read_ipv4_addr_def read_octet_show)

lemma read_port_show: "read_port (CHR '':'' # show_nat (unat w)) = Some (w, [])"
  using read_decimal [of "[]" None w True] by (simp add: read_port_def)

text \<open>A hexadecimal group is not mistaken for the start of an embedded IPv4 address.\<close>

lemma no_ipv4:
  assumes "dropWhile (is_digit 10) s = [] \<or> hd (dropWhile (is_digit 10) s) \<noteq> CHR ''.''"
  shows "read_ipv4_addr s = None"
proof -
  have 0: "r = dropWhile (is_digit 10) s" if "read_octet 0 s = Some (a, r)" for a r
    using that by (auto simp: read_octet_def read_separator_def read_number_def Let_def split: if_splits)
  have "read_octet 1 t = None" if "t = [] \<or> hd t \<noteq> CHR ''.''" for t
    using that by (cases t) (auto simp: read_octet_def read_separator_def)
  with assms have "read_octet 1 (dropWhile (is_digit 10) s) = None" by blast
  then show ?thesis by (auto simp: read_ipv4_addr_def dest: 0 split: option.splits)
qed

lemma dropWhile_no_dot:
  "CHR ''.'' \<notin> set xs \<Longrightarrow> y \<noteq> CHR ''.'' \<Longrightarrow> \<not> P y \<Longrightarrow> hd (dropWhile P (xs @ y # ys)) \<noteq> CHR ''.''"
  by (induction xs) auto

lemma show_hex_no_dot: "CHR ''.'' \<notin> set (show_hex n)"
proof
  assume "CHR ''.'' \<in> set (show_hex n)"
  then have "is_digit 16 (CHR ''.'')" using numeral_show_hex [of n] by (simp add: numeral_of_def list_all_iff)
  then show False by (simp add: is_digit_def to_digit_def)
qed

lemma hex_not_ipv4: "read_ipv4_addr (show_hex n @ CHR '':'' # r) = None"
  using dropWhile_no_dot [OF show_hex_no_dot, of "CHR '':''"] by (intro no_ipv4) simp

lemma read_group_show:
  assumes "stops 16 r"
  shows "read_number 16 (Some 4) True (show_hex (unat (g :: u16)) @ r) = Some (g, r)"
proof -
  have "unat g < 16 ^ 4" "unat g < 2 ^ LENGTH(16)" using unsigned_less [of g, where 'a = nat] by simp_all
  with show_hex_length [of "unat g" 4] read_number_numeral [OF numeral_show_hex assms, of "unat g" "Some 4" True, where 'n = 16]
  show ?thesis by simp
qed

lemma show_groups_Cons:
  "show_groups [g] = show_hex (unat g)"
  "show_groups (g # h # gs) = show_hex (unat g) @ CHR '':'' # show_groups (h # gs)"
  by (simp_all add: show_groups_def)

lemma read_groups_show:
  assumes "stops 16 r" and "gs \<noteq> []" and "i + length gs = 8"
  shows "read_groups 8 i ((if i = 0 then [] else '':'') @ show_groups gs @ r) = (gs, False, r)"
  using assms(2,3)
proof (induction gs arbitrary: i)
  case (Cons g gs)
  show ?case
  proof (cases gs)
    case Nil
    then show ?thesis
      using Cons.prems read_group_show [OF assms(1), of g]
      by (simp add: show_groups_Cons read_groups.simps [of 8 i] read_groups.simps [of 8 7] read_groups.simps [of 8 8] read_separator_def)
  next
    case (Cons h hs)
    then have "read_groups 8 (i + 1) (CHR '':'' # show_groups gs @ r) = (gs, False, r)"
      using Cons.IH [of "i + 1"] Cons.prems(2) by simp
    moreover have "read_number 16 (Some 4) True (show_hex (unat g) @ CHR '':'' # show_groups gs @ r)
        = Some (g, CHR '':'' # show_groups gs @ r)"
      by (rule read_group_show) simp
    ultimately show ?thesis
      using Cons Cons.prems hex_not_ipv4
      by (cases "i = 0") (simp_all add: show_groups_Cons read_groups.simps [of 8 i] read_groups.simps [of 8 0] read_separator_def)
  qed
qed simp

text \<open>
  A literal address is read back from its text, of either family.
\<close>

definition socket_addr_ok :: "socket_addr \<Rightarrow> bool" where
  "socket_addr_ok a \<longleftrightarrow> (case a of SocketV4 _ _ \<Rightarrow> True | SocketV6 gs _ _ \<Rightarrow> length gs = 8)"

lemma parse_show_v4: "parse_socket_addr (show_socket_addr (SocketV4 ip port)) = Some (SocketV4 ip port)"
  using read_ipv4_show [of "CHR '':'' # show_nat (unat port)" ip] read_port_show [of port]
  by (simp add: parse_socket_addr_def read_socket_addr_v4_def)

lemma parse_show_v6:
  assumes "length gs = 8"
  shows "parse_socket_addr (show_socket_addr (SocketV6 gs scope port)) = Some (SocketV6 gs scope port)"
proof -
  let ?p = "CHR '':'' # show_nat (unat port)"
  let ?r = "(if scope = 0 then [] else ''%'' @ show_nat (unat scope)) @ CHR '']'' # ?p"
  have 4: "read_socket_addr_v4 (CHR ''['' # s) = None" for s
    using no_ipv4 [of "CHR ''['' # s"] by (simp add: read_socket_addr_v4_def)
  have "stops 16 ?r" by simp
  from read_groups_show [OF this, of gs 0] have "read_groups 8 0 (show_groups gs @ ?r) = (gs, False, ?r)"
    using assms by force
  then have ip: "read_ipv6_addr (show_groups gs @ ?r) = Some (gs, ?r)" using assms by (simp add: read_ipv6_addr_def)
  have "read_number 10 None True (show_nat (unat scope) @ CHR '']'' # ?p) = Some (scope, CHR '']'' # ?p)"
    by (rule read_decimal) simp_all
  then have "(case read_scope_id ?r of None \<Rightarrow> (0, ?r) | Some x \<Rightarrow> x) = (scope, CHR '']'' # ?p)"
    by (simp add: read_scope_id_def)
  then have "read_socket_addr_v6 (CHR ''['' # show_groups gs @ ?r) = Some (SocketV6 gs scope port, [])"
    using ip read_port_show [of port] by (simp add: read_socket_addr_v6_def)
  then show ?thesis using 4 by (simp add: parse_socket_addr_def)
qed

lemma parse_show_socket_addr: "socket_addr_ok a \<Longrightarrow> parse_socket_addr (show_socket_addr a) = Some a"
  using parse_show_v4 parse_show_v6 by (cases a) (simp_all add: socket_addr_ok_def del: show_socket_addr.simps)

end
