(* ===== verification/Edge_Proxy.thy ===== *)
theory Edge_Proxy
  imports Backoff Socket_Addr
begin

text \<open>
  The TCP dataplane of \<open>crates/edge-proxy\<close>: the configuration, the shared counters, the
  connection handler as the sequence of its atomic operations, and the server as the
  interleaving of its connection tasks. Tokio's \<open>Semaphore\<close> is a parameter with its documented
  behaviour (\<open>sem_ok\<close>); what a connection attempt and a relay end with comes from the
  environment. When they end is the subject of \<open>Proxy_Clock\<close>.
\<close>

section \<open>Configuration\<close>

record 'addr ProxyConfig =
  listen_addr :: 'addr
  upstream_addr :: 'addr
  pc_max_connections :: u64
  connect_timeout_secs :: u64
  pc_idle_timeout_secs :: u64
  transparent :: bool

definition default_max_connections :: u64 where
  "default_max_connections = 512"

definition default_connect_timeout_secs :: u64 where
  "default_connect_timeout_secs = 5"

definition default_idle_timeout_secs :: u64 where
  "default_idle_timeout_secs = 300"

text \<open>The default parses its addresses and panics if they are not addresses.\<close>

definition default_proxy_config :: "socket_addr ProxyConfig option" where
  "default_proxy_config =
     Option.bind (parse_socket_addr ''127.0.0.1:18080'') (\<lambda>l.
     Option.bind (parse_socket_addr ''127.0.0.1:18081'') (\<lambda>u.
     Some \<lparr>listen_addr = l, upstream_addr = u,
       pc_max_connections = default_max_connections, connect_timeout_secs = default_connect_timeout_secs,
       pc_idle_timeout_secs = default_idle_timeout_secs, transparent = False\<rparr>))"

definition connect_timeout :: "'addr ProxyConfig \<Rightarrow> duration" where
  "connect_timeout cfg = from_secs (connect_timeout_secs cfg)"

definition idle_timeout :: "'addr ProxyConfig \<Rightarrow> duration" where
  "idle_timeout cfg = from_secs (pc_idle_timeout_secs cfg)"

section \<open>Counters and server\<close>

record ConnectionCounters =
  c_total :: u64
  c_active :: u64
  c_refused_over_limit :: u64
  c_errors :: u64
  c_bytes_in :: u64
  c_bytes_out :: u64

definition default_counters :: ConnectionCounters where
  "default_counters = \<lparr>c_total = 0, c_active = 0, c_refused_over_limit = 0, c_errors = 0,
     c_bytes_in = 0, c_bytes_out = 0\<rparr>"

text \<open>The semaphore: \<open>new\<close> panics (\<open>None\<close>) above its maximum.\<close>

record 'm semaphore =
  sem_new :: "u64 \<Rightarrow> 'm option"
  try_acquire :: "'m \<Rightarrow> 'm option"
  add_permit :: "'m \<Rightarrow> 'm"

definition sem_ok :: "'m semaphore \<Rightarrow> ('m \<Rightarrow> nat) \<Rightarrow> bool" where
  "sem_ok S av \<longleftrightarrow>
     (\<forall>n. case sem_new S n of None \<Rightarrow> 2 ^ 61 \<le> unat n | Some m \<Rightarrow> unat n < 2 ^ 61 \<and> av m = unat n) \<and>
     (\<forall>m. case try_acquire S m of None \<Rightarrow> av m = 0 | Some m' \<Rightarrow> av m = Suc (av m')) \<and>
     (\<forall>m. av (add_permit S m) = Suc (av m))"

record 'm server =
  counters :: ConnectionCounters
  sem :: 'm

definition ProxyServer_new :: "'m semaphore \<Rightarrow> 'addr ProxyConfig \<Rightarrow> 'm server option" where
  "ProxyServer_new S cfg =
     map_option (\<lambda>m. \<lparr>counters = default_counters, sem = m\<rparr>) (sem_new S (max (pc_max_connections cfg) 1))"

record ProxyStats =
  ps_total :: u64
  ps_active :: u64
  ps_refused_over_limit :: u64
  ps_errors :: u64
  ps_bytes_in :: u64
  ps_bytes_out :: u64

definition stats :: "'m server \<Rightarrow> ProxyStats" where
  "stats s = (let c = counters s in
     \<lparr>ps_total = c_total c, ps_active = c_active c, ps_refused_over_limit = c_refused_over_limit c,
      ps_errors = c_errors c, ps_bytes_in = c_bytes_in c, ps_bytes_out = c_bytes_out c\<rparr>)"

section \<open>The connection handler\<close>

text \<open>
  Where a connection task stands: before each of the atomic operations of \<open>handle_one\<close> and
  \<open>relay\<close>. The wait for the upstream and the relay itself end as the environment decides.
  A finished task remembers how it ended.
\<close>

datatype conn_result = Refused | ConnectFailed | RelayFailed | IdleClosed | Relayed u64 u64

datatype pc =
    TryAcquire
  | IncRefused | IncRefusedErrors
  | IncTotal | IncActive
  | Connecting | ConnectErr
  | Relaying | AddIn u64 u64 | AddOut u64 u64 | RelayErr
  | DecActive conn_result | DropPermit conn_result
  | Finished conn_result

text \<open>Results of \<open>timeout(connect)\<close> and of \<open>timeout(copy_bidirectional)\<close>.\<close>

datatype connect_outcome = ConnectOk | ConnectFails | ConnectTimeout

datatype relay_outcome = CopyOk u64 u64 | CopyErr | RelayTimeout

datatype outcome = ForConnect connect_outcome | ForRelay relay_outcome | Auto

definition fetch_add ::
  "(ConnectionCounters \<Rightarrow> ConnectionCounters) \<Rightarrow> 'm server \<Rightarrow> 'm server" where
  "fetch_add f s = s\<lparr>counters := f (counters s)\<rparr>"

text \<open>\<open>relay\<close> after the copy has ended: the byte counters are touched only on success.\<close>

definition relay_result :: "relay_outcome \<Rightarrow> pc" where
  "relay_result res = (case res of
       CopyOk c2u u2c \<Rightarrow> AddIn c2u u2c
     | CopyErr \<Rightarrow> RelayErr
     | RelayTimeout \<Rightarrow> DecActive IdleClosed)"

fun handle_one :: "'m semaphore \<Rightarrow> outcome \<Rightarrow> pc \<Rightarrow> 'm server \<Rightarrow> (pc \<times> 'm server) option" where
  "handle_one S Auto TryAcquire s =
     (case try_acquire S (sem s) of
        Some m \<Rightarrow> Some (IncTotal, s\<lparr>sem := m\<rparr>)
      | None \<Rightarrow> Some (IncRefused, s))"
| "handle_one S Auto IncRefused s =
     Some (IncRefusedErrors, fetch_add (\<lambda>c. c\<lparr>c_refused_over_limit := c_refused_over_limit c + 1\<rparr>) s)"
| "handle_one S Auto IncRefusedErrors s =
     Some (Finished Refused, fetch_add (\<lambda>c. c\<lparr>c_errors := c_errors c + 1\<rparr>) s)"
| "handle_one S Auto IncTotal s = Some (IncActive, fetch_add (\<lambda>c. c\<lparr>c_total := c_total c + 1\<rparr>) s)"
| "handle_one S Auto IncActive s = Some (Connecting, fetch_add (\<lambda>c. c\<lparr>c_active := c_active c + 1\<rparr>) s)"
| "handle_one S (ForConnect res) Connecting s =
     (case res of ConnectOk \<Rightarrow> Some (Relaying, s) | _ \<Rightarrow> Some (ConnectErr, s))"
| "handle_one S Auto ConnectErr s =
     Some (DecActive ConnectFailed, fetch_add (\<lambda>c. c\<lparr>c_errors := c_errors c + 1\<rparr>) s)"
| "handle_one S (ForRelay res) Relaying s = Some (relay_result res, s)"
| "handle_one S Auto (AddIn c2u u2c) s =
     Some (AddOut c2u u2c, fetch_add (\<lambda>c. c\<lparr>c_bytes_in := c_bytes_in c + c2u\<rparr>) s)"
| "handle_one S Auto (AddOut c2u u2c) s =
     Some (DecActive (Relayed c2u u2c), fetch_add (\<lambda>c. c\<lparr>c_bytes_out := c_bytes_out c + u2c\<rparr>) s)"
| "handle_one S Auto RelayErr s =
     Some (DecActive RelayFailed, fetch_add (\<lambda>c. c\<lparr>c_errors := c_errors c + 1\<rparr>) s)"
| "handle_one S Auto (DecActive res) s =
     Some (DropPermit res, fetch_add (\<lambda>c. c\<lparr>c_active := c_active c - 1\<rparr>) s)"
| "handle_one S Auto (DropPermit res) s = Some (Finished res, s\<lparr>sem := add_permit S (sem s)\<rparr>)"
| "handle_one S out task s = None"

section \<open>The server\<close>

record 'm proxy =
  srv :: "'m server"
  tasks :: "pc list"
  listening :: bool

definition proxy_start :: "'m server \<Rightarrow> 'm proxy" where
  "proxy_start s = \<lparr>srv = s, tasks = [], listening = True\<rparr>"

text \<open>
  The accept loop spawns a task for a connection and ends on shutdown or when \<open>accept\<close> fails;
  the tasks it has spawned go on. Any task may move.
\<close>

datatype proxy_event = Accept | Shutdown | AcceptError | Task nat outcome

fun proxy_exec :: "'m semaphore \<Rightarrow> proxy_event \<Rightarrow> 'm proxy \<Rightarrow> 'm proxy option" where
  "proxy_exec S Accept w = (if listening w then Some (w\<lparr>tasks := tasks w @ [TryAcquire]\<rparr>) else None)"
| "proxy_exec S Shutdown w = (if listening w then Some (w\<lparr>listening := False\<rparr>) else None)"
| "proxy_exec S AcceptError w = (if listening w then Some (w\<lparr>listening := False\<rparr>) else None)"
| "proxy_exec S (Task i out) w =
     (if i < length (tasks w) then
        (case handle_one S out (tasks w ! i) (srv w) of
           None \<Rightarrow> None
         | Some (t, s) \<Rightarrow> Some (w\<lparr>srv := s, tasks := (tasks w)[i := t]\<rparr>))
      else None)"

inductive proxy_run :: "'m semaphore \<Rightarrow> 'm proxy \<Rightarrow> proxy_event list \<Rightarrow> 'm proxy \<Rightarrow> bool"
  for S :: "'m semaphore" where
  run_Nil: "proxy_run S w [] w"
| run_Cons: "proxy_exec S e w = Some v \<Longrightarrow> proxy_run S v es u \<Longrightarrow> proxy_run S w (e # es) u"

inductive_cases run_NilE: "proxy_run S w [] u"
inductive_cases run_ConsE: "proxy_run S w (e # es) u"

section \<open>Bridges to the metrics\<close>

text \<open>
  One tick of the bridge in \<open>crates/edge-proxy/src/main.rs\<close>, on the active gauge and the
  connection counter.
\<close>

definition bridge_tick :: "ConnectionCounters \<Rightarrow> u64 \<times> u64 \<Rightarrow> u64 \<times> u64" where
  "bridge_tick c m = (c_active c, snd m + saturating_sub (c_total c) (snd m))"

text \<open>The compiled-in addresses are addresses: the default configuration does not panic.\<close>

lemma default_proxy_config_ok:
  "default_proxy_config = Some \<lparr>listen_addr = SocketV4 (127, 0, 0, 1) 18080, upstream_addr = SocketV4 (127, 0, 0, 1) 18081,
     pc_max_connections = 512, connect_timeout_secs = 5, pc_idle_timeout_secs = 300, transparent = False\<rparr>"
proof -
  have "show_socket_addr (SocketV4 (127, 0, 0, 1) 18080) = ''127.0.0.1:18080''"
    "show_socket_addr (SocketV4 (127, 0, 0, 1) 18081) = ''127.0.0.1:18081''"
    by (simp_all add: show_nat.simps digit_char_def)
  then show ?thesis
    using parse_show_v4 [of "(127, 0, 0, 1)" 18080] parse_show_v4 [of "(127, 0, 0, 1)" 18081]
    by (simp add: default_proxy_config_def default_max_connections_def default_connect_timeout_secs_def
        default_idle_timeout_secs_def del: show_socket_addr.simps)
qed

section \<open>Ledgers\<close>

text \<open>What each task owes to each counter, from where it stands.\<close>

fun final_result :: "pc \<Rightarrow> conn_result option" where
  "final_result (DecActive r) = Some r"
| "final_result (DropPermit r) = Some r"
| "final_result (Finished r) = Some r"
| "final_result _ = None"

definition holds_permit :: "pc \<Rightarrow> bool" where
  "holds_permit t \<longleftrightarrow> (case t of TryAcquire \<Rightarrow> False | IncRefused \<Rightarrow> False | IncRefusedErrors \<Rightarrow> False
     | Finished _ \<Rightarrow> False | _ \<Rightarrow> True)"

definition in_service :: "pc \<Rightarrow> bool" where
  "in_service t \<longleftrightarrow> holds_permit t \<and> t \<notin> {IncTotal, IncActive} \<and> (\<forall>r. t \<noteq> DropPermit r)"

definition admitted :: "pc \<Rightarrow> bool" where
  "admitted t \<longleftrightarrow> (holds_permit t \<and> t \<noteq> IncTotal) \<or> (\<exists>r. t = Finished r \<and> r \<noteq> Refused)"

definition turned_away :: "pc \<Rightarrow> bool" where
  "turned_away t \<longleftrightarrow> t = IncRefusedErrors \<or> t = Finished Refused"

definition failed :: "pc \<Rightarrow> bool" where
  "failed t \<longleftrightarrow> t = Finished Refused \<or> final_result t \<in> {Some ConnectFailed, Some RelayFailed}"

definition sent_in :: "pc \<Rightarrow> u64" where
  "sent_in t = (case t of AddOut n _ \<Rightarrow> n
     | _ \<Rightarrow> (case final_result t of Some (Relayed n _) \<Rightarrow> n | _ \<Rightarrow> 0))"

definition sent_out :: "pc \<Rightarrow> u64" where
  "sent_out t = (case final_result t of Some (Relayed _ n) \<Rightarrow> n | _ \<Rightarrow> 0)"

definition wf_pc :: "pc \<Rightarrow> bool" where
  "wf_pc t \<longleftrightarrow> t \<noteq> DecActive Refused \<and> t \<noteq> DropPermit Refused"

lemmas pc_defs = holds_permit_def in_service_def admitted_def turned_away_def failed_def
  sent_in_def sent_out_def wf_pc_def

fun_cases handle_one_SomeE: "handle_one S out t s = Some (t', s')"

lemma sum_list_map_update:
  fixes f :: "'a \<Rightarrow> 'n::ab_group_add"
  shows "i < length xs \<Longrightarrow> sum_list (map f (xs[i := x])) = sum_list (map f xs) - f (xs ! i) + f x"
proof (induction xs arbitrary: i)
  case (Cons y ys)
  then show ?case by (cases i) (auto simp: algebra_simps)
qed simp

lemma wf_handle_one: "handle_one S out t s = Some (t', s') \<Longrightarrow> wf_pc t \<Longrightarrow> wf_pc t'"
  by (erule handle_one_SomeE) (auto simp: wf_pc_def relay_result_def
      split: option.splits connect_outcome.splits relay_outcome.splits)

lemma wf_exec: "proxy_exec S e w = Some v \<Longrightarrow> list_all wf_pc (tasks w) \<Longrightarrow> list_all wf_pc (tasks v)"
proof (cases e)
  case (Task i out)
  assume "proxy_exec S e w = Some v" "list_all wf_pc (tasks w)"
  then show ?thesis
    using Task wf_handle_one [of S out "tasks w ! i" "srv w"]
    by (auto simp: list_all_length nth_list_update split: option.splits if_splits)
qed (auto simp: wf_pc_def split: if_splits)

lemma wf_run: "proxy_run S w es u \<Longrightarrow> list_all wf_pc (tasks w) \<Longrightarrow> list_all wf_pc (tasks u)"
  by (induction rule: proxy_run.induct) (auto dest: wf_exec)

text \<open>
  The accounts of the server: a field of the shared state and the share every task has in it.
  If each atomic operation moves both by the same amount, the field is the sum of the shares,
  whatever the interleaving.
\<close>

locale task_ledger =
  fixes S :: "'m semaphore" and field :: "'m server \<Rightarrow> 'n::ab_group_add" and share :: "pc \<Rightarrow> 'n"
  assumes fresh: "share TryAcquire = 0"
    and step: "handle_one S out t s = Some (t', s') \<Longrightarrow> wf_pc t
      \<Longrightarrow> field s' - share t' = field s - share t"
begin

definition balance :: "'m proxy \<Rightarrow> 'n" where
  "balance w = field (srv w) - sum_list (map share (tasks w))"

lemma balance_exec:
  assumes "proxy_exec S e w = Some v" and "list_all wf_pc (tasks w)"
  shows "balance v = balance w"
proof (cases e)
  case (Task i out)
  then obtain t s where h: "i < length (tasks w)" "handle_one S out (tasks w ! i) (srv w) = Some (t, s)"
      "v = w\<lparr>srv := s, tasks := (tasks w)[i := t]\<rparr>"
    using assms(1) by (auto split: option.splits if_splits)
  then have "field s - share t = field (srv w) - share (tasks w ! i)"
    using step assms(2) by (auto simp: list_all_length)
  with h show ?thesis by (simp add: balance_def sum_list_map_update algebra_simps)
qed (use assms in \<open>auto simp: balance_def fresh split: if_splits\<close>)

lemma balance_run: "proxy_run S w es u \<Longrightarrow> list_all wf_pc (tasks w) \<Longrightarrow> balance u = balance w"
proof (induction rule: proxy_run.induct)
  case (run_Cons e w v es u)
  then show ?case using balance_exec [OF run_Cons.hyps(1)] wf_exec [OF run_Cons.hyps(1)] by simp
qed simp

lemma ledger:
  assumes "proxy_run S (proxy_start s) es w"
  shows "field (srv w) = field s + sum_list (map share (tasks w))"
  using balance_run [OF assms] by (simp add: balance_def proxy_start_def algebra_simps)

end

abbreviation tally :: "(pc \<Rightarrow> bool) \<Rightarrow> pc \<Rightarrow> u64" where
  "tally P t \<equiv> of_bool (P t)"

lemma handle_one_accounts:
  assumes "handle_one S out t s = Some (t', s')" and "wf_pc t"
  shows "c_total (counters s') - tally admitted t' = c_total (counters s) - tally admitted t"
    and "c_active (counters s') - tally in_service t' = c_active (counters s) - tally in_service t"
    and "c_refused_over_limit (counters s') - tally turned_away t'
      = c_refused_over_limit (counters s) - tally turned_away t"
    and "c_errors (counters s') - tally failed t' = c_errors (counters s) - tally failed t"
    and "c_bytes_in (counters s') - sent_in t' = c_bytes_in (counters s) - sent_in t"
    and "c_bytes_out (counters s') - sent_out t' = c_bytes_out (counters s) - sent_out t"
  using assms by (elim handle_one_SomeE; auto simp: pc_defs fetch_add_def relay_result_def
      split: option.splits connect_outcome.splits relay_outcome.splits)+

lemma shares_fresh:
  "tally admitted TryAcquire = 0" "tally in_service TryAcquire = 0" "tally turned_away TryAcquire = 0"
  "tally failed TryAcquire = 0" "sent_in TryAcquire = 0" "sent_out TryAcquire = 0"
  by (simp_all add: pc_defs)

interpretation total: task_ledger S "\<lambda>s. c_total (counters s)" "tally admitted"
  by unfold_locales (fact shares_fresh, rule handle_one_accounts)

interpretation active: task_ledger S "\<lambda>s. c_active (counters s)" "tally in_service"
  by unfold_locales (fact shares_fresh, rule handle_one_accounts)

interpretation refused: task_ledger S "\<lambda>s. c_refused_over_limit (counters s)" "tally turned_away"
  by unfold_locales (fact shares_fresh, rule handle_one_accounts)

interpretation errs: task_ledger S "\<lambda>s. c_errors (counters s)" "tally failed"
  by unfold_locales (fact shares_fresh, rule handle_one_accounts)

interpretation bytes_in: task_ledger S "\<lambda>s. c_bytes_in (counters s)" sent_in
  by unfold_locales (fact shares_fresh, rule handle_one_accounts)

interpretation bytes_out: task_ledger S "\<lambda>s. c_bytes_out (counters s)" sent_out
  by unfold_locales (fact shares_fresh, rule handle_one_accounts)

text \<open>The permits are an account too: a task that holds one is in debt.\<close>

lemma sem_ledger:
  assumes "sem_ok S av"
  shows "task_ledger S (\<lambda>s. int (av (sem s))) (\<lambda>t. - of_bool (holds_permit t))"
proof
  have acq: "case try_acquire S m of None \<Rightarrow> av m = 0 | Some m' \<Rightarrow> av m = Suc (av m')"
    and rel: "av (add_permit S m) = Suc (av m)" for m
    using assms by (simp_all add: sem_ok_def)
  show "- of_bool (holds_permit TryAcquire) = (0 :: int)" by (simp add: pc_defs)
  fix out t s t' s' assume "handle_one S out t s = Some (t', s')" and "wf_pc t"
  then show "int (av (sem s')) - - of_bool (holds_permit t') = int (av (sem s)) - - of_bool (holds_permit t)"
    using acq [of "sem s"] by (elim handle_one_SomeE)
      (auto simp: pc_defs fetch_add_def relay_result_def rel
        split: option.splits connect_outcome.splits relay_outcome.splits)
qed

section \<open>Counting\<close>

lemma sum_tally:
  "sum_list (map (\<lambda>t. of_bool (P t)) ts) = (of_nat (length (filter P ts)) :: 'n::semiring_1)"
  by (induction ts) auto

lemma sum_debt: "sum_list (map (\<lambda>t. - of_bool (P t)) ts) = - int (length (filter P ts))"
  by (induction ts) auto

definition capacity :: "'addr ProxyConfig \<Rightarrow> nat" where
  "capacity cfg = max (unat (pc_max_connections cfg)) 1"

lemma permits_account:
  assumes S: "sem_ok S av" and new: "ProxyServer_new S cfg = Some s0"
    and run: "proxy_run S (proxy_start s0) es w"
  shows "length (filter holds_permit (tasks w)) + av (sem (srv w)) = capacity cfg"
    and "capacity cfg < 2 ^ 61"
proof -
  obtain m where m: "sem_new S (max (pc_max_connections cfg) 1) = Some m" "sem s0 = m"
    using new by (auto simp: ProxyServer_new_def)
  have "case sem_new S (max (pc_max_connections cfg) 1) of None \<Rightarrow> 2 ^ 61 \<le> unat (max (pc_max_connections cfg) 1)
      | Some m \<Rightarrow> unat (max (pc_max_connections cfg) 1) < 2 ^ 61 \<and> av m = unat (max (pc_max_connections cfg) 1)"
    using S unfolding sem_ok_def by blast
  with m have cap: "av (sem s0) = capacity cfg" "capacity cfg < 2 ^ 61"
    by (simp_all add: capacity_def unat_max)
  have "sum_list (map (\<lambda>t. - of_bool (holds_permit t)) (tasks w)) = - int (length (filter holds_permit (tasks w)))"
    by (rule sum_debt)
  with task_ledger.ledger [OF sem_ledger [OF S] run] cap
  show "length (filter holds_permit (tasks w)) + av (sem (srv w)) = capacity cfg" by simp
  from cap show "capacity cfg < 2 ^ 61" by simp
qed

lemma service_holds: "length (filter in_service ts) \<le> length (filter holds_permit ts)"
  by (induction ts) (auto simp: in_service_def)

text \<open>
  Every atomic operation of a task brings it closer to its end.
\<close>

fun work :: "pc \<Rightarrow> nat" where
  "work TryAcquire = 9"
| "work IncRefused = 2"
| "work IncRefusedErrors = 1"
| "work IncTotal = 8"
| "work IncActive = 7"
| "work Connecting = 6"
| "work ConnectErr = 3"
| "work Relaying = 5"
| "work (AddIn _ _) = 4"
| "work (AddOut _ _) = 3"
| "work RelayErr = 3"
| "work (DecActive _) = 2"
| "work (DropPermit _) = 1"
| "work (Finished _) = 0"

definition finished :: "pc \<Rightarrow> bool" where
  "finished t \<longleftrightarrow> (\<exists>r. t = Finished r)"

lemma work_decreases: "handle_one S out t s = Some (t', s') \<Longrightarrow> work t' < work t"
  by (elim handle_one_SomeE) (auto simp: relay_result_def
      split: option.splits connect_outcome.splits relay_outcome.splits)

lemma finished_filter:
  assumes "list_all finished ts"
  shows "filter holds_permit ts = []" "filter in_service ts = []"
  using assms by (induction ts) (auto simp: finished_def pc_defs)

lemma run_append: "proxy_run S w es u \<Longrightarrow> proxy_run S u fs v \<Longrightarrow> proxy_run S w (es @ fs) v"
  by (induction rule: proxy_run.induct) (auto intro: proxy_run.intros)

section \<open>Properties\<close>

text \<open>
  C4. The proxy never serves more connections than it is configured for: whatever the
  interleaving of connection tasks, accepts, failures and timeouts, the permits in hand and
  the free ones add up to \<open>max(max_connections, 1)\<close>, and the \<open>active\<close> counter is exactly the
  number of connections between admission and release, so at most that limit.
\<close>

theorem proxy_admission_bound:
  assumes "sem_ok S av" and "ProxyServer_new S cfg = Some s0" and "proxy_run S (proxy_start s0) es w"
  shows "length (filter holds_permit (tasks w)) + av (sem (srv w)) = capacity cfg
     \<and> unat (c_active (counters (srv w))) = length (filter in_service (tasks w))
     \<and> unat (c_active (counters (srv w))) \<le> capacity cfg"
proof -
  note a = permits_account [OF assms]
  have "c_active (counters s0) = 0" using assms(2) by (auto simp: ProxyServer_new_def default_counters_def)
  then have "c_active (counters (srv w)) = of_nat (length (filter in_service (tasks w)))"
    using active.ledger [OF assms(3)] by (simp add: sum_tally)
  moreover have le: "length (filter in_service (tasks w)) \<le> capacity cfg"
    using service_holds [of "tasks w"] a(1) by simp
  ultimately have "unat (c_active (counters (srv w))) = length (filter in_service (tasks w))"
    using a(2) by (simp add: unat_of_nat)
  with a(1) le show ?thesis by simp
qed

text \<open>
  C27. A connection is refused exactly when the proxy is full: in every reachable state, the
  admission step of a waiting connection refuses it if and only if as many connections as
  the limit allows hold a permit, and otherwise admits it.
\<close>

theorem proxy_refuses_iff_full:
  assumes "sem_ok S av" and "ProxyServer_new S cfg = Some s0" and "proxy_run S (proxy_start s0) es w"
    and "i < length (tasks w)" and "tasks w ! i = TryAcquire"
  shows "\<exists>v. proxy_exec S (Task i Auto) w = Some v
     \<and> tasks v ! i = (if length (filter holds_permit (tasks w)) = capacity cfg then IncRefused else IncTotal)"
proof -
  have "case try_acquire S (sem (srv w)) of None \<Rightarrow> av (sem (srv w)) = 0
      | Some m' \<Rightarrow> av (sem (srv w)) = Suc (av m')"
    using assms(1) by (simp add: sem_ok_def)
  with permits_account(1) [OF assms(1-3)] assms(4,5) show ?thesis
    by (auto split: option.splits)
qed

text \<open>
  C26. Once every connection has ended the books balance: all permits are back, nothing is
  active, every accepted connection was either admitted or refused and counted as such,
  the errors are the refusals and the failed connects and relays, and the byte counters are
  the sums over the relays that ended regularly (all modulo \<open>2^64\<close>, as the counters wrap).
\<close>

theorem proxy_books_balance:
  assumes "sem_ok S av" and "ProxyServer_new S cfg = Some s0" and "proxy_run S (proxy_start s0) es w"
    and "list_all finished (tasks w)"
  shows "av (sem (srv w)) = capacity cfg \<and> c_active (counters (srv w)) = 0
     \<and> c_total (counters (srv w)) + c_refused_over_limit (counters (srv w)) = of_nat (length (tasks w))
     \<and> c_errors (counters (srv w)) = of_nat (length (filter (\<lambda>t. t \<in> Finished ` {Refused, ConnectFailed, RelayFailed}) (tasks w)))
     \<and> c_bytes_in (counters (srv w)) = (\<Sum>t\<leftarrow>tasks w. case t of Finished (Relayed n _) \<Rightarrow> n | _ \<Rightarrow> 0)
     \<and> c_bytes_out (counters (srv w)) = (\<Sum>t\<leftarrow>tasks w. case t of Finished (Relayed _ n) \<Rightarrow> n | _ \<Rightarrow> 0)"
proof -
  let ?c = "counters (srv w)" and ?ts = "tasks w"
  have c0: "counters s0 = default_counters" using assms(2) by (auto simp: ProxyServer_new_def)
  note l = total.ledger [OF assms(3)] active.ledger [OF assms(3)] refused.ledger [OF assms(3)]
    errs.ledger [OF assms(3)] bytes_in.ledger [OF assms(3)] bytes_out.ledger [OF assms(3)]
  note l' = l [unfolded c0 default_counters_def ConnectionCounters.select_convs add_0_left]
  have f: "\<And>t. t \<in> set ?ts \<Longrightarrow> finished t" using assms(4) by (simp add: list_all_iff)
  have "c_total ?c + c_refused_over_limit ?c = (\<Sum>t\<leftarrow>?ts. tally admitted t + tally turned_away t)"
    unfolding l' by (simp add: sum_list_addf)
  also have "\<dots> = (\<Sum>t\<leftarrow>?ts. 1)"
    by (intro arg_cong [where f = sum_list] map_cong) (auto dest!: f simp: finished_def pc_defs)
  finally have t: "c_total ?c + c_refused_over_limit ?c = of_nat (length ?ts)" by (simp add: sum_list_triv)
  have e: "c_errors ?c = of_nat (length (filter (\<lambda>t. t \<in> Finished ` {Refused, ConnectFailed, RelayFailed}) ?ts))"
    unfolding l' sum_tally
    by (intro arg_cong [where f = of_nat] arg_cong [where f = length] filter_cong)
      (auto dest!: f simp: finished_def pc_defs)
  have b: "c_bytes_in ?c = (\<Sum>t\<leftarrow>?ts. case t of Finished (Relayed n _) \<Rightarrow> n | _ \<Rightarrow> 0)"
    "c_bytes_out ?c = (\<Sum>t\<leftarrow>?ts. case t of Finished (Relayed _ n) \<Rightarrow> n | _ \<Rightarrow> 0)"
    unfolding l' by (intro arg_cong [where f = sum_list] map_cong;
        auto dest!: f simp: finished_def pc_defs split: conn_result.splits)+
  have "c_active ?c = 0" unfolding l' by (simp add: sum_tally finished_filter [OF assms(4)])
  with t e b permits_account(1) [OF assms(1-3)] show ?thesis by (simp add: finished_filter [OF assms(4)])
qed

text \<open>
  The metrics bridge is exact: reading a connection counter that never goes down at every
  tick, the exported counter (which can only be incremented) always ends at the last
  reading and the gauge at the last number of active connections.
\<close>

theorem bridge_exports_last_reading:
  assumes "cs \<noteq> []" and "sorted (map c_total cs)"
  shows "fold bridge_tick cs (0, 0) = (c_active (last cs), c_total (last cs))"
proof -
  have step: "bridge_tick c m = (c_active c, c_total c)" if "snd m \<le> c_total c" for c m
    using that by (simp add: bridge_tick_def saturating_sub_def)
  have "fold bridge_tick cs m = (if cs = [] then m else (c_active (last cs), c_total (last cs)))"
    if "sorted (map c_total cs)" and "\<forall>c \<in> set cs. snd m \<le> c_total c" for cs m
    using that
  proof (induction cs arbitrary: m)
    case (Cons c cs)
    then show ?case using step [of m c] by auto
  qed simp
  from this [of cs "(0, 0)"] assms show ?thesis by simp
qed

end
