(* ===== verification/Edge_Boot.thy ===== *)
theory Edge_Boot
  imports Fleet Edge_Proxy
begin

text \<open>
  The start of the edge appliance (\<open>crates/edge-agent/src/main.rs\<close>): the agent's configuration
  from the command line, and the dataplane's configuration from the stored state, before and
  independently of any contact with the control plane. DNS is a parameter.
\<close>

section \<open>Command line\<close>

record 'addr Args =
  arg_device_id :: string
  arg_hardware_id :: string
  arg_software_version :: string
  arg_control_plane :: string
  arg_state_path :: path
  arg_listen :: 'addr
  arg_upstream :: string
  arg_metrics_addr :: 'addr
  arg_tls_ca :: "path option"
  arg_tls_cert :: "path option"
  arg_tls_key :: "path option"

definition agent_config :: "'addr Args \<Rightarrow> AgentConfig" where
  "agent_config g = \<lparr>ac_device_id = arg_device_id g, ac_hardware_id = arg_hardware_id g,
     ac_software_version = arg_software_version g, control_plane = arg_control_plane g,
     state_path = arg_state_path g, heartbeat_interval = from_secs 5,
     tls_ca = arg_tls_ca g, tls_cert = arg_tls_cert g, tls_key = arg_tls_key g, tls_domain = None\<rparr>"

section \<open>Upstream\<close>

text \<open>A literal address, or the first one the resolver gives.\<close>

definition resolve_upstream ::
  "(string \<Rightarrow> socket_addr list option) \<Rightarrow> string \<Rightarrow> socket_addr option" where
  "resolve_upstream lookup_host spec =
     (case parse_socket_addr spec of
        Some a \<Rightarrow> Some a
      | None \<Rightarrow> (case lookup_host spec of None \<Rightarrow> None | Some [] \<Rightarrow> None | Some (a # _) \<Rightarrow> Some a))"

definition proxy_config :: "(string \<Rightarrow> 'addr option) \<Rightarrow> 'addr Args \<Rightarrow> StateStore \<Rightarrow> 'addr ProxyConfig option" where
  "proxy_config resolve g st =
     map_option (\<lambda>u. \<lparr>listen_addr = arg_listen g, upstream_addr = u,
         pc_max_connections = ucast (max_connections (last_good_policy st)),
         connect_timeout_secs = 5, pc_idle_timeout_secs = idle_timeout_secs (last_good_policy st),
         transparent = False\<rparr>)
       (choose_upstream resolve (arg_upstream g) st)"

datatype boot_error = OpenStateStore AgentError | ResolvingUpstream

definition agent_boot ::
  "Persisted json \<Rightarrow> (string \<Rightarrow> 'addr option) \<Rightarrow> 'addr Args
     \<Rightarrow> ('z fs_scheme, boot_error, 'addr ProxyConfig) act" where
  "agent_boot js resolve g =
     act_try (act_map_err OpenStateStore (EdgeAgent_new js (agent_config g))) (\<lambda>st.
     act_of_option ResolvingUpstream (proxy_config resolve g st))"

section \<open>What a synchronization leaves on disk\<close>

lemma ingest_path: "ingest js d s = (r, t) \<Longrightarrow> st_path (store t) = st_path (store s)"
  by (cases rule: ingest_cases [where js = js and d = d and s = s]) auto

lemma apply_desired_durable:
  assumes js: "json_ok js" and ok: "disk_ok js a" and d: "diff (reported_of a) d = ApplyPolicy pol"
    and run: "apply_desired js d a = (r, t)"
  shows "reopen js (st_path (store a)) (files t) = Some (store t) \<and> last_good_policy (store t) = pol
     \<and> applied_seq (reported_of t) = max (applied_seq (reported_of a)) (seq d)"
proof -
  obtain u where u: "ingest js d a = (Inr (ApplyPolicy pol), u)" "disk_ok js u"
    using ingest_reliable [OF ok, of d] d by auto
  note same = ingest_reported(1) [OF u(1)] ingest_path [OF u(1)]
  obtain v where m: "mark_policy_applied js pol (seq d) u = (Inr (fst (apply_policy pol (seq d) (reported_of u))), v)"
    using mark_reliable [OF u(2)] by blast
  have t: "t = v\<lparr>m_policy_version := version pol\<rparr>"
    using run u(1) m by (simp add: apply_desired_def act_defs)
  show ?thesis
  proof (cases rule: mark_cases [where js = js and p = pol and q = "seq d" and s = u])
    case (failed e F G)
    with m show ?thesis by simp
  next
    case (saved b F G)
    let ?st = "(store u)\<lparr>reported := snd (apply_policy pol (seq d) (reported_of u)), last_good_policy := pol\<rparr>"
    have v: "store v = ?st" "files v = F" using m saved(1) by auto
    have "decode js b = Some (to_persisted ?st)" using js saved(2) by (simp add: json_ok_def)
    then have "reopen js (st_path ?st) F = Some ?st"
      using saved(3) of_to_persisted [of ?st] by (simp add: reopen_def)
    then show ?thesis using t v same by (simp add: snd_apply_policy)
  qed
qed

lemma good_turn_durable:
  assumes js: "json_ok js" "\<forall>x. encode js x \<noteq> None" and t: "good_turn t (config a)"
    and q: "\<forall>q \<in> tls_paths (config a). files a q \<noteq> None"
    and r: "current_policy r = (Some x, sq)" and sq: "applied_seq (reported_of a) < sq"
    and v: "version x \<noteq> policy_version (reported_of a)"
    and run: "run_turn js env t ((a, r), b) = ((a', r'), b')"
  shows "reopen js (st_path (store a)) (files a') = Some (store a')
     \<and> last_good_policy (store a') = local_policy (last_good_policy (store a)) x
     \<and> applied_seq (reported_of a') = sq"
proof -
  let ?a = "a\<lparr>faults := []\<rparr>" and ?c = "a\<lparr>faults := [], m_control_plane_connected := 1\<rparr>"
  have f: "t_faults t = []" using t by (simp add: good_turn_def)
  obtain l where "connect (t_net t) (config a) ?a = (Inr l, ?a)" using connect_good [OF t, of ?a] q by auto
  moreover have "register_call (t_net t) = Delivered" "heartbeat_call (t_net t) = Delivered"
    using t by (simp_all add: good_turn_def)
  ultimately have s: "sync_once js env (t_now t) (t_net t) (t_usage t) 0 (?a, r) =
      on_agent (handle_heartbeat js (current_reply (inner r))) (?a, after_heartbeat env (t_now t) (t_usage t) 0 a r)"
    by (simp add: sync_once_eq)
  let ?pol = "local_policy (last_good_policy (store a)) x"
  let ?d = "\<lparr>seq = max sq 1, policy = ?pol, d_software_version = desired_software (inner r)\<rparr>"
  have h: "handle_heartbeat js (current_reply (inner r)) ?a = apply_desired js ?d ?c"
    using r by (simp add: handle_heartbeat_def current_reply_def act_defs current_policy_def)
  have "disk_ok js ?c" using js(2) by (simp add: disk_ok_def)
  then obtain y u where u: "apply_desired js ?d ?c = (Inr y, u)" using apply_desired_reliable by blast
  have "1 \<le> sq" using sq by (simp add: word_less_nat_alt word_le_nat_alt)
  then have m: "max sq 1 = sq" by (simp add: max_def)
  have "diff (reported_of ?c) ?d = ApplyPolicy ?pol"
    using sq v m by (simp add: diff_ApplyPolicy_iff local_policy_def)
  from apply_desired_durable [OF js(1) \<open>disk_ok js ?c\<close> this u] m sq
  have "reopen js (st_path (store a)) (files u) = Some (store u)
     \<and> last_good_policy (store u) = ?pol \<and> applied_seq (reported_of u) = sq"
    by (simp add: max_absorb2 less_imp_le)
  moreover have "a' = u" using run s h u f by (simp add: run_turn_def on_agent_def)
  ultimately show ?thesis by simp
qed

lemma agent_boot_reopen:
  assumes "faults s = []" and "reopen js (arg_state_path g) (files s) = Some st"
  shows "fst (agent_boot js resolve g s) =
     (case proxy_config resolve g st of None \<Rightarrow> Inl ResolvingUpstream | Some c \<Rightarrow> Inr c)"
proof -
  have "StateStore_open js (arg_state_path g) s = (Inr st, s)" using open_reopen [OF assms(1)] assms(2) by simp
  then show ?thesis
    by (simp add: agent_boot_def EdgeAgent_new_def agent_config_def act_defs split: option.splits)
qed

section \<open>Properties\<close>

text \<open>
  C12. A policy that was synchronized once is served after a restart without the control plane:
  if a device behind the desired state completes one polling turn and is then restarted, with
  the network gone, its dataplane is configured with the connection limit and the idle timeout
  of that policy. Its upstream is the policy's (the last good one if the policy names none)
  when there is one and it resolves, else the operator's. All of this only if the operator's
  upstream resolves: otherwise the start fails, whatever the policy says.
\<close>

theorem reboot_serves_synced_policy:
  assumes "json_ok js" and "\<forall>x. encode js x \<noteq> None" and "config a = agent_config g"
    and "st_path (store a) = arg_state_path g" and "good_turn t (config a)"
    and "\<forall>q \<in> tls_paths (config a). files a q \<noteq> None"
    and "current_policy r = (Some x, sq)" and "applied_seq (reported_of a) < sq"
    and "version x \<noteq> policy_version (reported_of a)"
    and "run_turn js env t ((a, r), b) = ((a', r'), b')"
  defines "upstream \<equiv> (if default_upstream x = [] then default_upstream (last_good_policy (store a)) else default_upstream x)"
  shows "fst (agent_boot js resolve g (a'\<lparr>faults := []\<rparr>)) = (case resolve (arg_upstream g) of
       None \<Rightarrow> Inl ResolvingUpstream
     | Some u0 \<Rightarrow> Inr \<lparr>listen_addr = arg_listen g,
         upstream_addr = (if upstream = [] then u0 else case resolve upstream of Some u \<Rightarrow> u | None \<Rightarrow> u0),
         pc_max_connections = ucast (max_connections x), connect_timeout_secs = 5,
         pc_idle_timeout_secs = idle_timeout_secs x, transparent = False\<rparr>)"
proof -
  have d: "reopen js (arg_state_path g) (files (a'\<lparr>faults := []\<rparr>)) = Some (store a')"
    "last_good_policy (store a') = local_policy (last_good_policy (store a)) x" "applied_seq (reported_of a') = sq"
    using good_turn_durable [OF assms(1,2,5-10)] assms(4) by simp_all
  have "0 < unat sq" using assms(8) by (simp add: word_less_nat_alt)
  then have "has_synced_policy (store a')" using d(3) by (simp add: has_synced_policy_def word_less_nat_alt)
  then show ?thesis
    using agent_boot_reopen [OF _ d(1), of resolve] d(2)
    by (simp add: proxy_config_def choose_upstream_def local_policy_def upstream_def split: option.splits)
qed

text \<open>
  Before the first synchronization the operator decides: an appliance without stored state
  that boots in a partition forwards to the operator's static upstream, with the compiled-in
  limits, and after any number of unanswered polling turns a restart comes up the same way.
\<close>

theorem unsynced_boot_uses_static:
  assumes "config a = agent_config g" and "store a = fresh_store (arg_state_path g)"
    and "files a (arg_state_path g) = None" and "resolve (arg_upstream g) = Some u0"
    and "\<forall>t \<in> set ts. \<not> answered (t_net t) (config a) (a\<lparr>faults := t_faults t\<rparr>)"
    and "fold (run_turn js env) ts ((a, r), b) = ((a', r'), b')"
  shows "fst (agent_boot js resolve g (a'\<lparr>faults := []\<rparr>)) = Inr \<lparr>listen_addr = arg_listen g,
     upstream_addr = u0, pc_max_connections = 512, connect_timeout_secs = 5,
     pc_idle_timeout_secs = 300, transparent = False\<rparr>"
proof -
  have "files a' = files a" using unanswered_turns [OF assms(5,6)] by simp
  then have "reopen js (arg_state_path g) (files (a'\<lparr>faults := []\<rparr>)) = Some (fresh_store (arg_state_path g))"
    using assms(3) by (simp add: reopen_def)
  from agent_boot_reopen [OF _ this, of resolve] assms(4) show ?thesis
    by (simp add: proxy_config_def choose_upstream_def fresh_store_def has_synced_policy_def
        default_reported_def default_policy_def)
qed

end
