(* ===== verification/Sample_Fleet.thy ===== *)
theory Sample_Fleet
  imports Sample_Env Edge_Boot
begin

text \<open>
  Concrete stand-ins for the remaining third-party parameters: a serializer for registry
  snapshots that refuses numbers that are not finite, as \<open>serde_json\<close> does, and a counting
  semaphore in place of Tokio's.
\<close>

section \<open>Registry snapshots\<close>

fun enc_list :: "'a codec \<Rightarrow> 'a list \<Rightarrow> bytes" where
  "enc_list c [] = [0]"
| "enc_list c (x # xs) = 1 # enc c x @ enc_list c xs"

text \<open>The decoder stops after as many elements as there are bytes.\<close>

fun dec_list :: "'a codec \<Rightarrow> nat \<Rightarrow> bytes \<Rightarrow> ('a list \<times> bytes) option" where
  "dec_list c n [] = None"
| "dec_list c 0 (t # r) = (if t = 0 then Some ([], r) else None)"
| "dec_list c (Suc n) (t # r) =
     (if t = 0 then Some ([], r)
      else (case dec c r of None \<Rightarrow> None
            | Some (x, q) \<Rightarrow> map_option (\<lambda>(xs, z). (x # xs, z)) (dec_list c n q)))"

definition list_codec :: "'a codec \<Rightarrow> 'a list codec" where
  "list_codec c = \<lparr>enc = enc_list c, dec = (\<lambda>b. dec_list c (length b) b)\<rparr>"

lemma dec_enc_list:
  assumes "codec_ok c"
  shows "length xs \<le> n \<Longrightarrow> dec_list c n (enc_list c xs @ r) = Some (xs, r)"
proof (induction xs arbitrary: n)
  case Nil
  show ?case by (cases n) simp_all
next
  case (Cons x xs)
  then obtain m where "n = Suc m" "length xs \<le> m" by (cases n) auto
  with Cons.IH [of m] assms show ?case by (simp add: codec_ok_def)
qed

lemma length_enc_list: "length xs \<le> length (enc_list c xs)"
  by (induction xs) auto

lemma list_codec_ok: "codec_ok c \<Longrightarrow> codec_ok (list_codec c)"
proof -
  assume c: "codec_ok c"
  have "dec_list c (length (enc_list c xs @ r)) (enc_list c xs @ r) = Some (xs, r)" for xs r
    by (rule dec_enc_list [OF c]) (simp add: length_enc_list trans_le_add1)
  then show ?thesis by (simp add: codec_ok_def list_codec_def)
qed

definition nat_codec :: "nat codec" where
  "nat_codec = via_codec (\<lambda>n. replicate n (CHR ''i'')) length str_codec"

definition int_codec :: "int codec" where
  "int_codec = via_codec (\<lambda>i. (if i < 0 then ''-'' else [], nat \<bar>i\<bar>))
     (\<lambda>(s, n). if s = [] then int n else - int n) (pair_codec str_codec nat_codec)"

text \<open>A finite number by sign, numerator and denominator; anything else is written as nothing.\<close>

fun f64_wire :: "f64 \<Rightarrow> (string \<times> int \<times> int) option" where
  "f64_wire (F64 s x) = Some (if s then ''-'' else [], quotient_of x)"
| "f64_wire _ = None"

definition f64_of_wire :: "string \<times> int \<times> int \<Rightarrow> f64" where
  "f64_of_wire w = F64 (fst w \<noteq> []) (Fract (fst (snd w)) (snd (snd w)))"

type_synonym device_wire =
  "(string \<times> string \<times> string \<times> string \<times> string) \<times> (u64 \<times> string \<times> u64 \<times> u32 \<times> u64 \<times> u64)
    \<times> (string \<times> int \<times> int) option \<times> u64 \<times> u64"

definition device_wire :: "DeviceRecord \<Rightarrow> device_wire" where
  "device_wire d =
     ((device_id d, hardware_id d, dv_software_version d, reported_policy_version d, reported_software_version d),
      (desired_policy_version d, desired_software_version d, desired_seq d, health d, last_seen_secs d, uptime_secs d),
      f64_wire (cpu_usage d), memory_bytes d, active_connections d)"

fun device_of_wire :: "device_wire \<Rightarrow> DeviceRecord option" where
  "device_of_wire ((i, hw, sw, rp, rs), (dp, ds, dq, h, ls, up), cpu, mem, act) =
     map_option (\<lambda>c. \<lparr>device_id = i, hardware_id = hw, dv_software_version = sw,
       reported_policy_version = rp, reported_software_version = rs, desired_policy_version = dp,
       desired_software_version = ds, desired_seq = dq, health = h, last_seen_secs = ls,
       uptime_secs = up, cpu_usage = f64_of_wire c, memory_bytes = mem, active_connections = act\<rparr>) cpu"

definition device_codec :: "device_wire codec" where
  "device_codec = pair_codec
     (pair_codec str_codec (pair_codec str_codec (pair_codec str_codec (pair_codec str_codec str_codec))))
     (pair_codec (pair_codec u64_codec (pair_codec str_codec (pair_codec u64_codec (pair_codec u32_codec
        (pair_codec u64_codec u64_codec)))))
       (pair_codec (option_codec (pair_codec str_codec (pair_codec int_codec int_codec)))
         (pair_codec u64_codec u64_codec)))"

definition snapshot_codec :: "(device_wire list \<times> Policy option \<times> u64 \<times> string) codec" where
  "snapshot_codec = pair_codec (list_codec device_codec)
     (pair_codec (option_codec policy_codec) (pair_codec u64_codec str_codec))"

definition snapshot_wire :: "RegistrySnapshot \<Rightarrow> device_wire list \<times> Policy option \<times> u64 \<times> string" where
  "snapshot_wire x = (map device_wire (rs_devices x), map_option policy_from_snapshot (rs_policy x),
     rs_policy_seq x, rs_desired_software x)"

definition snapshot_of_wire ::
  "device_wire list \<times> Policy option \<times> u64 \<times> string \<Rightarrow> RegistrySnapshot option" where
  "snapshot_of_wire w = (case w of (ds, p, q, v) \<Rightarrow>
     if list_all (\<lambda>d. device_of_wire d \<noteq> None) ds
     then Some \<lparr>rs_devices = map (\<lambda>d. the (device_of_wire d)) ds, rs_policy = map_option policy_to_snapshot p,
            rs_policy_seq = q, rs_desired_software = v\<rparr>
     else None)"

definition sample_snap_json :: "RegistrySnapshot json" where
  "sample_snap_json = \<lparr>encode = (\<lambda>x. encode (json_of_codec snapshot_codec) (snapshot_wire x)),
     decode = (\<lambda>b. Option.bind (decode (json_of_codec snapshot_codec) b) snapshot_of_wire)\<rparr>"

lemma snapshot_codec_ok: "codec_ok snapshot_codec"
proof -
  have n: "codec_ok nat_codec" unfolding nat_codec_def by (intro codec_ok_intros) simp
  have i: "codec_ok int_codec" unfolding int_codec_def by (intro codec_ok_intros n) simp
  have d: "codec_ok device_codec" unfolding device_codec_def by (intro codec_ok_intros codecs_ok i)
  show ?thesis unfolding snapshot_codec_def by (intro codec_ok_intros list_codec_ok codecs_ok d)
qed

lemma f64_wire_finite: "f64_wire x = None \<longleftrightarrow> \<not> f64_finite x"
  by (cases x) simp_all

lemma f64_of_wire_inverse: "f64_wire x = Some w \<Longrightarrow> f64_of_wire w = x"
proof (cases x)
  case (F64 s y)
  assume "f64_wire x = Some w"
  moreover have "Fract (fst (quotient_of y)) (snd (quotient_of y)) = y"
    by (metis prod.collapse quotient_of_div Fract_of_int_quotient)
  ultimately show ?thesis using F64 by (auto simp: f64_of_wire_def split: if_splits)
qed simp_all

lemma device_of_wire_inverse:
  "device_of_wire (device_wire d) = (if f64_finite (cpu_usage d) then Some d else None)"
  using f64_wire_finite [of "cpu_usage d"] f64_of_wire_inverse [of "cpu_usage d"]
  by (cases "f64_wire (cpu_usage d)") (auto simp: device_wire_def)

lemma snapshot_of_wire_inverse:
  "snapshot_of_wire (snapshot_wire x) = (if finite_snapshot x then Some x else None)"
proof -
  have p: "map_option policy_to_snapshot (map_option policy_from_snapshot p) = p" for p
    by (cases p) (simp_all add: policy_to_snapshot_def policy_from_snapshot_def)
  have l: "list_all (\<lambda>d. device_of_wire d \<noteq> None) (map device_wire (rs_devices x)) \<longleftrightarrow> finite_snapshot x"
    by (simp add: finite_snapshot_def list_all_iff device_of_wire_inverse)
  have m: "map (\<lambda>d. the (device_of_wire d)) (map device_wire (rs_devices x)) = rs_devices x" if "finite_snapshot x"
    using that by (simp add: finite_snapshot_def list_all_iff device_of_wire_inverse map_idI)
  show ?thesis unfolding snapshot_of_wire_def snapshot_wire_def prod.case l using m p by simp
qed

definition sample_reg_env :: reg_env where
  "sample_reg_env = \<lparr>snap_json = sample_snap_json, hash_order = rev\<rparr>"

lemma sample_reg_env_ok: "reg_env_ok sample_reg_env"
proof -
  have "json_ok (json_of_codec snapshot_codec)" using json_of_codec_ok snapshot_codec_ok .
  then have d: "decode (json_of_codec snapshot_codec) b = Some w"
    if "encode (json_of_codec snapshot_codec) w = Some b" for b w
    using that unfolding json_ok_def by blast
  have "snap_json_ok sample_snap_json"
    unfolding snap_json_ok_def sample_snap_json_def json.select_convs
    using d snapshot_of_wire_inverse by (auto simp: json_of_codec_def)
  then show ?thesis by (simp add: reg_env_ok_def sample_reg_env_def)
qed

section \<open>Semaphore\<close>

definition counting_semaphore :: "nat semaphore" where
  "counting_semaphore = \<lparr>sem_new = (\<lambda>n. if unat n < 2 ^ 61 then Some (unat n) else None),
     try_acquire = (\<lambda>m. case m of 0 \<Rightarrow> None | Suc k \<Rightarrow> Some k), add_permit = Suc\<rparr>"

lemma counting_semaphore_ok: "sem_ok counting_semaphore id"
  by (simp add: sem_ok_def counting_semaphore_def split: nat.splits)

section \<open>A control plane and a device\<close>

definition ex_reg_path :: path where
  "ex_reg_path = [''var'', ''registry.json'']"

definition ex_usage :: ResourceUsage where
  "ex_usage = \<lparr>u_cpu_usage = F64 False (1 / 4), u_memory_bytes = 4096, u_active_connections = 0, u_uptime_secs = 60\<rparr>"

definition ex_net :: net where
  "ex_net = \<lparr>uri_valid = True, tls_accepted = True, reachable = True, register_call = Delivered,
     heartbeat_call = Delivered, watch_call = Delivered\<rparr>"

definition ex_turn :: turn where
  "ex_turn = \<lparr>t_now = 100, t_net = ex_net, t_usage = ex_usage, t_rng = (\<lambda>hi. hi div 2), t_faults = []\<rparr>"

definition cut_turn :: turn where
  "cut_turn = ex_turn\<lparr>t_net := ex_net\<lparr>reachable := False\<rparr>\<rparr>"

definition ex_args :: "string Args" where
  "ex_args = \<lparr>arg_device_id = ''edge-07'', arg_hardware_id = ''hw-07'', arg_software_version = ''0.1.0'',
     arg_control_plane = ''http://cp:50051'', arg_state_path = [''var'', ''state.json''],
     arg_listen = ''0.0.0.0:80'', arg_upstream = ''10.0.0.1:80'', arg_metrics_addr = ''127.0.0.1:19091'',
     arg_tls_ca = Some [''tls'', ''ca.pem''], arg_tls_cert = Some [''tls'', ''cert.pem''],
     arg_tls_key = Some [''tls'', ''key.pem'']\<rparr>"

text \<open>A device as shipped: its TLS identity on disk, no state yet.\<close>

definition ex_tls_files :: "path \<Rightarrow> bytes option" where
  "ex_tls_files = Map.empty([''tls'', ''ca.pem''] \<mapsto> [1], [''tls'', ''cert.pem''] \<mapsto> [2], [''tls'', ''key.pem''] \<mapsto> [3])"

definition ex_agent :: agent_sys where
  "ex_agent = \<lparr>files = ex_tls_files, faults = [], store = fresh_store [''var'', ''state.json''],
     config = agent_config ex_args, m_control_plane_connected = 0, m_reconnect_total = 0,
     m_policy_version = 0\<rparr>"

definition ex_fleet :: fleet where
  "ex_fleet = \<lparr>reg = reg_boot ex_reg_path Map.empty, devs = (\<lambda>k. (ex_agent, run_backoff))\<rparr>"

definition ex_policy_42 :: Policy where
  "ex_policy_42 = default_policy\<lparr>version := 42, default_upstream := ''10.0.0.2:80''\<rparr>"

lemma ex_paths: "tmp_of ex_reg_path \<noteq> ex_reg_path" "tmp_of [''var'', ''state.json''] = [''var'', ''state.tmp'']"
  by (simp_all add: ex_reg_path_def with_extension_def file_stem_def)

lemma ex_tls: "tls_paths (agent_config ex_args) = {[''tls'', ''ca.pem''], [''tls'', ''cert.pem''], [''tls'', ''key.pem'']}"
  "tls_settings (agent_config ex_args) = 3"
  by (auto simp: tls_paths_def agent_config_def ex_args_def tls_settings_def)

lemma ex_agent_sel:
  "config ex_agent = agent_config ex_args" "state_path (agent_config ex_args) = [''var'', ''state.json'']"
  "store ex_agent = fresh_store [''var'', ''state.json'']" "files ex_agent = ex_tls_files"
  by (simp_all add: ex_agent_def agent_config_def ex_args_def)

lemma ex_tls_present: "\<forall>q \<in> tls_paths (agent_config ex_args). ex_tls_files q \<noteq> None"
  by (simp add: ex_tls ex_tls_files_def)

lemma ex_fleet_start: "fleet_start ex_reg_path ex_fleet"
  by (simp add: fleet_start_def ex_fleet_def ex_agent_sel path_ok_def ex_paths ex_tls reg_boot_def
      ex_tls_files_def Let_def)

lemma ex_turn_good: "good_turn ex_turn (agent_config ex_args)"
  by (simp add: good_turn_def ex_turn_def ex_net_def ex_usage_def ex_tls)

lemma sample_json_total: "\<forall>x. encode sample_json x \<noteq> None"
  by (simp add: sample_json_def json_of_codec_def)

end
