(* ===== verification/Edge_Telemetry.thy ===== *)
theory Edge_Telemetry
  imports Rust_Std
begin

text \<open>
  The metrics of \<open>crates/edge-telemetry/src/lib.rs\<close>: which metrics an appliance exports and
  their registration. The Prometheus registry is a parameter with its documented behaviour
  (\<open>prom_ok\<close>): an option set with a well-formed name and a help text makes a metric, and a
  registry accepts a metric whose name it does not have yet.
\<close>

section \<open>Metrics\<close>

datatype metric_kind = IntCounterKind | IntGaugeKind | GaugeKind | HistogramKind

record metric_opts =
  mo_name :: string
  mo_help :: string
  mo_kind :: metric_kind

definition metric :: "metric_kind \<Rightarrow> string \<Rightarrow> string \<Rightarrow> metric_opts" where
  "metric k n h = \<lparr>mo_name = n, mo_help = h, mo_kind = k\<rparr>"

definition edge_metric_opts :: "metric_opts list" where
  "edge_metric_opts =
     [metric IntCounterKind ''edge_proxy_connections_total'' ''Total proxied connections'',
      metric IntGaugeKind ''edge_proxy_active_connections'' ''Currently active proxied connections'',
      metric IntCounterKind ''edge_proxy_bytes_in_total'' ''Bytes client->upstream'',
      metric IntCounterKind ''edge_proxy_bytes_out_total'' ''Bytes upstream->client'',
      metric IntCounterKind ''edge_proxy_errors_total'' ''Proxy errors'',
      metric HistogramKind ''edge_proxy_connection_duration_seconds'' ''Proxied connection duration'',
      metric GaugeKind ''edge_cpu_usage'' ''CPU usage 0..1'',
      metric IntGaugeKind ''edge_memory_bytes'' ''Resident memory bytes'',
      metric IntGaugeKind ''edge_control_plane_connected'' ''1 if control plane connected'',
      metric IntCounterKind ''edge_reconnect_total'' ''Control-plane reconnects'',
      metric IntGaugeKind ''edge_policy_version'' ''Applied policy version'',
      metric IntGaugeKind ''edge_software_version''
        ''Software version as info metric (value always 1; check logs for mapping)'',
      metric IntCounterKind ''edge_ota_success_total'' ''Successful OTA updates'',
      metric IntCounterKind ''edge_ota_rollback_total'' ''OTA rollbacks'']"

section \<open>Registration\<close>

record 'r prometheus =
  registry_new :: 'r
  with_opts :: "metric_opts \<Rightarrow> string + unit"
  registry_register :: "metric_opts \<Rightarrow> 'r \<Rightarrow> string + 'r"

text \<open>Each metric is made and registered before the next; the first error ends it.\<close>

fun register_all :: "'r prometheus \<Rightarrow> metric_opts list \<Rightarrow> 'r \<Rightarrow> string + 'r" where
  "register_all P [] r = Inr r"
| "register_all P (o1 # os) r =
     (case with_opts P o1 of
        Inl e \<Rightarrow> Inl e
      | Inr _ \<Rightarrow> (case registry_register P o1 r of Inl e \<Rightarrow> Inl e | Inr r' \<Rightarrow> register_all P os r'))"

text \<open>
  The counters and gauges all start at zero. Counters are unsigned and gauges signed 64-bit
  values; the histogram is the list of its observations.
\<close>

record 'r EdgeMetrics =
  em_registry :: 'r
  em_connections_total :: u64
  em_active_connections :: "64 word"
  em_bytes_in_total :: u64
  em_bytes_out_total :: u64
  em_errors_total :: u64
  em_conn_duration :: "f64 list"
  em_cpu_usage :: f64
  em_memory_bytes :: "64 word"
  em_control_plane_connected :: "64 word"
  em_reconnect_total :: u64
  em_policy_version :: "64 word"
  em_software_version_info :: "64 word"
  em_ota_success_total :: u64
  em_ota_rollback_total :: u64

definition EdgeMetrics_new_on_registry :: "'r prometheus \<Rightarrow> 'r \<Rightarrow> string + 'r EdgeMetrics" where
  "EdgeMetrics_new_on_registry P r =
     (case register_all P edge_metric_opts r of
        Inl e \<Rightarrow> Inl e
      | Inr r' \<Rightarrow> Inr \<lparr>em_registry = r', em_connections_total = 0, em_active_connections = 0,
          em_bytes_in_total = 0, em_bytes_out_total = 0, em_errors_total = 0, em_conn_duration = [],
          em_cpu_usage = f64_zero, em_memory_bytes = 0, em_control_plane_connected = 0,
          em_reconnect_total = 0, em_policy_version = 0, em_software_version_info = 0,
          em_ota_success_total = 0, em_ota_rollback_total = 0\<rparr>)"

definition EdgeMetrics_new :: "'r prometheus \<Rightarrow> string + 'r EdgeMetrics" where
  "EdgeMetrics_new P = EdgeMetrics_new_on_registry P (registry_new P)"

text \<open>\<open>default\<close> panics where \<open>new\<close> returns an error.\<close>

definition EdgeMetrics_default :: "'r prometheus \<Rightarrow> 'r EdgeMetrics option" where
  "EdgeMetrics_default P =
     (case EdgeMetrics_new_on_registry P (registry_new P) of Inl _ \<Rightarrow> None | Inr m \<Rightarrow> Some m)"

section \<open>Endpoint\<close>

text \<open>
  Rendering gathers the registry and encodes it as text, both third-party and one argument
  here. The handler answers a failed rendering with the error as text.
\<close>

datatype 'e MetricsError = PrometheusError string | MetricsIo 'e

definition render :: "('r \<Rightarrow> string + string) \<Rightarrow> 'r EdgeMetrics \<Rightarrow> 'e MetricsError + string" where
  "render encode_text m =
     (case encode_text (em_registry m) of Inl e \<Rightarrow> Inl (PrometheusError e) | Inr body \<Rightarrow> Inr body)"

definition metrics_handler ::
  "('e MetricsError \<Rightarrow> string) \<Rightarrow> ('r \<Rightarrow> string + string) \<Rightarrow> 'r EdgeMetrics \<Rightarrow> string \<times> string" where
  "metrics_handler show_error encode_text m =
     (case render encode_text m of
        Inr body \<Rightarrow> (''text/plain; version=0.0.4'', body)
      | Inl e \<Rightarrow> (''text/plain'', ''render error: '' @ show_error e))"

text \<open>The listener is bound and asked for its address before the endpoint is spawned.\<close>

definition spawn_metrics_server ::
  "('addr \<Rightarrow> 'e + 'l) \<Rightarrow> ('l \<Rightarrow> 'e + 'addr) \<Rightarrow> 'addr \<Rightarrow> 'e MetricsError + 'addr" where
  "spawn_metrics_server bind local_addr addr =
     (case bind addr of
        Inl e \<Rightarrow> Inl (MetricsIo e)
      | Inr l \<Rightarrow> (case local_addr l of Inl e \<Rightarrow> Inl (MetricsIo e) | Inr bound \<Rightarrow> Inr bound))"

section \<open>Laws of the registry\<close>

definition name_start :: "char \<Rightarrow> bool" where
  "name_start c \<longleftrightarrow> (let n = code_of c in 65 \<le> n \<and> n \<le> 90 \<or> 97 \<le> n \<and> n \<le> 122 \<or> n = 95 \<or> n = 58)"

definition name_char :: "char \<Rightarrow> bool" where
  "name_char c \<longleftrightarrow> name_start c \<or> (let n = code_of c in 48 \<le> n \<and> n \<le> 57)"

definition valid_metric_name :: "string \<Rightarrow> bool" where
  "valid_metric_name s \<longleftrightarrow> (case s of [] \<Rightarrow> False | c # cs \<Rightarrow> name_start c \<and> list_all name_char cs)"

definition prom_ok :: "'r prometheus \<Rightarrow> ('r \<Rightarrow> string set) \<Rightarrow> bool" where
  "prom_ok P names \<longleftrightarrow>
     names (registry_new P) = {} \<and>
     (\<forall>m. valid_metric_name (mo_name m) \<and> mo_help m \<noteq> [] \<longrightarrow> with_opts P m = Inr ()) \<and>
     (\<forall>m r. valid_metric_name (mo_name m) \<and> mo_help m \<noteq> [] \<and> mo_name m \<notin> names r \<longrightarrow>
        (\<exists>r'. registry_register P m r = Inr r' \<and> names r' = insert (mo_name m) (names r)))"

definition opts_ok :: "metric_opts list \<Rightarrow> bool" where
  "opts_ok os \<longleftrightarrow> list_all (\<lambda>m. valid_metric_name (mo_name m) \<and> mo_help m \<noteq> []) os
     \<and> distinct (map mo_name os)"

lemma register_all_ok:
  assumes "prom_ok P names" and "opts_ok os" and "set (map mo_name os) \<inter> names r = {}"
  shows "\<exists>r'. register_all P os r = Inr r' \<and> names r' = names r \<union> set (map mo_name os)"
  using assms(2,3)
proof (induction os arbitrary: r)
  case (Cons m ms)
  have m: "valid_metric_name (mo_name m)" "mo_help m \<noteq> []" "mo_name m \<notin> names r"
    using Cons.prems by (simp_all add: opts_ok_def)
  from assms(1) m obtain r1 where r1: "with_opts P m = Inr ()" "registry_register P m r = Inr r1"
    "names r1 = insert (mo_name m) (names r)"
    unfolding prom_ok_def by blast
  have "opts_ok ms" "set (map mo_name ms) \<inter> names r1 = {}"
    using Cons.prems r1(3) by (auto simp: opts_ok_def)
  from Cons.IH [OF this] r1 show ?case by auto
qed simp

lemma edge_metric_opts_ok: "opts_ok edge_metric_opts"
  by code_simp

section \<open>Properties\<close>

text \<open>
  Start-up never fails on its metrics: the names of the metrics of an appliance are well
  formed and different from each other, so building the metrics succeeds, the \<open>expect\<close> in
  \<open>default\<close> does not panic, and the registry exports exactly these names.
\<close>

theorem metrics_never_panic:
  assumes "prom_ok P names"
  shows "\<exists>m. EdgeMetrics_default P = Some m \<and> EdgeMetrics_new P = Inr m
     \<and> names (em_registry m) = set (map mo_name edge_metric_opts)"
  using register_all_ok [OF assms edge_metric_opts_ok, of "registry_new P"] assms
  by (auto simp: EdgeMetrics_default_def EdgeMetrics_new_def EdgeMetrics_new_on_registry_def prom_ok_def)

end
