(* ===== verification/Edge_Main.thy ===== *)
theory Edge_Main
  imports Edge_Boot Edge_Telemetry
begin

text \<open>
  The binaries of the edge: \<open>crates/edge-proxy/src/main.rs\<close> (the forwarder alone) and
  \<open>crates/edge-agent/src/main.rs\<close> (the appliance), from their command line to the tasks that
  run and how a signal ends them. Sockets are an argument: what binding an address gives.
\<close>

section \<open>Listening\<close>

text \<open>\<open>serve_until\<close> binds its listener first; the accept loop then starts without connections.\<close>

definition serve_until :: "('addr \<Rightarrow> io_error + 'l) \<Rightarrow> 'addr ProxyConfig \<Rightarrow> 'm server \<Rightarrow> io_error + 'm proxy" where
  "serve_until bind cfg s =
     (case bind (listen_addr cfg) of Inl e \<Rightarrow> Inl e | Inr _ \<Rightarrow> Inr (proxy_start s))"

section \<open>The forwarder\<close>

text \<open>The forwarder has its own copy of the resolution.\<close>

definition proxy_resolve_upstream ::
  "(string \<Rightarrow> socket_addr list option) \<Rightarrow> string \<Rightarrow> socket_addr option" where
  "proxy_resolve_upstream lookup_host spec =
     (case parse_socket_addr spec of
        Some addr \<Rightarrow> Some addr
      | None \<Rightarrow> Option.bind (lookup_host spec) (\<lambda>addrs. case addrs of [] \<Rightarrow> None | a # _ \<Rightarrow> Some a))"

record proxy_args =
  pa_listen :: socket_addr
  pa_upstream :: string
  pa_max_connections :: u64
  pa_connect_timeout_secs :: u64
  pa_idle_timeout_secs :: u64
  pa_metrics_addr :: socket_addr

definition proxy_args_config :: "proxy_args \<Rightarrow> socket_addr \<Rightarrow> socket_addr ProxyConfig" where
  "proxy_args_config g upstream = \<lparr>listen_addr = pa_listen g, upstream_addr = upstream,
     pc_max_connections = pa_max_connections g, connect_timeout_secs = pa_connect_timeout_secs g,
     pc_idle_timeout_secs = pa_idle_timeout_secs g, transparent = False\<rparr>"

datatype main_error = Resolving | MetricsBind "io_error MetricsError" | Booting boot_error | Serving io_error
  | TaskPanicked | SignalWait | MainPanics

record ('m, 'r) running =
  run_cfg :: "socket_addr ProxyConfig"
  run_metrics :: "'r EdgeMetrics"
  run_metrics_addr :: "socket_addr option"
  run_dataplane :: "io_error + 'm proxy"

text \<open>The metrics endpoint is best effort: the forwarder starts without it.\<close>

definition edge_proxy_main ::
  "'r prometheus \<Rightarrow> 'm semaphore \<Rightarrow> (string \<Rightarrow> socket_addr list option) \<Rightarrow> (socket_addr \<Rightarrow> io_error + 'l)
     \<Rightarrow> ('l \<Rightarrow> io_error + socket_addr) \<Rightarrow> proxy_args \<Rightarrow> main_error + ('m, 'r) running" where
  "edge_proxy_main P S lookup_host bind local_addr g =
     (case proxy_resolve_upstream lookup_host (pa_upstream g) of None \<Rightarrow> Inl Resolving | Some u \<Rightarrow>
      let cfg = proxy_args_config g u in
      case EdgeMetrics_default P of None \<Rightarrow> Inl MainPanics | Some m \<Rightarrow>
      let bound = (case spawn_metrics_server bind local_addr (pa_metrics_addr g) of Inl _ \<Rightarrow> None | Inr a \<Rightarrow> Some a) in
      case ProxyServer_new S cfg of None \<Rightarrow> Inl MainPanics | Some s \<Rightarrow>
      Inr \<lparr>run_cfg = cfg, run_metrics = m, run_metrics_addr = bound, run_dataplane = serve_until bind cfg s\<rparr>)"

text \<open>
  What \<open>main\<close> waits for: a signal, or the end of the serving task. After a signal it asks for
  shutdown, waits a second and returns, whatever the connections do.
\<close>

datatype serve_end = ServeOk | ServeErr io_error | ServePanicked

datatype main_event = CtrlC | ServeEnds serve_end

fun edge_proxy_exit :: "main_event \<Rightarrow> main_error + bool" where
  "edge_proxy_exit CtrlC = Inr True"
| "edge_proxy_exit (ServeEnds ServePanicked) = Inl TaskPanicked"
| "edge_proxy_exit (ServeEnds (ServeErr e)) = Inl (Serving e)"
| "edge_proxy_exit (ServeEnds ServeOk) = Inr False"

section \<open>The appliance\<close>

record ('m, 'r) appliance = "('m, 'r) running" +
  run_store :: StateStore

text \<open>
  The state store is opened twice: for the dataplane's configuration and for the agent. Here the
  metrics endpoint has to come up. The serving task is spawned and never looked at again, so
  its result is only recorded.
\<close>

definition edge_agent_main ::
  "Persisted json \<Rightarrow> 'r prometheus \<Rightarrow> 'm semaphore \<Rightarrow> (string \<Rightarrow> socket_addr list option)
     \<Rightarrow> (socket_addr \<Rightarrow> io_error + 'l) \<Rightarrow> ('l \<Rightarrow> io_error + socket_addr) \<Rightarrow> socket_addr Args
     \<Rightarrow> ('z fs_scheme, main_error, ('m, 'r) appliance) act" where
  "edge_agent_main js P S lookup_host bind local_addr g =
     (case EdgeMetrics_default P of None \<Rightarrow> act_err MainPanics | Some m \<Rightarrow>
      case spawn_metrics_server bind local_addr (arg_metrics_addr g) of Inl e \<Rightarrow> act_err (MetricsBind e) | Inr bound \<Rightarrow>
      act_try (act_map_err Booting (agent_boot js (resolve_upstream lookup_host) g)) (\<lambda>cfg.
      case ProxyServer_new S cfg of None \<Rightarrow> act_err MainPanics | Some s \<Rightarrow>
      act_try (act_map_err (Booting \<circ> OpenStateStore) (EdgeAgent_new js (agent_config g))) (\<lambda>st.
      act_ok \<lparr>run_cfg = cfg, run_metrics = m, run_metrics_addr = Some bound,
        run_dataplane = serve_until bind cfg s, run_store = st\<rparr>)))"

text \<open>One tick of the appliance's bridge: only the gauge of active connections.\<close>

definition agent_metrics_tick :: "ConnectionCounters \<Rightarrow> 'r EdgeMetrics \<Rightarrow> 'r EdgeMetrics" where
  "agent_metrics_tick c m = m\<lparr>em_active_connections := c_active c\<rparr>"

section \<open>Lemmas\<close>

lemma resolve_literal: "parse_socket_addr spec = Some a \<Longrightarrow> resolve_upstream lookup_host spec = Some a"
  by (simp add: resolve_upstream_def)

lemma parse_nothing: "parse_socket_addr [] = None"
  by (simp add: parse_socket_addr_def read_socket_addr_v4_def read_socket_addr_v6_def read_ipv4_addr_def read_octet_def
      read_separator_def read_number_def)

lemma proxy_resolve_same: "proxy_resolve_upstream lookup_host spec = resolve_upstream lookup_host spec"
  by (auto simp: proxy_resolve_upstream_def resolve_upstream_def split: option.splits list.splits)

lemma new_server:
  assumes "sem_ok S av" and "unat (pc_max_connections cfg) < 2 ^ 61"
  shows "\<exists>m. ProxyServer_new S cfg = Some \<lparr>counters = default_counters, sem = m\<rparr>"
proof -
  let ?n = "max (pc_max_connections cfg) 1"
  have "unat ?n < 2 ^ 61" using assms(2) by (simp add: unat_max)
  moreover have "case sem_new S ?n of None \<Rightarrow> 2 ^ 61 \<le> unat ?n | Some m \<Rightarrow> unat ?n < 2 ^ 61 \<and> av m = unat ?n"
    using assms(1) unfolding sem_ok_def by blast
  ultimately show ?thesis by (auto simp: ProxyServer_new_def split: option.splits)
qed

lemma open_again:
  assumes "faults s = []" and "reopen js (arg_state_path g) (files s) = Some st"
  shows "EdgeAgent_new js (agent_config g) s = (Inr st, s)"
proof -
  have "StateStore_open js (arg_state_path g) s = (Inr st, s)" using open_reopen [OF assms(1)] assms(2) by simp
  then show ?thesis by (simp add: EdgeAgent_new_def agent_config_def act_defs)
qed

section \<open>Properties\<close>

text \<open>
  C20. The appliance starts cut off from everything: with a synchronized policy on disk, upstreams that
  are literal addresses and a metrics endpoint that can be bound, whatever the resolver would say and without any contact to the control plane,
  the forwarder gets the policy's upstream and limits and the agent the same stored state.
  Start-up succeeds whether or not the forwarder could bind its port.
\<close>

theorem appliance_starts_cut_off:
  assumes "prom_ok P names" and "sem_ok S av"
    and "spawn_metrics_server bind local_addr (arg_metrics_addr g) = Inr bound"
    and "faults s = []" and "reopen js (arg_state_path g) (files s) = Some st" and "has_synced_policy st"
    and "parse_socket_addr (default_upstream (last_good_policy st)) = Some a"
    and "parse_socket_addr (arg_upstream g) = Some b"
  shows "\<exists>r. fst (edge_agent_main js P S lookup_host bind local_addr g s) = Inr r
     \<and> run_cfg r = \<lparr>listen_addr = arg_listen g, upstream_addr = a,
         pc_max_connections = ucast (max_connections (last_good_policy st)), connect_timeout_secs = 5,
         pc_idle_timeout_secs = idle_timeout_secs (last_good_policy st), transparent = False\<rparr>
     \<and> run_store r = st
     \<and> (case bind (arg_listen g) of
          Inl e \<Rightarrow> run_dataplane r = Inl e
        | Inr _ \<Rightarrow> \<exists>w. run_dataplane r = Inr w \<and> listening w \<and> tasks w = []
            \<and> av (sem (srv w)) = max (unat (max_connections (last_good_policy st))) 1)"
proof -
  obtain m where m: "EdgeMetrics_default P = Some m" using metrics_never_panic [OF assms(1)] by blast
  let ?p = "last_good_policy st" and ?res = "resolve_upstream lookup_host"
  let ?cfg = "\<lparr>listen_addr = arg_listen g, upstream_addr = a, pc_max_connections = ucast (max_connections ?p),
      connect_timeout_secs = 5, pc_idle_timeout_secs = idle_timeout_secs ?p, transparent = False\<rparr>"
  have "default_upstream ?p \<noteq> []" using assms(7) parse_nothing by fastforce
  then have "proxy_config ?res g st = Some ?cfg"
    using assms(6) resolve_literal [OF assms(7), of lookup_host] resolve_literal [OF assms(8), of lookup_host]
    by (simp add: proxy_config_def choose_upstream_def)
  then have boot: "fst (agent_boot js ?res g s) = Inr ?cfg" using agent_boot_reopen [OF assms(4,5), of ?res] by simp
  have "snd (agent_boot js ?res g s) = s"
    using open_again [OF assms(4,5)] \<open>proxy_config ?res g st = Some ?cfg\<close> by (simp add: agent_boot_def act_defs)
  with boot have boot: "agent_boot js ?res g s = (Inr ?cfg, s)" by (simp add: prod_eq_iff)
  have max: "unat (ucast (max_connections ?p) :: u64) = unat (max_connections ?p)" by (rule unat_ucast_up) simp
  moreover have "unat (max_connections ?p) < 2 ^ 61"
    using unsigned_less [of "max_connections ?p", where 'a = nat] by simp
  ultimately obtain x where x: "ProxyServer_new S ?cfg = Some \<lparr>counters = default_counters, sem = x\<rparr>"
    using new_server [OF assms(2), of ?cfg] by auto
  then have "sem_new S (max (ucast (max_connections ?p)) 1) = Some x" by (auto simp: ProxyServer_new_def)
  then have "av x = max (unat (max_connections ?p)) 1"
    using assms(2) max unfolding sem_ok_def by (metis (mono_tags, lifting) option.simps(5) unat_max unsigned_1)
  with boot x m assms(3) open_again [OF assms(4,5)] show ?thesis
    by (cases "bind (arg_listen g)")
      (simp_all add: edge_agent_main_def act_defs serve_until_def proxy_start_def o_def)
qed

text \<open>
  The forwarder alone: with a literal upstream it starts whatever DNS says and whether or not
  its metrics port can be bound; a port it cannot listen on is what its serving task ends
  with, and then the process ends with that error.
\<close>

theorem forwarder_starts_without_dns:
  assumes "prom_ok P names" and "sem_ok S av" and "unat (pa_max_connections g) < 2 ^ 61"
    and "parse_socket_addr (pa_upstream g) = Some a"
  shows "\<exists>r. edge_proxy_main P S lookup_host bind local_addr g = Inr r \<and> run_cfg r = proxy_args_config g a
     \<and> (\<forall>e. bind (pa_listen g) = Inl e \<longrightarrow> run_dataplane r = Inl e
          \<and> edge_proxy_exit (ServeEnds (ServeErr e)) = Inl (Serving e))"
proof -
  obtain m where m: "EdgeMetrics_default P = Some m" using metrics_never_panic [OF assms(1)] by blast
  obtain x where "ProxyServer_new S (proxy_args_config g a) = Some \<lparr>counters = default_counters, sem = x\<rparr>"
    using new_server [OF assms(2), of "proxy_args_config g a"] assms(3) by (auto simp: proxy_args_config_def)
  then show ?thesis
    using m resolve_literal [OF assms(4), of lookup_host]
    by (simp add: edge_proxy_main_def proxy_resolve_same Let_def serve_until_def proxy_args_config_def)
qed

end
