(* ===== verification/Proxy_Clock.thy ===== *)
theory Proxy_Clock
  imports Edge_Proxy
begin

text \<open>
  The dataplane in time. A connection task waits for a peer at two places, for the upstream to
  accept and for the relay to end, and \<open>handle_one\<close> and \<open>relay\<close> wrap both waits in
  \<open>tokio::time::timeout\<close>. Here the server of \<open>Edge_Proxy\<close> gets a clock in nanoseconds. Of the
  runtime it assumes what Tokio documents: a timer does not fire before its time, and a task
  that can go on is run after at most some time \<open>lag\<close>. Peers promise nothing.
\<close>

section \<open>Clocks\<close>

text \<open>The timeout around the wait a task is in.\<close>

definition wait_timeout :: "'addr ProxyConfig \<Rightarrow> pc \<Rightarrow> duration option" where
  "wait_timeout cfg t = (case t of
       Connecting \<Rightarrow> Some (connect_timeout cfg)
     | Relaying \<Rightarrow> Some (idle_timeout cfg)
     | _ \<Rightarrow> None)"

definition awaits_peer :: "pc \<Rightarrow> bool" where
  "awaits_peer t \<longleftrightarrow> t = Connecting \<or> t = Relaying"

text \<open>How long a task can stay where it is: forever if it waits for a peer without a timeout.\<close>

definition patience :: "nat \<Rightarrow> 'addr ProxyConfig \<Rightarrow> pc \<Rightarrow> nat option" where
  "patience lag cfg t =
     (if finished t then None
      else if awaits_peer t then map_option (\<lambda>d. as_nanos d + lag) (wait_timeout cfg t)
      else Some lag)"

text \<open>The time, the server, and since when each task has been where it is.\<close>

record 'm timed =
  clock :: nat
  server_at :: "'m proxy"
  since :: "nat list"

definition timed_start :: "'m server \<Rightarrow> 'm timed" where
  "timed_start s = \<lparr>clock = 0, server_at = proxy_start s, since = []\<rparr>"

definition timer_fires :: "'addr ProxyConfig \<Rightarrow> outcome \<Rightarrow> pc \<Rightarrow> nat \<Rightarrow> bool" where
  "timer_fires cfg out t elapsed \<longleftrightarrow> (if out = ForConnect ConnectTimeout \<or> out = ForRelay RelayTimeout
     then (case wait_timeout cfg t of None \<Rightarrow> False | Some d \<Rightarrow> as_nanos d \<le> elapsed) else True)"

definition in_time :: "nat \<Rightarrow> 'addr ProxyConfig \<Rightarrow> pc \<Rightarrow> nat \<Rightarrow> nat \<Rightarrow> bool" where
  "in_time lag cfg t entered now \<longleftrightarrow> (case patience lag cfg t of None \<Rightarrow> True | Some m \<Rightarrow> now \<le> entered + m)"

datatype timed_event = Pass nat | Do proxy_event

text \<open>Time passes as long as no task is overdue; a timeout is an outcome only when its time has come.\<close>

fun timed_exec :: "'m semaphore \<Rightarrow> nat \<Rightarrow> 'addr ProxyConfig \<Rightarrow> timed_event \<Rightarrow> 'm timed \<Rightarrow> 'm timed option" where
  "timed_exec S lag cfg (Pass n) w =
     (if list_all2 (\<lambda>t b. in_time lag cfg t b (clock w + n)) (tasks (server_at w)) (since w)
      then Some (w\<lparr>clock := clock w + n\<rparr>) else None)"
| "timed_exec S lag cfg (Do (Task i out)) w =
     (if i < length (since w) \<and> timer_fires cfg out (tasks (server_at w) ! i) (clock w - since w ! i)
      then map_option (\<lambda>p. w\<lparr>server_at := p, since := (since w)[i := clock w]\<rparr>) (proxy_exec S (Task i out) (server_at w))
      else None)"
| "timed_exec S lag cfg (Do Accept) w =
     map_option (\<lambda>p. w\<lparr>server_at := p, since := since w @ [clock w]\<rparr>) (proxy_exec S Accept (server_at w))"
| "timed_exec S lag cfg (Do e) w = map_option (\<lambda>p. w\<lparr>server_at := p\<rparr>) (proxy_exec S e (server_at w))"

section \<open>Budgets\<close>

text \<open>The longest a task can take from where it stands to its end.\<close>

definition drain_time :: "nat \<Rightarrow> 'addr ProxyConfig \<Rightarrow> nat" where
  "drain_time lag cfg = as_nanos (connect_timeout cfg) + as_nanos (idle_timeout cfg) + 9 * lag"

definition budget :: "nat \<Rightarrow> 'addr ProxyConfig \<Rightarrow> pc \<Rightarrow> nat" where
  "budget lag cfg t = work t * lag + (case t of
       TryAcquire \<Rightarrow> as_nanos (connect_timeout cfg) + as_nanos (idle_timeout cfg)
     | IncTotal \<Rightarrow> as_nanos (connect_timeout cfg) + as_nanos (idle_timeout cfg)
     | IncActive \<Rightarrow> as_nanos (connect_timeout cfg) + as_nanos (idle_timeout cfg)
     | Connecting \<Rightarrow> as_nanos (connect_timeout cfg) + as_nanos (idle_timeout cfg)
     | Relaying \<Rightarrow> as_nanos (idle_timeout cfg)
     | _ \<Rightarrow> 0)"

lemmas clock_defs = patience_def awaits_peer_def wait_timeout_def finished_def

lemma work_le: "work t \<le> 9"
  by (cases t) auto

lemma budget_le: "budget lag cfg t \<le> drain_time lag cfg"
  using mult_le_mono1 [OF work_le, of t lag] by (cases t) (auto simp: budget_def drain_time_def)

lemma patience_unfinished: "\<not> finished t \<Longrightarrow> \<exists>m. patience lag cfg t = Some m \<and> m \<le> budget lag cfg t"
  by (cases t) (auto simp: clock_defs budget_def)

lemma budget_step:
  assumes "handle_one S out t s = Some (t', s')" and "patience lag cfg t = Some m"
  shows "m + budget lag cfg t' \<le> budget lag cfg t"
  using assms by (elim handle_one_SomeE) (auto simp: clock_defs budget_def relay_result_def
      split: option.splits connect_outcome.splits relay_outcome.splits)

lemma own_step:
  assumes "\<not> finished t" and "patience lag cfg t = Some m" and "m \<le> elapsed"
  shows "\<exists>out \<in> {Auto, ForConnect ConnectTimeout, ForRelay RelayTimeout}.
     timer_fires cfg out t elapsed \<and> handle_one S out t s \<noteq> None"
  using assms by (cases t) (auto simp: clock_defs timer_fires_def split: option.splits)

section \<open>Invariants\<close>

definition on_time :: "nat \<Rightarrow> 'addr ProxyConfig \<Rightarrow> 'm timed \<Rightarrow> bool" where
  "on_time lag cfg w \<longleftrightarrow> list_all2 (\<lambda>t b. b \<le> clock w \<and> in_time lag cfg t b (clock w)) (tasks (server_at w)) (since w)"

text \<open>Every task can still be done by a given moment.\<close>

definition done_by :: "nat \<Rightarrow> 'addr ProxyConfig \<Rightarrow> nat \<Rightarrow> 'm timed \<Rightarrow> bool" where
  "done_by lag cfg D w \<longleftrightarrow> \<not> listening (server_at w)
     \<and> list_all2 (\<lambda>t b. finished t \<or> b + budget lag cfg t \<le> D) (tasks (server_at w)) (since w)"

lemma in_time_fresh [simp]: "in_time lag cfg t b b"
  by (simp add: in_time_def split: option.splits)

lemma timed_task_cases:
  assumes "timed_exec S lag cfg (Do (Task i out)) w = Some u"
  obtains t s where "i < length (tasks (server_at w))" "i < length (since w)"
    "handle_one S out (tasks (server_at w) ! i) (srv (server_at w)) = Some (t, s)"
    "u = w\<lparr>server_at := (server_at w)\<lparr>srv := s, tasks := (tasks (server_at w))[i := t]\<rparr>, since := (since w)[i := clock w]\<rparr>"
  using assms by (auto split: if_splits option.splits)

lemma on_time_exec:
  assumes "timed_exec S lag cfg e w = Some u" and "on_time lag cfg w"
  shows "on_time lag cfg u"
proof (cases e)
  case (Pass n)
  with assms show ?thesis by (auto simp: on_time_def list_all2_conv_all_nth split: if_splits)
next
  case (Do p)
  show ?thesis
  proof (cases p)
    case (Task i out)
    with assms(1) Do obtain t s where "u = w\<lparr>server_at := (server_at w)\<lparr>srv := s, tasks := (tasks (server_at w))[i := t]\<rparr>,
        since := (since w)[i := clock w]\<rparr>" using timed_task_cases by blast
    with assms(2) show ?thesis by (simp add: on_time_def list_all2_update_cong)
  qed (use assms Do in \<open>auto simp: on_time_def list_all2_lengthD intro!: list_all2_appendI split: if_splits\<close>)
qed

lemma done_by_exec:
  assumes "timed_exec S lag cfg e w = Some u" and "on_time lag cfg w" and "done_by lag cfg D w"
  shows "done_by lag cfg D u"
proof (cases e)
  case (Pass n)
  with assms show ?thesis by (auto simp: done_by_def split: if_splits)
next
  case (Do p)
  show ?thesis
  proof (cases p)
    case (Task i out)
    with assms(1) Do obtain t s where h: "i < length (tasks (server_at w))" "i < length (since w)"
      "handle_one S out (tasks (server_at w) ! i) (srv (server_at w)) = Some (t, s)"
      "u = w\<lparr>server_at := (server_at w)\<lparr>srv := s, tasks := (tasks (server_at w))[i := t]\<rparr>, since := (since w)[i := clock w]\<rparr>"
      using timed_task_cases by blast
    let ?t = "tasks (server_at w) ! i" and ?b = "since w ! i"
    have nf: "\<not> finished ?t" using h(3) by (auto simp: finished_def)
    then obtain m where m: "patience lag cfg ?t = Some m" using patience_unfinished by blast
    have "clock w \<le> ?b + m" using assms(2) h(1) m by (auto simp: on_time_def in_time_def list_all2_conv_all_nth)
    moreover have "?b + budget lag cfg ?t \<le> D" using assms(3) h(1) nf by (auto simp: done_by_def list_all2_conv_all_nth)
    ultimately have "clock w + budget lag cfg t \<le> D" using budget_step [OF h(3) m] by linarith
    with assms(3) h(4) show ?thesis by (auto simp: done_by_def intro!: list_all2_update_cong)
  qed (use assms(1,3) Do in \<open>auto simp: done_by_def split: if_splits\<close>)
qed

lemma timed_proxy:
  assumes "exec_all (timed_exec S lag cfg) es w = Some u"
  shows "\<exists>ps. proxy_run S (server_at w) ps (server_at u)"
  using assms
proof (induction es arbitrary: w)
  case (Cons e es)
  then obtain v where v: "timed_exec S lag cfg e w = Some v" "exec_all (timed_exec S lag cfg) es v = Some u"
    by (auto split: option.splits)
  have "\<exists>ps. proxy_run S (server_at w) ps (server_at v)"
  proof (cases e)
    case (Pass n)
    with v(1) have "server_at v = server_at w" by (auto split: if_splits)
    then show ?thesis using run_Nil by metis
  next
    case (Do p)
    with v(1) have "proxy_exec S p (server_at w) = Some (server_at v)"
      by (cases p) (auto simp del: proxy_exec.simps split: if_splits)
    then show ?thesis using run_Cons run_Nil by blast
  qed
  with Cons.IH [OF v(2)] run_append show ?case by blast
qed (auto intro: run_Nil)

text \<open>Each step of a task costs it work; nobody else touches it.\<close>

definition steps_of :: "nat \<Rightarrow> timed_event list \<Rightarrow> nat" where
  "steps_of i es = length (filter (\<lambda>e. case e of Do (Task j out) \<Rightarrow> j = i | _ \<Rightarrow> False) es)"

lemma steps_exec:
  assumes "timed_exec S lag cfg e w = Some u" and "\<not> listening (server_at w)"
  shows "\<not> listening (server_at u) \<and> length (tasks (server_at u)) = length (tasks (server_at w))
     \<and> (if i < length (tasks (server_at w)) then steps_of i [e] + work (tasks (server_at u) ! i) \<le> work (tasks (server_at w) ! i)
        else steps_of i [e] = 0)"
proof (cases e)
  case (Do p)
  show ?thesis
  proof (cases p)
    case (Task j out)
    with assms(1) Do obtain t s where "j < length (tasks (server_at w))"
      "handle_one S out (tasks (server_at w) ! j) (srv (server_at w)) = Some (t, s)"
      "u = w\<lparr>server_at := (server_at w)\<lparr>srv := s, tasks := (tasks (server_at w))[j := t]\<rparr>, since := (since w)[j := clock w]\<rparr>"
      using timed_task_cases by blast
    with work_decreases Do Task assms(2) show ?thesis by (fastforce simp: steps_of_def nth_list_update)
  qed (use assms Do in \<open>auto simp: steps_of_def split: if_splits\<close>)
qed (use assms in \<open>auto simp: steps_of_def split: if_splits\<close>)

lemma steps_run:
  assumes "exec_all (timed_exec S lag cfg) es w = Some u" and "\<not> listening (server_at w)"
  shows "if i < length (tasks (server_at w)) then steps_of i es + work (tasks (server_at u) ! i) \<le> work (tasks (server_at w) ! i)
     else steps_of i es = 0"
  using assms
proof (induction es arbitrary: w)
  case (Cons e es)
  then obtain v where v: "timed_exec S lag cfg e w = Some v" "exec_all (timed_exec S lag cfg) es v = Some u"
    by (auto split: option.splits)
  have "steps_of i (e # es) = steps_of i [e] + steps_of i es" by (simp add: steps_of_def)
  with Cons.IH [OF v(2)] steps_exec [OF v(1) Cons.prems(2), of i] show ?case by (auto split: if_splits)
qed (simp add: steps_of_def)

lemma on_time_run:
  assumes "exec_all (timed_exec S lag cfg) es (timed_start s) = Some w"
  shows "on_time lag cfg w"
  using assms by (rule exec_all_invariant [where I = "\<lambda>_. on_time lag cfg"])
    (auto simp: on_time_def timed_start_def proxy_start_def intro: on_time_exec [unfolded on_time_def])

lemma done_by_run:
  assumes "exec_all (timed_exec S lag cfg) fs w = Some u" and w: "on_time lag cfg w" and "\<not> listening (server_at w)"
  shows "on_time lag cfg u \<and> done_by lag cfg (clock w + drain_time lag cfg) u"
proof -
  have "done_by lag cfg (clock w + drain_time lag cfg) w"
    using assms(2,3) budget_le [of lag cfg]
    by (auto simp: done_by_def on_time_def list_all2_conv_all_nth intro: add_mono)
  with w show ?thesis
    by (intro exec_all_invariant [OF assms(1), where I = "\<lambda>_ v. on_time lag cfg v \<and> done_by lag cfg (clock w + drain_time lag cfg) v"])
      (use on_time_exec done_by_exec in blast)+
qed

text \<open>When no time can pass, some task is overdue, and it can go on without its peer.\<close>

lemma time_or_task:
  assumes "on_time lag cfg u"
  shows "(\<exists>v. timed_exec S lag cfg (Pass 1) u = Some v)
     \<or> (\<exists>j. \<exists>out \<in> {Auto, ForConnect ConnectTimeout, ForRelay RelayTimeout}. \<exists>v. timed_exec S lag cfg (Do (Task j out)) u = Some v)"
proof (cases "\<exists>j < length (tasks (server_at u)). \<not> in_time lag cfg (tasks (server_at u) ! j) (since u ! j) (clock u + 1)")
  case True
  then obtain j where j: "j < length (tasks (server_at u))"
    and late: "\<not> in_time lag cfg (tasks (server_at u) ! j) (since u ! j) (clock u + 1)" by blast
  let ?t = "tasks (server_at u) ! j"
  from late obtain m where m: "patience lag cfg ?t = Some m" "m \<le> clock u - since u ! j"
    by (auto simp: in_time_def split: option.splits)
  then have "\<not> finished ?t" by (auto simp: patience_def)
  from own_step [OF this m, of S "srv (server_at u)"] obtain out
    where out: "out \<in> {Auto, ForConnect ConnectTimeout, ForRelay RelayTimeout}" "timer_fires cfg out ?t (clock u - since u ! j)"
      "handle_one S out ?t (srv (server_at u)) \<noteq> None" by blast
  moreover have "j < length (since u)" using j assms by (auto simp: on_time_def dest: list_all2_lengthD)
  ultimately have "\<exists>v. timed_exec S lag cfg (Do (Task j out)) u = Some v" using j by auto
  with out(1) show ?thesis by blast
next
  case False
  with assms show ?thesis by (auto simp: on_time_def list_all2_conv_all_nth)
qed

lemma late_finished:
  assumes "on_time lag cfg u" and "done_by lag cfg D u" and "D < clock u"
  shows "list_all finished (tasks (server_at u))"
proof -
  have "finished (tasks (server_at u) ! j)" if j: "j < length (tasks (server_at u))" for j
  proof (rule ccontr)
    assume nf: "\<not> finished (tasks (server_at u) ! j)"
    from patience_unfinished [OF nf] obtain m where m: "patience lag cfg (tasks (server_at u) ! j) = Some m"
      "m \<le> budget lag cfg (tasks (server_at u) ! j)" by blast
    have "clock u \<le> since u ! j + m" using assms(1) j m by (auto simp: on_time_def in_time_def list_all2_conv_all_nth)
    moreover have "since u ! j + budget lag cfg (tasks (server_at u) ! j) \<le> D"
      using assms(2) j nf by (auto simp: done_by_def list_all2_conv_all_nth)
    ultimately show False using assms(3) m by simp
  qed
  then show ?thesis by (simp add: list_all_length)
qed

section \<open>Properties\<close>

text \<open>
  C10. Shutdown drains, in bounded time and whatever the peers do. After the accept loop has ended a
  connection makes at most nine more steps; as long as one is left, time can pass or a
  connection can go on by itself or by its timeout, without its peer; and once the connect
  timeout, the idle timeout and nine times the lag of the runtime have passed, every connection
  has ended, none is active and all permits are back.
\<close>

theorem proxy_drains:
  assumes "sem_ok S av" and "ProxyServer_new S cfg = Some s0"
    and "exec_all (timed_exec S lag cfg) es (timed_start s0) = Some w" and "\<not> listening (server_at w)"
    and "exec_all (timed_exec S lag cfg) fs w = Some u"
  shows "steps_of i fs \<le> 9
     \<and> ((\<exists>v. timed_exec S lag cfg (Pass 1) u = Some v)
        \<or> (\<exists>j. \<exists>out \<in> {Auto, ForConnect ConnectTimeout, ForRelay RelayTimeout}.
             \<exists>v. timed_exec S lag cfg (Do (Task j out)) u = Some v))
     \<and> (clock w + as_nanos (connect_timeout cfg) + as_nanos (idle_timeout cfg) + 9 * lag < clock u
        \<longrightarrow> list_all finished (tasks (server_at u)) \<and> c_active (counters (srv (server_at u))) = 0
          \<and> av (sem (srv (server_at u))) = capacity cfg)"
  (is "_ \<and> (?passes \<or> ?moves) \<and> (?late \<longrightarrow> ?drained)")
proof (intro conjI impI)
  show "steps_of i fs \<le> 9"
    using steps_run [OF assms(5,4), of i] work_le [of "tasks (server_at w) ! i"] by (auto split: if_splits)
  note inv = done_by_run [OF assms(5) on_time_run [OF assms(3)] assms(4)]
  then show "?passes \<or> ?moves" using time_or_task by blast
  assume "?late"
  then have "clock w + drain_time lag cfg < clock u" by (simp add: drain_time_def)
  then have f: "list_all finished (tasks (server_at u))" using late_finished inv by blast
  obtain ps qs where "proxy_run S (proxy_start s0) ps (server_at w)" "proxy_run S (server_at w) qs (server_at u)"
    using timed_proxy [OF assms(3)] timed_proxy [OF assms(5)] by (auto simp: timed_start_def)
  then have r: "proxy_run S (proxy_start s0) (ps @ qs) (server_at u)" by (rule run_append)
  have "c_active (counters s0) = 0" using assms(2) by (auto simp: ProxyServer_new_def default_counters_def)
  with active.ledger [OF r] have "c_active (counters (srv (server_at u))) = 0"
    by (simp add: sum_tally finished_filter [OF f])
  then show "list_all finished (tasks (server_at u))" "c_active (counters (srv (server_at u))) = 0"
    "av (sem (srv (server_at u))) = capacity cfg"
    using f permits_account(1) [OF assms(1,2) r] by (simp_all add: finished_filter [OF f])
qed

end
