(* ===== verification/Edge_Health.thy ===== *)
theory Edge_Health
  imports Backoff Rust_Std
begin

text \<open>
  \<open>crates/edge-health/src/lib.rs\<close>: health evaluation, the fail-open bypass behind the
  \<open>BypassController\<close> trait, the watchdog and the memory probe. A trait object is a record of
  its methods over the controller's state. Commands of the hardware controller run outside
  the program: their outcomes are a schedule in its state.
\<close>

section \<open>Data\<close>

datatype HealthError = Probe string | Bypass string

datatype HealthState = Unknown | Healthy | Degraded | Unhealthy

instantiation HealthState :: default
begin

definition default_HealthState :: HealthState where
  "default_HealthState = Unknown"

instance ..

end

definition is_healthy :: "HealthState \<Rightarrow> bool" where
  "is_healthy h \<longleftrightarrow> h = Healthy"

record 'c bypass_ops =
  enable_bypass :: "('c, HealthError, unit) act"
  disable_bypass :: "('c, HealthError, unit) act"
  bypass_enabled :: "'c \<Rightarrow> bool"

section \<open>Controllers\<close>

record MockBypassController =
  mock_enabled :: bool

definition Mock_new :: MockBypassController where
  "Mock_new = \<lparr>mock_enabled = False\<rparr>"

definition mock_ops :: "MockBypassController bypass_ops" where
  "mock_ops = \<lparr>enable_bypass = act_update (\<lambda>c. c\<lparr>mock_enabled := True\<rparr>),
     disable_bypass = act_update (\<lambda>c. c\<lparr>mock_enabled := False\<rparr>),
     bypass_enabled = mock_enabled\<rparr>"

text \<open>
  What \<open>sh -c cmd\<close> under a timeout can do: time out, fail to start, or exit with a status
  (shown as text) and an error output. The schedule holds the outcomes of the coming
  commands; when it is empty, commands succeed. The commands handed to the shell so far are
  kept beside it.
\<close>

datatype cmd_outcome = TimedOut | SpawnFailed string | Exited bool string string

record ExecBypassController =
  enable_cmd :: string
  disable_cmd :: string
  x_timeout :: duration
  x_enabled :: bool
  outcomes :: "cmd_outcome list"
  attempted :: "string list"

definition Exec_new :: "string \<Rightarrow> string \<Rightarrow> duration \<Rightarrow> cmd_outcome list \<Rightarrow> ExecBypassController" where
  "Exec_new e d t os = \<lparr>enable_cmd = e, disable_cmd = d, x_timeout = t, x_enabled = False, outcomes = os, attempted = []\<rparr>"

definition next_outcome :: "string \<Rightarrow> ExecBypassController \<Rightarrow> cmd_outcome \<times> ExecBypassController" where
  "next_outcome cmd c =
     (case outcomes c of
        [] \<Rightarrow> (Exited True ''exit status: 0'' [], c\<lparr>attempted := attempted c @ [cmd]\<rparr>)
      | x # xs \<Rightarrow> (x, c\<lparr>outcomes := xs, attempted := attempted c @ [cmd]\<rparr>))"

definition exec_run :: "string \<Rightarrow> string \<Rightarrow> (ExecBypassController, HealthError, unit) act" where
  "exec_run cmd action c =
     (let (x, c') = next_outcome cmd c
      in case x of
           TimedOut \<Rightarrow> (Inl (Bypass (action @ '' command timed out'')), c')
         | SpawnFailed e \<Rightarrow> (Inl (Bypass (action @ '' spawn failed: '' @ e)), c')
         | Exited ok status err \<Rightarrow>
             if ok then (Inr (), c')
             else (Inl (Bypass (action @ '' exited '' @ status @ '': '' @ trim err)), c'))"

definition exec_ops :: "ExecBypassController bypass_ops" where
  "exec_ops = \<lparr>
     enable_bypass = act_with (\<lambda>c.
       act_try (exec_run (enable_cmd c) ''enable-bypass'') (\<lambda>_.
       act_update (\<lambda>c. c\<lparr>x_enabled := True\<rparr>))),
     disable_bypass = act_with (\<lambda>c.
       act_try (exec_run (disable_cmd c) ''disable-bypass'') (\<lambda>_.
       act_update (\<lambda>c. c\<lparr>x_enabled := False\<rparr>))),
     bypass_enabled = x_enabled\<rparr>"

section \<open>Supervisor\<close>

record SupervisorInput =
  proxy_alive :: bool
  control_plane_connected :: bool
  si_cpu_usage :: f64
  si_memory_bytes :: u64
  memory_limit_bytes :: u64
  si_active_connections :: u64
  si_software_version :: string
  si_policy_version :: u64
  consecutive_proxy_failures :: u32

record Supervisor =
  max_cpu :: f64
  watchdog_timeout :: duration

text \<open>The bypass controller the source keeps in the supervisor is an argument of \<open>maybe_actuate\<close> here.\<close>

definition Supervisor_new :: "f64 \<Rightarrow> duration \<Rightarrow> Supervisor" where
  "Supervisor_new cpu timeout = \<lparr>max_cpu = cpu, watchdog_timeout = timeout\<rparr>"

definition Supervisor_evaluate :: "Supervisor \<Rightarrow> SupervisorInput \<Rightarrow> HealthState" where
  "Supervisor_evaluate s i =
     (if \<not> proxy_alive i \<or> 5 \<le> consecutive_proxy_failures i then Unhealthy
      else if f64_gt (si_cpu_usage i) (max_cpu s) then Degraded
      else if 0 < memory_limit_bytes i \<and> memory_limit_bytes i < si_memory_bytes i then Degraded
      else Healthy)"

definition maybe_actuate ::
  "'c bypass_ops \<Rightarrow> HealthState \<Rightarrow> SupervisorInput \<Rightarrow> bool \<Rightarrow> ('c, HealthError, unit) act" where
  "maybe_actuate ops st i fail_open_on_proxy_death = act_with (\<lambda>c.
     if st = Unhealthy \<and> \<not> proxy_alive i \<and> fail_open_on_proxy_death \<and> \<not> bypass_enabled ops c
     then enable_bypass ops
     else if st = Healthy \<and> bypass_enabled ops c then disable_bypass ops
     else act_ok ())"

section \<open>Watchdog\<close>

text \<open>Instants are readings of the monotonic clock in nanoseconds.\<close>

record Watchdog =
  wd_timeout :: duration
  last_pet :: nat
  wd_name :: string

definition Watchdog_new :: "nat \<Rightarrow> string \<Rightarrow> duration \<Rightarrow> Watchdog" where
  "Watchdog_new now n t = \<lparr>wd_timeout = t, last_pet = now, wd_name = n\<rparr>"

definition pet :: "nat \<Rightarrow> Watchdog \<Rightarrow> Watchdog" where
  "pet now w = w\<lparr>last_pet := now\<rparr>"

definition is_expired :: "nat \<Rightarrow> Watchdog \<Rightarrow> bool" where
  "is_expired now w \<longleftrightarrow> as_nanos (wd_timeout w) < now - last_pet w"

section \<open>Memory probe\<close>

text \<open>
  \<open>read_memory_bytes\<close> on the contents of \<open>/proc/self/status\<close> (\<open>None\<close> when it cannot be read).
  The product with 1024 wraps at 64 bits.
\<close>

fun scan_vmrss :: "string list \<Rightarrow> u64 option" where
  "scan_vmrss [] = None"
| "scan_vmrss (l # ls) =
     (case strip_prefix ''VmRSS:'' l of
        None \<Rightarrow> scan_vmrss ls
      | Some rest \<Rightarrow> (case first_word rest of
            None \<Rightarrow> None
          | Some w \<Rightarrow> map_option (\<lambda>kb. kb * 1024) (parse_u64 w)))"

definition read_memory_bytes :: "string option \<Rightarrow> u64 option" where
  "read_memory_bytes content = Option.bind content (\<lambda>c. scan_vmrss (lines c))"

section \<open>Supervision over time\<close>

text \<open>
  The repository leaves the loop around the supervisor to its user. Here it is one that evaluates
  and actuates once per input, gets the result of every call, and goes on after an error.
\<close>

primrec supervise ::
  "'c bypass_ops \<Rightarrow> Supervisor \<Rightarrow> bool \<Rightarrow> SupervisorInput list \<Rightarrow> 'c \<Rightarrow> (HealthError + unit) list \<times> 'c" where
  "supervise ops s fo [] c = ([], c)"
| "supervise ops s fo (i # is) c =
     (case maybe_actuate ops (Supervisor_evaluate s i) i fo c of
        (r, d) \<Rightarrow> (case supervise ops s fo is d of (rs, e) \<Rightarrow> (r # rs, e)))"

text \<open>Where such a loop leaves the controller, round by round.\<close>

definition supervise_round ::
  "'c bypass_ops \<Rightarrow> Supervisor \<Rightarrow> bool \<Rightarrow> SupervisorInput \<Rightarrow> 'c \<Rightarrow> 'c" where
  "supervise_round ops s fo i c = snd (maybe_actuate ops (Supervisor_evaluate s i) i fo c)"

text \<open>The bypass that the inputs call for: a dead proxy turns it on, good health turns it off.\<close>

definition wanted_bypass :: "Supervisor \<Rightarrow> bool \<Rightarrow> SupervisorInput \<Rightarrow> bool \<Rightarrow> bool" where
  "wanted_bypass s fo i on =
     (if \<not> proxy_alive i \<and> fo then True else if Supervisor_evaluate s i = Healthy then False else on)"

section \<open>The controller contract\<close>

text \<open>
  What the supervisor relies on: a command that succeeds has switched the bypass, a command
  that fails has not changed it.
\<close>

text \<open>Before the first evaluation the state is unknown, which is not healthy and actuates nothing.\<close>

lemma default_state_inert: "\<not> is_healthy default \<and> maybe_actuate ops default i fo c = (Inr (), c)"
  by (simp add: default_HealthState_def is_healthy_def maybe_actuate_def act_defs)

locale bypass_controller =
  fixes ops :: "'c bypass_ops"
  assumes enable_ok: "enable_bypass ops c = (Inr (), d) \<Longrightarrow> bypass_enabled ops d"
    and disable_ok: "disable_bypass ops c = (Inr (), d) \<Longrightarrow> \<not> bypass_enabled ops d"
    and enable_err: "enable_bypass ops c = (Inl e, d) \<Longrightarrow> bypass_enabled ops d = bypass_enabled ops c"
    and disable_err: "disable_bypass ops c = (Inl e, d) \<Longrightarrow> bypass_enabled ops d = bypass_enabled ops c"
begin

lemma round_result:
  assumes "maybe_actuate ops (Supervisor_evaluate s i) i fo c = (r, d)"
  shows "bypass_enabled ops d =
     (if r = Inr () then wanted_bypass s fo i (bypass_enabled ops c) else bypass_enabled ops c)"
proof -
  have "\<not> proxy_alive i \<Longrightarrow> Supervisor_evaluate s i = Unhealthy" by (simp add: Supervisor_evaluate_def)
  moreover have "r = Inr () \<or> (\<exists>e. r = Inl e)" by (cases r) auto
  ultimately show ?thesis
    using assms enable_ok disable_ok enable_err disable_err
    by (auto simp: maybe_actuate_def wanted_bypass_def act_with_def act_ok_def split: if_splits)
qed

lemma round_step:
  "bypass_enabled ops (supervise_round ops s fo i c)
     \<in> {wanted_bypass s fo i (bypass_enabled ops c), bypass_enabled ops c}"
  using round_result [of s i fo c] unfolding supervise_round_def
  by (cases "maybe_actuate ops (Supervisor_evaluate s i) i fo c") (auto split: if_splits)

lemma never_without_cause:
  assumes "\<not> bypass_enabled ops c" and "\<And>i. i \<in> set is \<Longrightarrow> proxy_alive i \<or> \<not> fo"
  shows "\<not> bypass_enabled ops (fold (supervise_round ops s fo) is c)"
  using assms
proof (induction "is" arbitrary: c)
  case (Cons i xs)
  have "\<not> wanted_bypass s fo i (bypass_enabled ops c)"
    using Cons.prems(1) Cons.prems(2) [of i] by (auto simp: wanted_bypass_def)
  then have "\<not> bypass_enabled ops (supervise_round ops s fo i c)"
    using round_step [of s fo i c] Cons.prems(1) by auto
  then show ?case using Cons.IH Cons.prems(2) by simp
qed simp

lemma stays_on_while_dead:
  assumes "bypass_enabled ops c" and "\<And>i. i \<in> set is \<Longrightarrow> \<not> proxy_alive i"
  shows "bypass_enabled ops (fold (supervise_round ops s True) is c)"
  using assms
proof (induction "is" arbitrary: c)
  case (Cons i xs)
  have "wanted_bypass s True i (bypass_enabled ops c)"
    using Cons.prems by (simp add: wanted_bypass_def)
  then have "bypass_enabled ops (supervise_round ops s True i c)"
    using round_step [of s True i c] Cons.prems(1) by auto
  then show ?case using Cons.IH Cons.prems(2) by simp
qed simp

end

text \<open>A controller whose commands never fail follows the inputs exactly.\<close>

locale reliable_bypass = bypass_controller +
  assumes enable_total: "fst (enable_bypass ops c) = Inr ()"
    and disable_total: "fst (disable_bypass ops c) = Inr ()"
begin

lemma follows:
  "bypass_enabled ops (fold (supervise_round ops s fo) is c)
     = fold (wanted_bypass s fo) is (bypass_enabled ops c)"
proof (induction "is" arbitrary: c)
  case (Cons i xs)
  have "fst (maybe_actuate ops (Supervisor_evaluate s i) i fo c) = Inr ()"
    by (auto simp: maybe_actuate_def act_with_def act_ok_def enable_total disable_total)
  then have "bypass_enabled ops (supervise_round ops s fo i c)
      = wanted_bypass s fo i (bypass_enabled ops c)"
    using round_result [of s i fo c] unfolding supervise_round_def
    by (cases "maybe_actuate ops (Supervisor_evaluate s i) i fo c") auto
  then show ?case using Cons.IH by simp
qed simp

end

interpretation mock: reliable_bypass mock_ops
  by unfold_locales (auto simp: mock_ops_def act_update_def)

lemma supervise_rounds: "snd (supervise ops s fo is c) = fold (supervise_round ops s fo) is c"
  by (induction "is" arbitrary: c) (simp_all add: supervise_round_def split: prod.splits, metis snd_conv)

lemma exec_run_effect:
  "exec_run cmd a c = (r, d) \<Longrightarrow> \<exists>os. d = c\<lparr>outcomes := os, attempted := attempted c @ [cmd]\<rparr>"
  by (cases c) (auto simp: exec_run_def next_outcome_def Let_def
      split: list.splits cmd_outcome.splits if_splits)

interpretation exec: bypass_controller exec_ops
  by unfold_locales
    (auto simp: exec_ops_def act_with_def act_try_Inr_iff act_try_Inl_iff act_update_def
      dest!: exec_run_effect)

section \<open>Fail-open on the hardware controller\<close>

fun succeeds :: "cmd_outcome \<Rightarrow> bool" where
  "succeeds (Exited ok _ _) = ok"
| "succeeds _ = False"

lemma dead_round:
  assumes "\<not> proxy_alive i"
  shows "maybe_actuate exec_ops (Supervisor_evaluate s i) i True c =
     (if x_enabled c then (Inr (), c) else enable_bypass exec_ops c)"
  using assms by (simp add: maybe_actuate_def Supervisor_evaluate_def act_with_def act_ok_def exec_ops_def)

lemma enable_outcome:
  assumes "outcomes c = x # xs"
  shows "isl (fst (enable_bypass exec_ops c)) = (\<not> succeeds x)"
    and "snd (enable_bypass exec_ops c) = c\<lparr>outcomes := xs, attempted := attempted c @ [enable_cmd c],
      x_enabled := (x_enabled c \<or> succeeds x)\<rparr>"
  using assms by (cases x; simp add: exec_ops_def act_defs exec_run_def next_outcome_def Let_def)+

lemma dead_rounds_on:
  assumes "\<And>i. i \<in> set is \<Longrightarrow> \<not> proxy_alive i" and "x_enabled c"
  shows "supervise exec_ops s True is c = (replicate (length is) (Inr ()), c)"
  using assms by (induction "is") (simp_all add: dead_round)

section \<open>Lemmas on the probe\<close>

lemma digit_code: "digit_val c \<noteq> None \<Longrightarrow> 48 \<le> code_of c \<and> code_of c \<le> 57"
  by (simp add: digit_val_def split: if_splits)

lemma show_u64_word:
  assumes "set w \<subseteq> {CHR '' '', CHR 0x09}"
  shows "first_word (w @ show_u64 n @ CHR '' '' # t) = Some (show_u64 n)"
proof (rule first_word_ascii)
  show "32 < code_of c \<and> code_of c < 128" if "c \<in> set (show_u64 n)" for c
    using that digit_code [OF show_nat_digits] by (fastforce simp: show_u64_def)
qed (simp_all add: show_u64_def assms)

lemma scan_vmrss_found:
  assumes "\<And>l. l \<in> set pre \<Longrightarrow> strip_prefix ''VmRSS:'' l = None"
    and "set w \<subseteq> {CHR '' '', CHR 0x09}"
  shows "scan_vmrss (pre @ (''VmRSS:'' @ w @ show_u64 n @ '' kB'') # post) = Some (n * 1024)"
  using assms(1)
proof (induction pre)
  case Nil
  show ?case
    using show_u64_word [OF assms(2), of n "''kB''"] strip_prefix_append [of "''VmRSS:''"]
    by (simp add: parse_show_u64 del: strip_prefix_append)
qed simp

section \<open>Properties\<close>

text \<open>
  Fail-open only on proxy death. Whatever the commands of the hardware controller do and
  however many rounds of supervision run, the bypass is on at the end only if it was on at
  the start, or some round saw a dead proxy with fail-open configured.
\<close>

theorem exec_bypass_cause:
  assumes "bypass_enabled exec_ops (fold (supervise_round exec_ops s fo) is c)"
    and "\<not> bypass_enabled exec_ops c"
  shows "fo \<and> (\<exists>i \<in> set is. \<not> proxy_alive i)"
  using exec.never_without_cause [of c "is" fo s] assms by blast

text \<open>
  Losing the control plane never matters to the dataplane: with any controller, changing
  the connection flag of any inputs changes neither a verdict nor what is done to the bypass.
\<close>

theorem control_plane_irrelevant:
  "map (Supervisor_evaluate s) (map (\<lambda>i. i\<lparr>control_plane_connected := f i\<rparr>) is)
     = map (Supervisor_evaluate s) is
   \<and> fold (supervise_round ops s fo) (map (\<lambda>i. i\<lparr>control_plane_connected := f i\<rparr>) is) c
     = fold (supervise_round ops s fo) is c"
proof -
  have e: "Supervisor_evaluate s (i\<lparr>control_plane_connected := b\<rparr>) = Supervisor_evaluate s i" for i b
    by (simp add: Supervisor_evaluate_def)
  have "(\<lambda>i. supervise_round ops s fo (i\<lparr>control_plane_connected := f i\<rparr>)) = supervise_round ops s fo"
    by (intro ext) (simp add: supervise_round_def maybe_actuate_def e)
  then show ?thesis by (simp add: e fold_map o_def)
qed

text \<open>
  C23. Retry until the relay moves: while the proxy stays dead and fail-open is configured, a call
  with the bypass off runs the enable command once and reports its failure, and after the
  first success nothing more is run. So with the coming outcomes of the command given, the
  rounds try it until it succeeds or they are over, the errors are those of the failed tries,
  and the bypass counts as on exactly if one of the tries succeeded.
\<close>

theorem exec_bypass_retries:
  assumes "\<And>i. i \<in> set is \<Longrightarrow> \<not> proxy_alive i" and "\<not> x_enabled c" and "length is \<le> length (outcomes c)"
  defines "failures \<equiv> length (takeWhile (\<lambda>x. \<not> succeeds x) (take (length is) (outcomes c)))"
  defines "tries \<equiv> min (length is) (Suc failures)"
  shows "case supervise exec_ops s True is c of (rs, d) \<Rightarrow>
     attempted d = attempted c @ replicate tries (enable_cmd c) \<and> outcomes d = drop tries (outcomes c)
     \<and> map isl rs = replicate failures True @ replicate (length is - failures) False
     \<and> (bypass_enabled exec_ops d \<longleftrightarrow> (\<exists>x \<in> set (take (length is) (outcomes c)). succeeds x))"
  using assms(1-3) unfolding tries_def failures_def
proof (induction "is" arbitrary: c)
  case (Cons i js)
  obtain x xs where o: "outcomes c = x # xs" using Cons.prems(3) by (cases "outcomes c") auto
  let ?d = "snd (enable_bypass exec_ops c)"
  obtain r where r: "enable_bypass exec_ops c = (r, ?d)" "isl r = (\<not> succeeds x)"
    using enable_outcome(1) [OF o] by (metis prod.collapse)
  have step: "supervise exec_ops s True (i # js) c = (case supervise exec_ops s True js ?d of (rs, e) \<Rightarrow> (r # rs, e))"
    using dead_round [of i s c] Cons.prems(1,2) by (simp, subst r(1)) simp
  note d = enable_outcome(2) [OF o]
  show ?case
  proof (cases "succeeds x")
    case True
    then have "x_enabled ?d" using d by simp
    with Cons.prems(1) have "supervise exec_ops s True js ?d = (replicate (length js) (Inr ()), ?d)"
      by (intro dead_rounds_on) simp_all
    with step d o True r show ?thesis by (simp add: exec_ops_def)
  next
    case False
    have "\<And>i. i \<in> set js \<Longrightarrow> \<not> proxy_alive i" "\<not> x_enabled ?d" "length js \<le> length (outcomes ?d)"
      using Cons.prems d o False by simp_all
    from Cons.IH [OF this] step d o False r(2) show ?thesis
      by (auto simp: min_def split: prod.splits)
  qed
qed (simp add: exec_ops_def)

text \<open>
  A controller whose commands cannot fail tracks the inputs exactly: after any rounds the
  bypass is on precisely when the last decisive round (a dead proxy under fail-open, or a
  healthy verdict) called for it.
\<close>

theorem mock_bypass_follows:
  "bypass_enabled mock_ops (fold (supervise_round mock_ops s fo) is c)
     = fold (wanted_bypass s fo) is (bypass_enabled mock_ops c)"
  by (rule mock.follows)

text \<open>
  The watchdog of a task petted at the times \<open>ts\<close> has not expired at a later moment exactly
  when that moment is at most the timeout after the last pet.
\<close>

theorem watchdog_expiry:
  assumes "last (t0 # ts) \<le> now"
  shows "is_expired now (fold pet ts (Watchdog_new t0 n d)) \<longleftrightarrow> last (t0 # ts) + as_nanos d < now"
proof -
  have "last_pet (fold pet ts w) = last (last_pet w # ts) \<and> wd_timeout (fold pet ts w) = wd_timeout w" for w
    by (induction ts arbitrary: w) (auto simp: pet_def)
  then show ?thesis
    using assms by (auto simp: is_expired_def Watchdog_new_def)
qed

text \<open>
  The memory probe reads back the resident size: on a status file whose first \<open>VmRSS:\<close>
  line carries a number of kilobytes behind any spaces and tabs, the probe returns that
  number times 1024 (in 64-bit arithmetic).
\<close>

theorem read_memory_bytes_vmrss:
  assumes "\<And>l. l \<in> set pre \<Longrightarrow> strip_prefix ''VmRSS:'' l = None"
    and "set w \<subseteq> {CHR '' '', CHR 0x09}"
    and "\<And>l. l \<in> set (pre @ post) \<Longrightarrow> CHR 0x0A \<notin> set l \<and> chomp_cr l = l"
  shows "read_memory_bytes (Some (unlines (pre @ (''VmRSS:'' @ w @ show_u64 n @ '' kB'') # post)))
     = Some (n * 1024)"
proof -
  let ?l = "''VmRSS:'' @ w @ show_u64 n @ '' kB''"
  have "CHR 0x0A \<notin> set (show_u64 n)"
    using show_nat_digits [of "CHR 0x0A" "unat n"] by (auto simp: show_u64_def digit_val_def)
  then have "CHR 0x0A \<notin> set ?l \<and> chomp_cr ?l = ?l"
    using assms(2) by (auto simp: chomp_cr_def)
  then have "lines (unlines (pre @ ?l # post)) = pre @ ?l # post"
    using assms(3) by (intro lines_unlines) auto
  then show ?thesis
    using scan_vmrss_found [OF assms(1,2)] by (simp add: read_memory_bytes_def)
qed

end
