(* ===== verification/Rust_Float.thy ===== *)
theory Rust_Float
  imports Rust_Std "HOL-Library.Log_Nat"
begin

text \<open>
  The arithmetic of Rust's \<open>f64\<close> that the probes and the load generator use: rounding to the
  nearest binary64 number with ties to even, the operations as the rounded exact results,
  the conversions from and to integers, and \<open>str::parse::<f64>\<close>.
\<close>

section \<open>Rounding\<close>

text \<open>The exponent of the leading bit of a positive rational.\<close>

definition f64_exp :: "rat \<Rightarrow> int" where
  "f64_exp x = (let (a, b) = quotient_of x; e = bitlen a - bitlen b
     in if 2 powi e \<le> x then e else e - 1)"

definition f64_ulp :: "rat \<Rightarrow> rat" where
  "f64_ulp x = 2 powi (max (f64_exp x - 52) (- 1074))"

text \<open>The nearest multiple of the unit, and the binary64 number with that magnitude.\<close>

definition nearest :: "rat \<Rightarrow> rat" where
  "nearest x = of_int (round_half_even (x / f64_ulp x)) * f64_ulp x"

definition f64_round :: "bool \<Rightarrow> rat \<Rightarrow> f64" where
  "f64_round s x = (let v = nearest x in if 2 ^ 1024 \<le> v then F64_inf s else F64 s v)"

section \<open>Operations\<close>

fun f64_add :: "f64 \<Rightarrow> f64 \<Rightarrow> f64" where
  "f64_add (F64 s x) (F64 t y) =
     (let v = (if s then - x else x) + (if t then - y else y)
      in f64_round (if v = 0 then s \<and> t else v < 0) \<bar>v\<bar>)"
| "f64_add (F64_inf s) (F64_inf t) = (if s = t then F64_inf s else F64_nan)"
| "f64_add (F64_inf s) (F64 t y) = F64_inf s"
| "f64_add (F64 s x) (F64_inf t) = F64_inf t"
| "f64_add _ _ = F64_nan"

fun f64_mul :: "f64 \<Rightarrow> f64 \<Rightarrow> f64" where
  "f64_mul (F64 s x) (F64 t y) = f64_round (s \<noteq> t) (x * y)"
| "f64_mul (F64_inf s) (F64_inf t) = F64_inf (s \<noteq> t)"
| "f64_mul (F64_inf s) (F64 t y) = (if y = 0 then F64_nan else F64_inf (s \<noteq> t))"
| "f64_mul (F64 s x) (F64_inf t) = (if x = 0 then F64_nan else F64_inf (s \<noteq> t))"
| "f64_mul _ _ = F64_nan"

fun f64_div :: "f64 \<Rightarrow> f64 \<Rightarrow> f64" where
  "f64_div (F64 s x) (F64 t y) =
     (if y = 0 then (if x = 0 then F64_nan else F64_inf (s \<noteq> t)) else f64_round (s \<noteq> t) (x / y))"
| "f64_div (F64_inf s) (F64 t y) = F64_inf (s \<noteq> t)"
| "f64_div (F64 s x) (F64_inf t) = F64 (s \<noteq> t) 0"
| "f64_div _ _ = F64_nan"

text \<open>\<open>f64::max\<close> ignores a NaN, \<open>f64::clamp\<close> keeps it.\<close>

definition f64_max :: "f64 \<Rightarrow> f64 \<Rightarrow> f64" where
  "f64_max x y = (if x = F64_nan then y else if f64_lt x y then y else x)"

definition f64_clamp :: "f64 \<Rightarrow> f64 \<Rightarrow> f64 \<Rightarrow> f64" where
  "f64_clamp lo hi x = (if f64_lt x lo then lo else if f64_lt hi x then hi else x)"

fun f64_ceil :: "f64 \<Rightarrow> f64" where
  "f64_ceil (F64 s x) = (if s then F64 True (of_int \<lfloor>x\<rfloor>) else F64 False (of_int \<lceil>x\<rceil>))"
| "f64_ceil x = x"

text \<open>\<open>n as f64\<close>, and the saturating \<open>x as u64\<close>.\<close>

definition f64_of_nat :: "nat \<Rightarrow> f64" where
  "f64_of_nat n = f64_round False (of_nat n)"

fun f64_to_u64 :: "f64 \<Rightarrow> u64" where
  "f64_to_u64 F64_nan = 0"
| "f64_to_u64 (F64_inf s) = (if s then 0 else - 1)"
| "f64_to_u64 (F64 s x) = (if s then 0 else if 2 ^ 64 \<le> x then - 1 else of_int \<lfloor>x\<rfloor>)"

section \<open>Parsing\<close>

text \<open>The leading digits of a string and the rest.\<close>

definition span_digits :: "string \<Rightarrow> string \<times> string" where
  "span_digits s = (takeWhile (\<lambda>c. digit_val c \<noteq> None) s, dropWhile (\<lambda>c. digit_val c \<noteq> None) s)"

abbreviation digits_nat :: "string \<Rightarrow> nat" where
  "digits_nat s \<equiv> case_option 0 id (digits_val 0 s)"

text \<open>The exponent stops growing at 65536.\<close>

definition exponent_val :: "string \<Rightarrow> nat" where
  "exponent_val s = fold (\<lambda>c e. if e < 65536 then 10 * e + case_option 0 id (digit_val c) else e) s 0"

definition parse_exponent :: "string \<Rightarrow> int option" where
  "parse_exponent s = (case s of
       [] \<Rightarrow> Some 0
     | c # r \<Rightarrow>
         if c = CHR ''e'' \<or> c = CHR ''E'' then
           (let neg = (r \<noteq> [] \<and> hd r = CHR ''-'');
                ds = (if r \<noteq> [] \<and> hd r \<in> {CHR ''-'', CHR ''+''} then tl r else r)
            in if ds \<noteq> [] \<and> snd (span_digits ds) = []
               then Some (if neg then - int (exponent_val ds) else int (exponent_val ds)) else None)
         else None)"

text \<open>Digits with an optional point, at least one digit, and an optional exponent.\<close>

definition parse_number :: "string \<Rightarrow> rat option" where
  "parse_number s =
     (let (ip, r) = span_digits s;
          (fp, r') = (if r \<noteq> [] \<and> hd r = CHR ''.'' then span_digits (tl r) else ([], r))
      in if ip = [] \<and> fp = [] then None
         else map_option (\<lambda>e. of_nat (digits_nat (ip @ fp)) * 10 powi (e - int (length fp))) (parse_exponent r'))"

definition parse_f64 :: "string \<Rightarrow> f64 option" where
  "parse_f64 s =
     (let neg = (s \<noteq> [] \<and> hd s = CHR ''-'');
          body = (if s \<noteq> [] \<and> hd s \<in> {CHR ''-'', CHR ''+''} then tl s else s)
      in case parse_number body of
           Some x \<Rightarrow> Some (f64_round neg x)
         | None \<Rightarrow>
             (let w = to_lowercase body
              in if w = ''nan'' then Some F64_nan
                 else if w = ''inf'' \<or> w = ''infinity'' then Some (F64_inf neg) else None))"

section \<open>Lemmas on rounding\<close>

lemma round_half_even_error: "\<bar>of_int (round_half_even x) - x\<bar> \<le> 1 / 2"
proof -
  have "of_int \<lfloor>x\<rfloor> \<le> x" "x < of_int \<lfloor>x\<rfloor> + 1" using floor_correct [of x] by simp_all
  then show ?thesis by (auto simp: round_half_even_def Let_def abs_le_iff)
qed

lemma round_half_even_ge: "of_int k \<le> x \<Longrightarrow> k \<le> round_half_even x"
  by (auto simp: round_half_even_def Let_def simp flip: le_floor_iff)

lemma round_half_even_le: "x \<le> of_int k \<Longrightarrow> round_half_even x \<le> k"
proof -
  assume x: "x \<le> of_int k"
  then have "\<lfloor>x\<rfloor> \<le> k" using floor_mono [OF x] by simp
  moreover have "x = of_int k" if "\<lfloor>x\<rfloor> = k" using that x of_int_floor_le [of x] by simp
  ultimately show ?thesis by (cases "\<lfloor>x\<rfloor> = k") (auto simp: round_half_even_def Let_def)
qed

lemma powi_2_pos [simp]: "(0 :: rat) < 2 powi e"
  by simp

lemma powi_2_le_iff [simp]: "(2 :: rat) powi d \<le> 2 powi e \<longleftrightarrow> d \<le> e"
  by (metis one_less_numeral_iff power_int_strict_increasing power_int_increasing linorder_not_less
      one_le_numeral semiring_norm(76))

lemma powi_2_less_iff [simp]: "(2 :: rat) powi d < 2 powi e \<longleftrightarrow> d < e"
  by (simp add: less_le_not_le)

lemma powi_2_nat: "(2 :: rat) powi int n = 2 ^ n"
  by simp

lemma f64_exp_bounds:
  assumes "0 < x"
  shows "2 powi (f64_exp x) \<le> x" and "x < 2 powi (f64_exp x + 1)"
proof -
  obtain a b where q: "quotient_of x = (a, b)" by fastforce
  then have x: "x = of_int a / of_int b" and b: "0 < b"
    using quotient_of_div quotient_of_denom_pos by blast+
  then have a: "0 < a" using assms by (simp add: zero_less_divide_iff)
  have bl: "2 powi (bitlen c - 1) \<le> (of_int c :: rat) \<and> of_int c < (2 :: rat) powi bitlen c" if "0 < c" for c
  proof -
    have l: "0 < bitlen c" using that by (metis bitlen_eq_zero_iff bitlen_nonneg linorder_not_less order_le_less)
    have "2 ^ nat (bitlen c - 1) \<le> c" "c < 2 ^ nat (bitlen c)" using bitlen_bounds [OF that] by simp_all
    then have "(2 :: rat) ^ nat (bitlen c - 1) \<le> of_int c" "of_int c < (2 :: rat) ^ nat (bitlen c)"
      by (metis of_int_le_iff of_int_less_iff of_int_power of_int_numeral)+
    then show ?thesis using l by (simp add: power_int_def)
  qed
  define e where "e = bitlen a - bitlen b"
  note ba = bl [OF a] and bb = bl [OF b]
  have "(2 :: rat) powi (bitlen a - 1) / 2 powi bitlen b \<le> x" "x < 2 powi bitlen a / 2 powi (bitlen b - 1)"
    unfolding x using ba bb a b by (auto intro!: frac_le frac_less simp: less_imp_le)
  then have "2 powi (e - 1) \<le> x" "x < 2 powi (e + 1)"
    by (simp_all add: e_def power_int_diff [symmetric] algebra_simps flip: power_int_diff)
  then show "2 powi (f64_exp x) \<le> x" and "x < 2 powi (f64_exp x + 1)"
    by (auto simp: f64_exp_def q Let_def e_def)
qed

lemma round_half_even_zero [simp]: "round_half_even 0 = 0"
  by (simp add: round_half_even_def)

lemma f64_ulp_pos [simp]: "0 < f64_ulp x" "f64_ulp x \<noteq> 0" "0 \<le> f64_ulp x"
  by (simp_all add: f64_ulp_def)

lemma f64_ulp_le:
  assumes "0 < x" and "x \<le> 2 powi k" and "- 1022 \<le> k"
  shows "f64_ulp x \<le> 2 powi (k - 52)"
proof -
  have "(2 :: rat) powi (f64_exp x) \<le> 2 powi k" using f64_exp_bounds(1) [OF assms(1)] assms(2) by (rule order_trans)
  with assms(3) show ?thesis by (simp add: f64_ulp_def)
qed

lemma nearest_error: "\<bar>nearest x - x\<bar> \<le> f64_ulp x / 2"
proof -
  have "\<bar>nearest x - x\<bar> = \<bar>of_int (round_half_even (x / f64_ulp x)) - x / f64_ulp x\<bar> * f64_ulp x"
    by (simp add: nearest_def abs_mult_pos left_diff_distrib)
  also have "\<dots> \<le> 1 / 2 * f64_ulp x"
    using round_half_even_error f64_ulp_pos [of x] by (intro mult_right_mono) (simp_all add: less_imp_le)
  finally show ?thesis by simp
qed

lemma nearest_nonneg: "0 \<le> x \<Longrightarrow> 0 \<le> nearest x"
  using round_half_even_ge [of 0 "x / f64_ulp x"] by (simp add: nearest_def)

lemma nearest_zero [simp]: "nearest 0 = 0"
  by (simp add: nearest_def)

text \<open>Below \<open>2 ^ 53\<close> an integer is a multiple of the unit, so rounding does not cross it.\<close>

lemma ulp_divides:
  assumes "0 < x" and "x \<le> 2 ^ 52"
  shows "\<exists>m. of_int k / f64_ulp x = of_int m"
proof -
  have "f64_exp x \<le> 52"
    using order_trans [OF f64_exp_bounds(1) [OF assms(1)] assms(2)] powi_2_le_iff [of "f64_exp x" 52] by simp
  then obtain j where j: "max (f64_exp x - 52) (- 1074) = - int j" by (metis max_def nonpos_int_cases
        diff_le_0_iff_le neg_le_0_iff_le zero_le_numeral)
  have "of_int k / f64_ulp x = of_int (k * 2 ^ j)" by (simp add: f64_ulp_def j power_int_minus divide_inverse)
  then show ?thesis ..
qed

lemma nearest_ge_int:
  assumes "0 < x" and "x \<le> 2 ^ 52" and "of_int k \<le> x"
  shows "of_int k \<le> nearest x"
proof -
  obtain m where m: "of_int k / f64_ulp x = of_int m" using ulp_divides [OF assms(1,2)] by blast
  have "of_int m \<le> x / f64_ulp x" unfolding m [symmetric] using assms(3) by (simp add: divide_right_mono less_imp_le)
  then have "(of_int m :: rat) \<le> of_int (round_half_even (x / f64_ulp x))" using round_half_even_ge by simp
  then have "of_int m * f64_ulp x \<le> nearest x" by (simp add: nearest_def mult_right_mono)
  then show ?thesis by (simp add: m [symmetric])
qed

lemma nearest_le_int:
  assumes "0 < x" and "x \<le> 2 ^ 52" and "x \<le> of_int k"
  shows "nearest x \<le> of_int k"
proof -
  obtain m where m: "of_int k / f64_ulp x = of_int m" using ulp_divides [OF assms(1,2)] by blast
  have "x / f64_ulp x \<le> of_int m" unfolding m [symmetric] using assms(3) by (simp add: divide_right_mono less_imp_le)
  then have "of_int (round_half_even (x / f64_ulp x)) \<le> (of_int m :: rat)" using round_half_even_le by simp
  then have "nearest x \<le> of_int m * f64_ulp x" by (simp add: nearest_def mult_right_mono)
  then show ?thesis by (simp add: m [symmetric])
qed

lemma f64_round_finite:
  assumes "0 \<le> x" and "x \<le> 2 ^ 52"
  shows "f64_round s x = F64 s (nearest x)"
proof (cases "x = 0")
  case False
  then have "nearest x \<le> of_int (2 ^ 52)" using assms by (intro nearest_le_int) simp_all
  also have "\<dots> < 2 ^ 1024" by simp
  finally show ?thesis by (simp add: f64_round_def Let_def)
qed (simp add: f64_round_def Let_def)

lemma f64_of_nat_exact: "n \<le> 2 ^ 52 \<Longrightarrow> f64_of_nat n = F64 False (of_nat n)"
proof (cases "n = 0")
  case False
  assume n: "n \<le> 2 ^ 52"
  then have "(of_nat n :: rat) \<le> 2 ^ 52" by (metis of_nat_le_iff of_nat_numeral of_nat_power)
  moreover from this False have "nearest (of_nat n) = of_nat n"
    using nearest_ge_int [of "of_nat n" "int n"] nearest_le_int [of "of_nat n" "int n"] by simp
  ultimately show ?thesis by (simp add: f64_of_nat_def f64_round_finite)
qed (simp add: f64_of_nat_def f64_round_finite)

text \<open>A normal number is rounded with a relative error of at most \<open>2 ^ -53\<close>.\<close>

lemma nearest_relative:
  assumes "2 powi k \<le> x" and "- 1022 \<le> k"
  shows "\<bar>nearest x - x\<bar> \<le> x / 2 ^ 53"
proof -
  have "0 < x" using assms(1) powi_2_pos [of k] by linarith
  note b = f64_exp_bounds [OF this]
  have "(2 :: rat) powi k < 2 powi (f64_exp x + 1)" using assms(1) b(2) by (rule order_le_less_trans)
  then have "max (f64_exp x - 52) (- 1074) = f64_exp x - 52" using assms(2) by simp
  then have "f64_ulp x = 2 powi (f64_exp x) / 2 ^ 52" by (simp add: f64_ulp_def power_int_diff)
  then have "f64_ulp x / 2 \<le> x / 2 ^ 53" using b(1) by simp
  with nearest_error [of x] show ?thesis by linarith
qed

lemma f64_round_cases:
  obtains "f64_round s x = F64_inf s" | "f64_round s x = F64 s (nearest x)"
  by (cases "2 ^ 1024 \<le> nearest x") (auto simp: f64_round_def Let_def)

lemma f64_of_nat_finite:
  assumes "n < 2 ^ 64"
  shows "f64_of_nat n = F64 False (nearest (of_nat n)) \<and> (nearest (of_nat n) = 0 \<longleftrightarrow> n = 0)"
proof (cases "n = 0")
  case False
  let ?n = "of_nat n :: rat"
  have "of_nat n \<le> (of_nat (2 ^ 64) :: rat)" using assms by (simp only: of_nat_le_iff less_imp_le)
  then have n: "?n \<le> 2 ^ 64" "1 \<le> ?n" using False by simp_all
  have "(2 :: rat) powi 0 \<le> ?n" using n(2) by simp
  then have r: "\<bar>nearest ?n - ?n\<bar> \<le> ?n / 2 ^ 53" by (rule nearest_relative) simp
  then have "nearest ?n \<le> ?n + ?n / 2 ^ 53" by linarith
  also have "\<dots> < 2 ^ 1024" using n(1) by simp
  finally have "\<not> 2 ^ 1024 \<le> nearest ?n" by simp
  moreover have "?n - ?n / 2 ^ 53 \<le> nearest ?n" using r by linarith
  then have "0 < nearest ?n" by (rule less_le_trans [rotated]) (use n(2) in simp)
  ultimately show ?thesis using False by (simp only: f64_of_nat_def f64_round_def Let_def) simp
qed (simp add: f64_of_nat_def f64_round_def Let_def)

section \<open>Lemmas on parsing\<close>

lemma digits_val_acc: "digits_val acc s = map_option (\<lambda>m. acc * 10 ^ length s + m) (digits_val 0 s)"
proof (induction s arbitrary: acc)
  case (Cons c s)
  show ?case
  proof (cases "digit_val c")
    case (Some d)
    then show ?thesis
      using Cons.IH [of "acc * 10 + d"] Cons.IH [of d] by (simp add: option.map_comp o_def algebra_simps)
  qed simp
qed simp

lemma digits_val_zeros: "digits_val 0 (replicate k (CHR ''0'') @ s) = digits_val 0 s"
  by (induction k) (simp_all add: digit_val_def)

lemma pad_zeros_digits:
  assumes "c < 10 ^ d" and "0 < d"
  shows "length (pad_zeros d (show_nat c)) = d" "digits_val 0 (pad_zeros d (show_nat c)) = Some c"
    "\<forall>x \<in> set (pad_zeros d (show_nat c)). digit_val x \<noteq> None"
proof -
  show "length (pad_zeros d (show_nat c)) = d" "digits_val 0 (pad_zeros d (show_nat c)) = Some c"
    using show_nat_length [OF assms] by (simp_all add: pad_zeros_def digits_val_zeros digits_val_show)
  have "digit_val (CHR ''0'') \<noteq> None" by (simp add: digit_val_def)
  then show "\<forall>x \<in> set (pad_zeros d (show_nat c)). digit_val x \<noteq> None"
    using show_nat_digits [of _ c] by (auto simp: pad_zeros_def)
qed

lemma span_digits_append:
  assumes "\<forall>x \<in> set ds. digit_val x \<noteq> None" and "s = [] \<or> digit_val (hd s) = None"
  shows "span_digits (ds @ s) = (ds, s)"
  using assms by (cases s) (simp_all add: span_digits_def)

lemma parse_number_fixed:
  assumes "c < 10 ^ d" and "0 < d"
  shows "parse_number (show_nat n @ CHR ''.'' # pad_zeros d (show_nat c)) = Some (of_nat n + of_nat c / 10 ^ d)"
proof -
  let ?p = "pad_zeros d (show_nat c)"
  note p = pad_zeros_digits [OF assms]
  have 1: "span_digits (show_nat n @ CHR ''.'' # ?p) = (show_nat n, CHR ''.'' # ?p)"
    using show_nat_digits by (intro span_digits_append) (auto simp: digit_val_def)
  have 2: "span_digits ?p = (?p, [])" using span_digits_append [OF p(3), of "[]"] by simp
  have "digits_val 0 (show_nat n @ ?p) = Some (n * 10 ^ d + c)"
    using p by (simp add: digits_val_append digits_val_show digits_val_acc [of n])
  then show ?thesis
    by (simp add: parse_number_def 1 2 parse_exponent_def p(1) power_int_minus field_simps)
qed

lemma parse_f64_fixed:
  assumes "c < 10 ^ d" and "0 < d"
  shows "parse_f64 (show_nat n @ CHR ''.'' # pad_zeros d (show_nat c)) = Some (f64_round False (of_nat n + of_nat c / 10 ^ d))"
proof -
  obtain x xs where x: "show_nat n = x # xs" by (cases "show_nat n") auto
  then have "digit_val x \<noteq> None" using show_nat_digits [of x n] by simp
  then have "x \<noteq> CHR ''-''" "x \<noteq> CHR ''+''" by (auto simp: digit_val_def)
  then show ?thesis using parse_number_fixed [OF assms, of n] by (simp add: parse_f64_def x)
qed

text \<open>A number that was read has its sign in front.\<close>

fun f64_wf :: "f64 \<Rightarrow> bool" where
  "f64_wf (F64 s x) = (0 \<le> x)"
| "f64_wf _ = True"

lemma f64_wf_round: "0 \<le> x \<Longrightarrow> f64_wf (f64_round s x)"
  by (simp add: f64_round_def Let_def nearest_nonneg)

lemma f64_wf_parse: "parse_f64 w = Some x \<Longrightarrow> f64_wf x"
proof -
  assume p: "parse_f64 w = Some x"
  have "0 \<le> y" if "parse_number v = Some y" for v y
    using that by (auto simp: parse_number_def Let_def split: prod.splits if_splits)
  then show ?thesis using p by (auto simp: parse_f64_def Let_def f64_wf_round split: option.splits if_splits)
qed

lemma f64_wf_div: "f64_wf x \<Longrightarrow> f64_wf y \<Longrightarrow> f64_wf (f64_div x y)"
  by (cases "(x, y)" rule: f64_div.cases) (simp_all add: f64_wf_round)

end
