(* ===== verification/Edge_Probes.thy ===== *)
theory Edge_Probes
  imports Edge_Health Rust_Float Fleet_Service
begin

text \<open>
  The resource probes of \<open>crates/edge-health/src/lib.rs\<close> that read decimal numbers (CPU load
  and uptime), the snapshot they make up with the memory probe of \<open>Edge_Health\<close>, and the
  figures the agent reports from it (\<open>usage\<close> in \<open>crates/edge-agent/src/agent.rs\<close>). The
  contents of the files under \<open>/proc\<close> and the number of CPUs are arguments; \<open>None\<close> is a file
  that cannot be read as text.
\<close>

section \<open>Probes\<close>

record proc =
  proc_loadavg :: "string option"
  proc_status :: "string option"
  proc_uptime :: "string option"
  available_parallelism :: "u64 option"

definition read_cpu_usage :: "proc \<Rightarrow> f64 option" where
  "read_cpu_usage f =
     Option.bind (proc_loadavg f) (\<lambda>content.
     Option.bind (first_word content) (\<lambda>w.
     Option.bind (parse_f64 w) (\<lambda>load.
     Option.bind (available_parallelism f) (\<lambda>n.
     Some (f64_clamp (F64 False 0) (F64 False 1) (f64_div load (f64_of_nat (unat n))))))))"

definition read_uptime :: "proc \<Rightarrow> u64 option" where
  "read_uptime f =
     Option.bind (proc_uptime f) (\<lambda>content.
     Option.bind (first_word content) (\<lambda>w. map_option f64_to_u64 (parse_f64 w)))"

record ResourceSnapshot =
  snap_cpu_usage :: f64
  snap_memory_bytes :: u64
  snap_uptime_secs :: u64

definition sample_resources :: "proc \<Rightarrow> ResourceSnapshot" where
  "sample_resources f = \<lparr>
     snap_cpu_usage = (case read_cpu_usage f of None \<Rightarrow> F64 False 0 | Some x \<Rightarrow> x),
     snap_memory_bytes = (case read_memory_bytes (proc_status f) of None \<Rightarrow> 0 | Some n \<Rightarrow> n),
     snap_uptime_secs = (case read_uptime f of None \<Rightarrow> 0 | Some n \<Rightarrow> n)\<rparr>"

text \<open>What the agent reports; its uptime is the time since its own start, in seconds.\<close>

definition usage :: "proc \<Rightarrow> u64 \<Rightarrow> u64 \<Rightarrow> ResourceUsage" where
  "usage f elapsed_secs active =
     (let snap = sample_resources f
      in \<lparr>u_cpu_usage = snap_cpu_usage snap, u_memory_bytes = snap_memory_bytes snap,
          u_active_connections = active, u_uptime_secs = elapsed_secs\<rparr>)"

section \<open>Lemmas\<close>

lemma fixed_point_word:
  assumes "c < 10 ^ d" and "0 < d"
  shows "first_word ((show_nat n @ CHR ''.'' # pad_zeros d (show_nat c)) @ CHR '' '' # t)
     = Some (show_nat n @ CHR ''.'' # pad_zeros d (show_nat c))"
proof -
  let ?w = "show_nat n @ CHR ''.'' # pad_zeros d (show_nat c)"
  have "32 < code_of x \<and> code_of x < 128" if "x \<in> set ?w" for x
  proof -
    have "x = CHR ''.'' \<or> digit_val x \<noteq> None"
      using that show_nat_digits pad_zeros_digits(3) [OF assms] by auto
    then show ?thesis using digit_code by force
  qed
  then show ?thesis using first_word_ascii [of ?w "[]" t] by simp
qed

lemma f64_clamp_unit:
  "0 \<le> x \<Longrightarrow> f64_clamp (F64 False 0) (F64 False 1) (F64 False x) = F64 False (min 1 x)"
  by (simp add: f64_clamp_def)

text \<open>Dividing the load by the CPUs, with both roundings.\<close>

lemma load_share_accurate:
  assumes "1 / 100 \<le> x" and "x \<le> 2 ^ 40" and k: "1 \<le> k" "k \<le> 2 ^ 40"
  shows "0 \<le> nearest (nearest x / of_nat k)" "nearest x / of_nat k \<le> 2 ^ 52"
    "\<bar>min 1 (nearest (nearest x / of_nat k)) - min 1 (x / of_nat k)\<bar> \<le> 1 / 2 ^ 50"
proof -
  let ?k = "of_nat k :: rat" and ?l = "nearest x"
  let ?y = "?l / ?k" let ?v = "nearest ?y" and ?z = "x / ?k"
  have "?k \<le> of_nat (2 ^ 40)" using k(2) by (simp only: of_nat_le_iff)
  then have k1: "1 \<le> ?k" "?k \<le> 2 ^ 40" using k(1) by simp_all
  have "(2 :: rat) powi (- 7) \<le> x" using assms(1) by simp
  then have "\<bar>?l - x\<bar> \<le> x / 2 ^ 53" by (rule nearest_relative) simp
  then have "x - x / 2 ^ 53 \<le> ?l" "?l \<le> x + x / 2 ^ 53" by linarith+
  then have "(x - x / 2 ^ 53) / ?k \<le> ?y" "?y \<le> (x + x / 2 ^ 53) / ?k" by (simp_all only: divide_right_mono of_nat_0_le_iff)
  then have y: "?z - ?z / 2 ^ 53 \<le> ?y" "?y \<le> ?z + ?z / 2 ^ 53" by (simp_all add: diff_divide_distrib add_divide_distrib)
  have z: "1 / 100 / 2 ^ 40 \<le> ?z" "?z \<le> 2 ^ 40"
    using frac_le [of x "1 / 100" ?k "2 ^ 40"] assms k1 frac_le [of "2 ^ 40" x 1 ?k] by auto
  have y50: "1 / 2 ^ 50 \<le> ?y" using y(1) z(1) by simp
  have "(2 :: rat) powi (- 50) = 1 / 2 ^ 50" by simp
  with y50 have v: "\<bar>?v - ?y\<bar> \<le> ?y / 2 ^ 53" by (intro nearest_relative [of "- 50"]) simp_all
  have y0: "0 < ?y" by (rule less_le_trans [OF _ y50]) simp
  then show "0 \<le> ?v" using nearest_nonneg [of ?y] by simp
  show y52: "?y \<le> 2 ^ 52" using y(2) z(2) by simp
  show "\<bar>min 1 ?v - min 1 ?z\<bar> \<le> 1 / 2 ^ 50"
  proof (cases "?z \<le> 2")
    case True
    have "\<bar>?v - ?z\<bar> \<le> ?y / 2 ^ 53 + ?z / 2 ^ 53" using v y by linarith
    also have "\<dots> \<le> 1 / 2 ^ 50" using y(2) True by simp
    finally show ?thesis by linarith
  next
    case False
    then have "1 \<le> ?y" using y(1) by simp
    then have "1 \<le> ?v" using nearest_ge_int [of ?y 1] y0 y52 by simp
    then show ?thesis using False by (simp add: min_absorb1)
  qed
qed

lemma read_cpu_usage_load:
  assumes "proc_loadavg f = Some ((show_nat n @ CHR ''.'' # pad_zeros 2 (show_nat c)) @ CHR '' '' # t)"
    and "c < 100" and "available_parallelism f = Some k"
  shows "read_cpu_usage f = Some (f64_clamp (F64 False 0) (F64 False 1)
     (f64_div (f64_round False (of_nat n + of_nat c / 100)) (f64_of_nat (unat k))))"
  using assms fixed_point_word [of c 2 n t] parse_f64_fixed [of c 2 n]
  by (simp add: read_cpu_usage_def)

section \<open>Properties\<close>

text \<open>
  The uptime probe reads whole seconds exactly: from the kernel's format, seconds with two
  decimals, it returns the seconds cut off, never rounded up by the floating-point parse, for
  any uptime below \<open>2 ^ 44\<close> seconds.
\<close>

theorem read_uptime_seconds:
  assumes "proc_uptime f = Some ((show_nat n @ CHR ''.'' # pad_zeros 2 (show_nat c)) @ CHR '' '' # t)"
    and "c < 100" and "n < 2 ^ 44"
  shows "read_uptime f = Some (of_nat n)"
proof -
  let ?x = "of_nat n + of_nat c / 100 :: rat"
  have "of_nat (n + 1) \<le> (of_nat (2 ^ 44) :: rat)" using assms(3) by (simp only: of_nat_le_iff)
  then have n: "of_nat n + 1 \<le> (2 ^ 44 :: rat)" by simp
  have c: "of_nat c / 100 \<le> (99 / 100 :: rat)" using assms(2) by simp
  have b: "0 \<le> ?x" "?x \<le> 2 ^ 44" "?x \<le> 2 ^ 52" using n c by simp_all
  have v: "of_nat n \<le> nearest ?x \<and> nearest ?x < of_nat n + 1"
  proof (cases "?x = 0")
    case True
    then show ?thesis by (simp add: add_nonneg_eq_0_iff)
  next
    case False
    then have x: "0 < ?x" using b(1) by simp
    have "f64_ulp ?x \<le> 2 powi (44 - 52)" using x b(2) by (intro f64_ulp_le) simp_all
    then have "f64_ulp ?x / 2 \<le> 1 / 512" by simp
    then have "nearest ?x \<le> ?x + 1 / 512" using nearest_error [of ?x] by linarith
    then show ?thesis using nearest_ge_int [OF x b(3), of "int n"] c by simp
  qed
  then have "\<lfloor>nearest ?x\<rfloor> = int n" by (intro floor_unique) simp_all
  moreover have "\<not> 2 ^ 64 \<le> nearest ?x" using v n by simp
  ultimately have "f64_to_u64 (f64_round False ?x) = of_nat n" by (simp add: f64_round_finite [OF b(1,3)])
  then show ?thesis
    using assms(1,2) fixed_point_word [of c 2 n t] parse_f64_fixed [of c 2 n]
    by (simp add: read_uptime_def)
qed

text \<open>
  C36. The snapshot has the kernel's figures: with a status file whose first \<open>VmRSS:\<close> line carries
  kilobytes and an uptime file with seconds and two decimals, the resident memory is that
  number times 1024 and the uptime the whole seconds, whatever the other file holds.
\<close>

theorem snapshot_kernel_figures:
  assumes "proc_status f = Some (unlines (pre @ (''VmRSS:'' @ w @ show_u64 kb @ '' kB'') # post))"
    and "\<And>l. l \<in> set pre \<Longrightarrow> strip_prefix ''VmRSS:'' l = None" and "set w \<subseteq> {CHR '' '', CHR 0x09}"
    and "\<And>l. l \<in> set (pre @ post) \<Longrightarrow> CHR 0x0A \<notin> set l \<and> chomp_cr l = l"
    and "proc_uptime f = Some ((show_nat n @ CHR ''.'' # pad_zeros 2 (show_nat c)) @ CHR '' '' # t)"
    and "c < 100" and "n < 2 ^ 44"
  shows "snap_memory_bytes (sample_resources f) = kb * 1024 \<and> snap_uptime_secs (sample_resources f) = of_nat n"
  using read_memory_bytes_vmrss [OF assms(2-4)] read_uptime_seconds [OF assms(5-7)] assms(1)
  by (simp add: sample_resources_def)

text \<open>
  C39. The reported CPU usage is the load per CPU, cut at one: for a load average in the kernel's
  format (two decimals, up to \<open>2 ^ 39\<close>) on up to \<open>2 ^ 40\<close> CPUs the probe returns a number
  between zero and one that is within \<open>2 ^ -50\<close> of the exact quotient or of one.
\<close>

theorem read_cpu_usage_accurate:
  assumes "proc_loadavg f = Some ((show_nat n @ CHR ''.'' # pad_zeros 2 (show_nat c)) @ CHR '' '' # t)"
    and "c < 100" and "n < 2 ^ 39" and "available_parallelism f = Some k" and "unat k = cpus" and "1 \<le> cpus" and "cpus \<le> 2 ^ 40"
  shows "\<exists>v. read_cpu_usage f = Some (F64 False v) \<and> 0 \<le> v \<and> v \<le> 1
     \<and> \<bar>v - min 1 ((of_nat n + of_nat c / 100) / of_nat cpus)\<bar> \<le> 1 / 2 ^ 50"
proof -
  let ?x = "of_nat n + of_nat c / 100 :: rat"
  have "of_nat (n + 1) \<le> (of_nat (2 ^ 39) :: rat)" using assms(3) by (simp only: of_nat_le_iff)
  then have n: "of_nat n + 1 \<le> (2 ^ 39 :: rat)" by simp
  have c: "of_nat c / 100 \<le> (99 / 100 :: rat)" using assms(2) by simp
  have b: "0 \<le> ?x" "?x \<le> 2 ^ 40" "?x \<le> 2 ^ 52" using n c by simp_all
  have k: "f64_of_nat cpus = F64 False (of_nat cpus)" "(of_nat cpus :: rat) \<noteq> 0"
    using assms(6,7) by (simp_all add: f64_of_nat_exact)
  have r: "read_cpu_usage f = Some (f64_clamp (F64 False 0) (F64 False 1)
      (f64_round False (nearest ?x / of_nat cpus)))"
    using read_cpu_usage_load [OF assms(1,2,4)] k assms(5) by (simp add: f64_round_finite [OF b(1,3)])
  show ?thesis
  proof (cases "?x = 0")
    case True
    then have "read_cpu_usage f = Some (F64 False 0)"
      using r by (simp add: f64_round_finite f64_clamp_unit)
    with True show ?thesis by simp
  next
    case False
    then have "n \<noteq> 0 \<or> c \<noteq> 0" by auto
    then have "1 / 100 \<le> ?x" by auto
    note acc = load_share_accurate [OF this b(2) assms(6,7)]
    have "0 \<le> nearest ?x / of_nat cpus" using nearest_nonneg [OF b(1)] by simp
    then have "read_cpu_usage f = Some (F64 False (min 1 (nearest (nearest ?x / of_nat cpus))))"
      using r acc(1,2) by (simp add: f64_round_finite f64_clamp_unit)
    then show ?thesis using acc by (intro exI [of _ "min 1 (nearest (nearest ?x / of_nat cpus))"]) simp
  qed
qed

text \<open>
  Whatever is in the load file, the figure the agent reports is a number between zero and one
  or a NaN, and a NaN only if the file itself says so (or if there were no CPU at all, which
  the standard library does not report); every other report is finite, so a registry that
  stores it can be restarted.
\<close>

theorem usage_cpu_range:
  "case u_cpu_usage (usage f elapsed active) of
     F64 s v \<Rightarrow> 0 \<le> v \<and> v \<le> 1
   | F64_inf _ \<Rightarrow> False
   | F64_nan \<Rightarrow> Option.bind (Option.bind (proc_loadavg f) first_word) parse_f64 = Some F64_nan
       \<or> available_parallelism f = Some 0"
proof (cases "read_cpu_usage f")
  case None
  then show ?thesis by (simp add: usage_def sample_resources_def Let_def)
next
  case (Some x)
  then obtain w load n where w: "Option.bind (proc_loadavg f) first_word = Some w" "parse_f64 w = Some load"
      "available_parallelism f = Some n"
      and x: "x = f64_clamp (F64 False 0) (F64 False 1) (f64_div load (f64_of_nat (unat n)))"
    by (auto simp: read_cpu_usage_def bind_eq_Some_conv)
  let ?q = "f64_div load (f64_of_nat (unat n))"
  have "unat n < 2 ^ 64" using unsigned_less [of n, where 'a = nat] by simp
  from f64_of_nat_finite [OF this] nearest_nonneg [of "of_nat (unat n)"] of_nat_0_le_iff [of "unat n", where 'a = rat]
  obtain k where k: "f64_of_nat (unat n) = F64 False k" "k = 0 \<longleftrightarrow> n = 0" "0 \<le> k"
    by (metis unat_eq_0)
  then have "f64_wf ?q" using f64_wf_div f64_wf_parse [OF w(2)] by simp
  moreover have "load = F64_nan \<or> n = 0" if "?q = F64_nan"
    using that k by (cases load) (auto simp: f64_round_def Let_def split: if_splits)
  ultimately show ?thesis
    using Some x w by (cases ?q) (auto simp: usage_def sample_resources_def Let_def f64_clamp_def)
qed

end
