(* ===== verification/Control_Main.thy ===== *)
theory Control_Main
  imports Fleet_Service Socket_Addr
begin

text \<open>
  The control-plane binary (\<open>crates/control-plane/src/main.rs\<close>): the operator's HTTP routes, and
  the start of the two servers. The gRPC server runs on a task of its own, which also reads
  the TLS material; \<open>main\<close> ends when both servers have ended. What binding an address gives is
  an argument.
\<close>

section \<open>Routes\<close>

datatype http_request = GetDevices | PostPolicy PolicyBody | GetHealthz | GetReadyz

datatype http_response = DeviceViews "DeviceView list" | PolicyPushed "u64 \<times> u64" | PlainText string

text \<open>The readiness probe reads the registry and drops what it read.\<close>

fun http_route :: "reg_env \<Rightarrow> u64 \<Rightarrow> http_request \<Rightarrow> reg_sys \<Rightarrow> http_response \<times> reg_sys" where
  "http_route env now GetDevices s = (DeviceViews (api_list_devices env now s), s)"
| "http_route env now (PostPolicy b) s = (case push_policy env b s of (r, t) \<Rightarrow> (PolicyPushed r, t))"
| "http_route env now GetHealthz s = (PlainText ''ok'', s)"
| "http_route env now GetReadyz s = (let _ = list_devices env s in (PlainText ''ready'', s))"

section \<open>Start\<close>

record control_args =
  ca_grpc_addr :: socket_addr
  ca_http_addr :: socket_addr
  ca_tls_cert :: "path option"
  ca_tls_key :: "path option"
  ca_tls_client_ca :: "path option"
  ca_persist_path :: "path option"

datatype control_error = LoadRegistry io_error | BindHttp io_error | GrpcEnded serve_error | HttpEnded io_error

text \<open>The gRPC task: TLS first, then it serves until it fails. \<open>Inl\<close> is the error it has ended with.\<close>

definition grpc_task ::
  "bool \<Rightarrow> (socket_addr \<Rightarrow> io_error + unit) \<Rightarrow> control_args \<Rightarrow> ('z fs_scheme, serve_error, server_link) act" where
  "grpc_task tls_accepted bind g =
     act_try (server_tls tls_accepted (ca_tls_cert g) (ca_tls_key g) (ca_tls_client_ca g)) (\<lambda>link.
     case bind (ca_grpc_addr g) of Inl e \<Rightarrow> act_err (ServeIo e) | Inr _ \<Rightarrow> act_ok link)"

record control_plane =
  cp_inner :: Inner
  cp_grpc :: "serve_error + server_link"

definition control_main ::
  "reg_env \<Rightarrow> bool \<Rightarrow> (socket_addr \<Rightarrow> io_error + unit) \<Rightarrow> control_args \<Rightarrow> ('z fs_scheme, control_error, control_plane) act" where
  "control_main env tls_accepted bind g =
     act_try (act_map_err LoadRegistry (control_boot env (ca_persist_path g))) (\<lambda>i.
     \<lambda>s. case grpc_task tls_accepted bind g s of (grpc, t) \<Rightarrow>
       (case bind (ca_http_addr g) of
          Inl e \<Rightarrow> (Inl (BindHttp e), t)
        | Inr _ \<Rightarrow> (Inr \<lparr>cp_inner = i, cp_grpc = grpc\<rparr>, t)))"

text \<open>
  \<open>tokio::join!\<close>: nothing until both servers have ended (\<open>None\<close> is one that runs), then the
  first error of the two.
\<close>

definition control_join :: "(serve_error + unit) option \<Rightarrow> (io_error + unit) option \<Rightarrow> (control_error + unit) option" where
  "control_join grpc http =
     (case (grpc, http) of
        (Some g, Some h) \<Rightarrow> Some (case g of Inl e \<Rightarrow> Inl (GrpcEnded e)
            | Inr _ \<Rightarrow> (case h of Inl e \<Rightarrow> Inl (HttpEnded e) | Inr _ \<Rightarrow> Inr ()))
      | _ \<Rightarrow> None)"

section \<open>Lemmas\<close>

text \<open>Only a push changes the registry.\<close>

lemma http_read_only: "(\<And>b. q \<noteq> PostPolicy b) \<Longrightarrow> snd (http_route env now q s) = s"
  by (cases q) (blast | simp)+

section \<open>Properties\<close>

text \<open>
  C34. A control plane that comes up has the fleet of its snapshot, and what its gRPC server does is
  decided by the TLS settings: mutual TLS with the three files as they are on disk, or
  plaintext with neither certificate nor key, or it has ended with an error.
\<close>

theorem control_plane_starts:
  assumes "reg_env_ok env" and "ca_persist_path g = Some p" and "stored env p (files s) i" and "faults s = []"
    and "bind (ca_http_addr g) = Inr ()"
  shows "\<exists>c. fst (control_main env tls_accepted bind g s) = Inr c \<and> same_fleet (cp_inner c) i
     \<and> (case cp_grpc c of
          Inl e \<Rightarrow> ca_tls_cert g \<noteq> None \<or> ca_tls_key g \<noteq> None \<or> (\<exists>x. bind (ca_grpc_addr g) = Inl x)
        | Inr ServerPlaintext \<Rightarrow> ca_tls_cert g = None \<and> ca_tls_key g = None
        | Inr (ServerMtls cb kb ab) \<Rightarrow> \<exists>cp kp ap. ca_tls_cert g = Some cp \<and> ca_tls_key g = Some kp
            \<and> ca_tls_client_ca g = Some ap \<and> files s cp = Some cb \<and> files s kp = Some kb \<and> files s ap = Some ab)"
proof -
  obtain j where "Registry_load env p s = (Inr j, s)" "same_fleet j i"
    using load_stored [OF assms(1,3,4)] by blast
  then have boot: "act_map_err LoadRegistry (control_boot env (ca_persist_path g)) s = (Inr j, s)"
    using assms(2) by (simp add: control_boot_def act_map_err_def)
  obtain r t where r: "grpc_task tls_accepted bind g s = (r, t)" by fastforce
  have "fst (control_main env tls_accepted bind g s) = Inr \<lparr>cp_inner = j, cp_grpc = r\<rparr>"
    using boot r assms(5) by (simp add: control_main_def act_try_def)
  moreover have "case r of
          Inl e \<Rightarrow> ca_tls_cert g \<noteq> None \<or> ca_tls_key g \<noteq> None \<or> (\<exists>x. bind (ca_grpc_addr g) = Inl x)
        | Inr ServerPlaintext \<Rightarrow> ca_tls_cert g = None \<and> ca_tls_key g = None
        | Inr (ServerMtls cb kb ab) \<Rightarrow> \<exists>cp kp ap. ca_tls_cert g = Some cp \<and> ca_tls_key g = Some kp
            \<and> ca_tls_client_ca g = Some ap \<and> files s cp = Some cb \<and> files s kp = Some kb \<and> files s ap = Some ab"
    using r server_tls_outcome [where ok = tls_accepted and cert = "ca_tls_cert g" and key = "ca_tls_key g"
        and ca = "ca_tls_client_ca g" and s = s]
    by (auto simp: grpc_task_def act_try_def act_ok_def act_err_def split: prod.splits sum.splits server_link.splits)
  ultimately show ?thesis using \<open>same_fleet j i\<close>
    by (intro exI [of _ "\<lparr>cp_inner = j, cp_grpc = r\<rparr>"]) simp
qed

text \<open>
  The refusal of one-way TLS does not reach \<open>main\<close>: with certificate and key but no client CA,
  only the gRPC task ends; the process goes on, answers its health and readiness probes as
  before and would end only with its HTTP server.
\<close>

theorem tls_refusal_keeps_running:
  assumes "control_boot env (ca_persist_path g) s = (Inr i, s)" and "bind (ca_http_addr g) = Inr ()"
    and "ca_tls_cert g = Some cp" and "ca_tls_key g = Some kp" and "ca_tls_client_ca g = None"
  shows "\<exists>c e. fst (control_main env tls_accepted bind g s) = Inr c \<and> cp_grpc c = Inl e
     \<and> control_join (Some (Inl e)) None = None
     \<and> fst (http_route env now GetReadyz w) = PlainText ''ready''"
  using assms by (simp add: control_main_def grpc_task_def server_tls_def act_defs control_join_def)

end
