(* ===== verification/Registry_Concurrent.thy ===== *)
theory Registry_Concurrent
  imports Registry
begin

text \<open>
  The registry under concurrent calls. Every handler of the control plane runs on its own
  task; a task holds the lock only while it reads or changes the registry, and it saves the
  snapshot after it has released the lock, through one temporary file that all tasks share.
  Here a call is the sequence of its atomic steps (the critical section, taking the snapshot,
  creating, filling and renaming the temporary file) and a run is any interleaving of the
  steps of any number of calls. That the critical sections may be taken as atomic, and that no
  call waits for the lock forever, is shown in \<open>Registry_Lock\<close>. Files are inodes behind names, because an open file follows
  its inode when another task renames it.
\<close>

section \<open>Critical sections\<close>

datatype reg_call = Call reg_op | CurrentPolicy | Devices | GetDevice string

datatype reg_reply =
    Registered DeviceRecord
  | Beat "(u64 \<times> Policy option \<times> string \<times> u64) option"
  | Sequence u64
  | PolicyIs "Policy option \<times> u64"
  | DeviceList "DeviceRecord list"
  | DeviceIs "DeviceRecord option"

text \<open>
  What a call does under the lock: its reply, whether it goes on to save a snapshot, and the
  registry it leaves.
\<close>

fun locked :: "reg_env \<Rightarrow> reg_call \<Rightarrow> Inner \<Rightarrow> reg_reply \<times> bool \<times> Inner" where
  "locked env (Call (Register now did hw sw rp rsw)) i =
     (let rec = \<lparr>device_id = did, hardware_id = hw, dv_software_version = sw,
            reported_policy_version = rp, reported_software_version = rsw,
            desired_policy_version = desired_version i,
            desired_software_version = desired_software i, desired_seq = policy_seq i,
            health = 1, last_seen_secs = now, uptime_secs = 0, cpu_usage = f64_zero,
            memory_bytes = 0, active_connections = 0\<rparr>
      in (Registered rec, True, i\<lparr>devices := AList.update did rec (devices i)\<rparr>))"
| "locked env (Call (Heartbeat now u)) i =
     (case map_of (devices i) (hu_device_id u) of
        None \<Rightarrow> (Beat None, False, i)
      | Some rec \<Rightarrow>
          (Beat (Some (desired_version i, in_policy i, desired_software i, policy_seq i)), False,
           i\<lparr>devices := AList.update (hu_device_id u) (rec\<lparr>
              reported_policy_version := hu_reported_policy u,
              reported_software_version := hu_reported_software u,
              health := hu_health u, cpu_usage := hu_cpu u, memory_bytes := hu_mem u,
              active_connections := hu_active u, uptime_secs := hu_uptime u,
              last_seen_secs := now, desired_policy_version := desired_version i,
              desired_software_version := desired_software i, desired_seq := policy_seq i\<rparr>)
              (devices i)\<rparr>))"
| "locked env (Call (SetPolicy p)) i =
     (if map_option version (in_policy i) = Some (version p) then (Sequence (policy_seq i), False, i)
      else (Sequence (policy_seq i + 1), True, i\<lparr>policy_seq := policy_seq i + 1, in_policy := Some p\<rparr>))"
| "locked env (Call (SetDesiredSoftware v)) i =
     (if desired_software i = v then (Sequence (policy_seq i), False, i)
      else (Sequence (policy_seq i + 1), True, i\<lparr>policy_seq := policy_seq i + 1, desired_software := v\<rparr>))"
| "locked env CurrentPolicy i = (PolicyIs (in_policy i, policy_seq i), False, i)"
| "locked env Devices i = (DeviceList (hash_order env (map snd (devices i))), False, i)"
| "locked env (GetDevice did) i = (DeviceIs (map_of (devices i) did), False, i)"

section \<open>The disk\<close>

record disk =
  names :: "path \<Rightarrow> nat option"
  inodes :: "bytes list"

definition disk_view :: "disk \<Rightarrow> path \<Rightarrow> bytes option" where
  "disk_view d p = map_option ((!) (inodes d)) (names d p)"

text \<open>\<open>File::create\<close> truncates the file a name has, or makes a new one.\<close>

definition create_file :: "path \<Rightarrow> disk \<Rightarrow> nat \<times> disk" where
  "create_file p d = (case names d p of
       Some n \<Rightarrow> (n, d\<lparr>inodes := (inodes d)[n := []]\<rparr>)
     | None \<Rightarrow> (length (inodes d), d\<lparr>names := (names d)(p \<mapsto> length (inodes d)), inodes := inodes d @ [[]]\<rparr>))"

text \<open>A write at an offset; a gap in front of it reads as zeros.\<close>

definition write_at :: "nat \<Rightarrow> bytes \<Rightarrow> bytes \<Rightarrow> bytes" where
  "write_at off b c = take off c @ replicate (off - length c) 0 @ b @ drop (off + length b) c"

definition rename_file :: "path \<Rightarrow> path \<Rightarrow> disk \<Rightarrow> disk option" where
  "rename_file a b d = (case names d a of
       None \<Rightarrow> None
     | Some n \<Rightarrow> Some (d\<lparr>names := ((names d)(a := None))(b \<mapsto> n)\<rparr>))"

section \<open>Tasks\<close>

text \<open>
  Where a call stands: before its critical section, before \<open>maybe_persist\<close>, and in front of the
  file operations of \<open>write_snapshot\<close> (an open file with the offset and the bytes still to
  write), or replied.
\<close>

datatype reg_task =
    Waiting reg_call
  | Persisting reg_reply
  | Creating path bytes reg_reply
  | Filling path nat nat bytes reg_reply
  | Renaming path reg_reply
  | Replied reg_reply

text \<open>How an operation on the file system ends; a write takes some of the bytes it is given.\<close>

datatype io_turn = Works nat | Fails

text \<open>A failed snapshot is logged and dropped: the call replies all the same.\<close>

fun task_step :: "reg_env \<Rightarrow> io_turn \<Rightarrow> reg_task \<Rightarrow> Inner \<times> disk \<Rightarrow> (reg_task \<times> Inner \<times> disk) option" where
  "task_step env out (Waiting c) (i, d) =
     (case locked env c i of (r, save, j) \<Rightarrow> Some (if save then Persisting r else Replied r, j, d))"
| "task_step env out (Persisting r) (i, d) =
     (case persist_path i of
        None \<Rightarrow> Some (Replied r, i, d)
      | Some p \<Rightarrow> (case encode (snap_json env) (snapshot_locked env i) of
            None \<Rightarrow> Some (Replied r, i, d)
          | Some b \<Rightarrow> Some (Creating p b r, i, d)))"
| "task_step env (Works k) (Creating p b r) (i, d) =
     (case create_file (tmp_of p) d of (n, e) \<Rightarrow> Some (Filling p n 0 b r, i, e))"
| "task_step env (Works k) (Filling p n off b r) (i, d) =
     (if b = [] then Some (Renaming p r, i, d)
      else if k = 0 then Some (Replied r, i, d)
      else Some (Filling p n (off + length (take k b)) (drop k b) r, i,
        d\<lparr>inodes := (inodes d)[n := write_at off (take k b) (inodes d ! n)]\<rparr>))"
| "task_step env (Works k) (Renaming p r) (i, d) =
     Some (Replied r, i, case rename_file (tmp_of p) p d of None \<Rightarrow> d | Some e \<Rightarrow> e)"
| "task_step env out (Replied r) (i, d) = None"
| "task_step env Fails (Creating p b r) (i, d) = Some (Replied r, i, d)"
| "task_step env Fails (Filling p n off b r) (i, d) = Some (Replied r, i, d)"
| "task_step env Fails (Renaming p r) (i, d) = Some (Replied r, i, d)"

record conc =
  shared :: Inner
  cdisk :: disk
  calls :: "reg_task list"

definition conc_start :: "Inner \<Rightarrow> disk \<Rightarrow> conc" where
  "conc_start i d = \<lparr>shared = i, cdisk = d, calls = []\<rparr>"

datatype conc_event = Spawn reg_call | Move nat io_turn

fun conc_exec :: "reg_env \<Rightarrow> conc_event \<Rightarrow> conc \<Rightarrow> conc option" where
  "conc_exec env (Spawn c) w = Some (w\<lparr>calls := calls w @ [Waiting c]\<rparr>)"
| "conc_exec env (Move k out) w =
     (if k < length (calls w) then
        (case task_step env out (calls w ! k) (shared w, cdisk w) of
           None \<Rightarrow> None
         | Some (t, i, d) \<Rightarrow> Some \<lparr>shared = i, cdisk = d, calls = (calls w)[k := t]\<rparr>)
      else None)"

inductive conc_run :: "reg_env \<Rightarrow> conc \<Rightarrow> conc_event list \<Rightarrow> conc \<Rightarrow> bool" for env where
  conc_Nil: "conc_run env w [] w"
| conc_snoc: "conc_run env w es v \<Longrightarrow> conc_exec env e v = Some u \<Longrightarrow> conc_run env w (es @ [e]) u"

section \<open>Linearizability\<close>

text \<open>The same calls on the sequential registry.\<close>

definition seq_call :: "reg_env \<Rightarrow> reg_call \<Rightarrow> reg_sys \<Rightarrow> reg_sys" where
  "seq_call env c s = (case c of Call op \<Rightarrow> reg_run_op env op s | _ \<Rightarrow> s)"

fun seq_reply :: "reg_env \<Rightarrow> reg_call \<Rightarrow> reg_sys \<Rightarrow> reg_reply" where
  "seq_reply env (Call (Register now did hw sw rp rsw)) s = Registered (fst (register env now did hw sw rp rsw s))"
| "seq_reply env (Call (Heartbeat now u)) s = Beat (fst (heartbeat_update now u s))"
| "seq_reply env (Call (SetPolicy p)) s = Sequence (fst (set_policy env p s))"
| "seq_reply env (Call (SetDesiredSoftware v)) s = Sequence (fst (set_desired_software env v s))"
| "seq_reply env CurrentPolicy s = PolicyIs (current_policy s)"
| "seq_reply env Devices s = DeviceList (list_devices env s)"
| "seq_reply env (GetDevice did) s = DeviceIs (get_device did s)"

lemma locked_sequential:
  "locked env c (inner s) = (r, save, i) \<Longrightarrow> r = seq_reply env c s \<and> i = inner (seq_call env c s)"
  by (cases "(env, c, s)" rule: seq_reply.cases)
    (auto simp: seq_call_def register_def heartbeat_update_def set_policy_def set_desired_software_def
      current_policy_def list_devices_def get_device_def Let_def split: option.splits if_splits)

text \<open>
  From the events of a run: the calls in the order of their arrival, and the tasks in the order
  in which they took the lock, which is the order of their first steps.
\<close>

definition spawned :: "conc_event list \<Rightarrow> reg_call list" where
  "spawned es = concat (map (\<lambda>e. case e of Spawn c \<Rightarrow> [c] | Move _ _ \<Rightarrow> []) es)"

definition lock_order :: "conc_event list \<Rightarrow> nat list" where
  "lock_order es = fold (\<lambda>e ks. case e of Spawn _ \<Rightarrow> ks | Move k _ \<Rightarrow> if k \<in> set ks then ks else ks @ [k]) es []"

definition linearized :: "conc_event list \<Rightarrow> reg_call list" where
  "linearized es = map ((!) (spawned es)) (lock_order es)"

lemma spawned_simps [simp]:
  "spawned [] = []" "spawned (es @ [Spawn c]) = spawned es @ [c]" "spawned (es @ [Move k out]) = spawned es"
  by (simp_all add: spawned_def)

lemma lock_order_simps [simp]:
  "lock_order [] = []" "lock_order (es @ [Spawn c]) = lock_order es"
  "lock_order (es @ [Move k out]) = (if k \<in> set (lock_order es) then lock_order es else lock_order es @ [k])"
  by (simp_all add: lock_order_def)

fun reply_of :: "reg_task \<Rightarrow> reg_reply option" where
  "reply_of (Waiting c) = None"
| "reply_of (Persisting r) = Some r"
| "reply_of (Creating p b r) = Some r"
| "reply_of (Filling p n off b r) = Some r"
| "reply_of (Renaming p r) = Some r"
| "reply_of (Replied r) = Some r"

lemma task_step_reply:
  assumes "task_step env out t (i, d) = Some (t', i', d')"
  shows "case t of Waiting c \<Rightarrow> reply_of t' = Some (fst (locked env c i)) \<and> i' = snd (snd (locked env c i)) \<and> d' = d
     | _ \<Rightarrow> reply_of t' = reply_of t \<and> i' = i"
  using assms by (cases "(env, out, t, (i, d))" rule: task_step.cases)
    (auto split: prod.splits option.splits if_splits)

lemma task_step_enabled: "(\<And>r. t \<noteq> Replied r) \<Longrightarrow> \<exists>x. task_step env out t (i, d) = Some x"
  by (cases t; cases out) (auto split: option.splits prod.splits)

text \<open>The invariant that relates a run to the sequential execution in lock order.\<close>

definition lin_inv :: "reg_env \<Rightarrow> reg_sys \<Rightarrow> conc_event list \<Rightarrow> conc \<Rightarrow> bool" where
  "lin_inv env s es w \<longleftrightarrow>
     length (calls w) = length (spawned es) \<and> distinct (lock_order es) \<and>
     (\<forall>k \<in> set (lock_order es). k < length (spawned es)) \<and>
     shared w = inner (fold (seq_call env) (linearized es) s) \<and>
     (\<forall>k < length (calls w). k \<notin> set (lock_order es) \<longrightarrow> calls w ! k = Waiting (spawned es ! k)) \<and>
     (\<forall>m < length (lock_order es). reply_of (calls w ! (lock_order es ! m))
        = Some (seq_reply env (linearized es ! m) (fold (seq_call env) (take m (linearized es)) s)))"

lemma linearized_Spawn:
  "\<forall>k \<in> set (lock_order es). k < length (spawned es) \<Longrightarrow> linearized (es @ [Spawn c]) = linearized es"
  by (auto simp: linearized_def nth_append)

lemma linearized_Move:
  "linearized (es @ [Move k out]) = (if k \<in> set (lock_order es) then linearized es else linearized es @ [spawned es ! k])"
  by (simp add: linearized_def)

lemma length_linearized [simp]: "length (linearized es) = length (lock_order es)"
  by (simp add: linearized_def)

lemma lin_inv_Spawn:
  assumes "lin_inv env s es w"
  shows "lin_inv env s (es @ [Spawn c]) (w\<lparr>calls := calls w @ [Waiting c]\<rparr>)"
proof -
  note inv = assms [unfolded lin_inv_def]
  then have l: "linearized (es @ [Spawn c]) = linearized es" using linearized_Spawn by blast
  have "lock_order es ! m < length (calls w)" if "m < length (lock_order es)" for m
    using inv that by simp
  with inv show ?thesis by (auto simp: lin_inv_def l nth_append less_Suc_eq)
qed

lemma lin_inv_Move:
  assumes inv: "lin_inv env s es w" and k: "k < length (calls w)"
    and step: "task_step env out (calls w ! k) (shared w, cdisk w) = Some (t, i, d)"
  shows "lin_inv env s (es @ [Move k out]) \<lparr>shared = i, cdisk = d, calls = (calls w)[k := t]\<rparr>"
proof (cases "k \<in> set (lock_order es)")
  case True
  then obtain m where "m < length (lock_order es)" "lock_order es ! m = k" by (auto simp: in_set_conv_nth)
  then have "reply_of (calls w ! k) \<noteq> None" using inv by (auto simp: lin_inv_def)
  then have "reply_of t = reply_of (calls w ! k)" "i = shared w"
    using task_step_reply [OF step] by (cases "calls w ! k"; simp)+
  then show ?thesis
    using inv True by (auto simp: lin_inv_def linearized_Move nth_list_update)
next
  case False
  let ?s = "fold (seq_call env) (linearized es) s"
  have w: "calls w ! k = Waiting (spawned es ! k)" "shared w = inner ?s"
    using inv k False by (auto simp: lin_inv_def)
  then have t: "reply_of t = Some (seq_reply env (spawned es ! k) ?s)" "i = inner (seq_call env (spawned es ! k) ?s)"
    using task_step_reply [OF step] locked_sequential [of env "spawned es ! k" ?s] by (auto simp: prod_eq_iff)
  have "lock_order es ! m \<noteq> k" if "m < length (lock_order es)" for m
    using that False by (auto simp: in_set_conv_nth)
  with inv k False t show ?thesis
    by (auto simp: lin_inv_def linearized_Move nth_append nth_list_update less_Suc_eq)
qed

lemma lin_inv_run:
  assumes "conc_run env (conc_start (inner s) d) es w"
  shows "lin_inv env s es w"
  using assms
proof (induction "conc_start (inner s) d" es w rule: conc_run.induct)
  case conc_Nil
  show ?case by (simp add: lin_inv_def conc_start_def linearized_def)
next
  case (conc_snoc es v e u)
  then show ?case
    by (cases e) (auto intro: lin_inv_Spawn lin_inv_Move split: if_splits option.splits)
qed

section \<open>Saves one at a time\<close>

text \<open>
  A run in which at most one call at a time has the temporary file open. The code does not
  enforce this; a save lock would.
\<close>

fun uses_tmp :: "reg_task \<Rightarrow> bool" where
  "uses_tmp (Filling p n off b r) = True"
| "uses_tmp (Renaming p r) = True"
| "uses_tmp _ = False"

definition calm :: "conc \<Rightarrow> bool" where
  "calm w \<longleftrightarrow> length (filter uses_tmp (calls w)) \<le> 1"

inductive calm_run :: "reg_env \<Rightarrow> conc \<Rightarrow> conc_event list \<Rightarrow> conc \<Rightarrow> bool" for env where
  calm_Nil: "calm_run env w [] w"
| calm_snoc: "calm_run env w es v \<Longrightarrow> conc_exec env e v = Some u \<Longrightarrow> calm u \<Longrightarrow> calm_run env w (es @ [e]) u"

lemma calm_run_conc: "calm_run env w es u \<Longrightarrow> conc_run env w es u"
  by (induction rule: calm_run.induct) (auto intro: conc_run.intros)

lemma calm_unique:
  assumes "calm w" and "j < length (calls w)" "k < length (calls w)"
    and "uses_tmp (calls w ! j)" "uses_tmp (calls w ! k)"
  shows "j = k"
proof -
  have "card {i. i < length (calls w) \<and> uses_tmp (calls w ! i)} \<le> Suc 0"
    using assms(1) by (simp add: calm_def length_filter_conv_card)
  then show ?thesis using assms by (auto simp: card_le_Suc0_iff_eq)
qed

definition finite_call :: "reg_call \<Rightarrow> bool" where
  "finite_call c \<longleftrightarrow> (case c of Call op \<Rightarrow> finite_op (op, []) | _ \<Rightarrow> True)"

text \<open>The states the registry has gone through, in lock order.\<close>

definition past :: "reg_env \<Rightarrow> reg_sys \<Rightarrow> conc_event list \<Rightarrow> Inner \<Rightarrow> bool" where
  "past env s es i \<longleftrightarrow> (\<exists>m \<le> length (linearized es). i = inner (fold (seq_call env) (take m (linearized es)) s))"

lemma seq_call_step: "\<exists>G. seq_call env (Call op) s = reg_step env (op, G) s"
  by (rule exI [of _ "faults s"]) (simp add: seq_call_def reg_step_def)

lemma reg_inv_calls: "reg_inv p s \<Longrightarrow> list_all finite_call cs \<Longrightarrow> reg_inv p (fold (seq_call env) cs s)"
proof (induction cs arbitrary: s)
  case (Cons c cs)
  have "reg_inv p (seq_call env c s)"
  proof (cases c)
    case (Call op)
    then show ?thesis
      using seq_call_step [of env op s] Cons.prems reg_inv_step [of p s]
      by (auto simp: finite_call_def finite_op_def)
  qed (use Cons.prems in \<open>simp_all add: seq_call_def\<close>)
  with Cons show ?case by simp
qed simp

definition snapshot_bytes :: "reg_env \<Rightarrow> (Inner \<Rightarrow> bool) \<Rightarrow> bytes \<Rightarrow> bool" where
  "snapshot_bytes env P b \<longleftrightarrow> (\<exists>j. P j \<and> encode (snap_json env) (snapshot_locked env j) = Some b
     \<and> inner_inv j \<and> finite_cpu j)"

fun task_ok :: "reg_env \<Rightarrow> path \<Rightarrow> (Inner \<Rightarrow> bool) \<Rightarrow> disk \<Rightarrow> reg_task \<Rightarrow> bool" where
  "task_ok env p P d (Creating q b r) \<longleftrightarrow> q = p \<and> snapshot_bytes env P b"
| "task_ok env p P d (Filling q n off b r) \<longleftrightarrow> q = p \<and> names d (tmp_of p) = Some n
     \<and> (\<exists>c. snapshot_bytes env P c \<and> off \<le> length c \<and> inodes d ! n = take off c \<and> b = drop off c)"
| "task_ok env p P d (Renaming q r) \<longleftrightarrow> q = p
     \<and> (\<exists>n. names d (tmp_of p) = Some n \<and> snapshot_bytes env P (inodes d ! n))"
| "task_ok env p P d _ \<longleftrightarrow> True"

definition disk_wf :: "disk \<Rightarrow> bool" where
  "disk_wf d \<longleftrightarrow> (\<forall>q n. names d q = Some n \<longrightarrow> n < length (inodes d))
     \<and> (\<forall>q q' n. names d q = Some n \<longrightarrow> names d q' = Some n \<longrightarrow> q = q')"

definition on_disk :: "reg_env \<Rightarrow> path \<Rightarrow> (Inner \<Rightarrow> bool) \<Rightarrow> disk \<Rightarrow> bool" where
  "on_disk env p P d \<longleftrightarrow> (\<exists>i. P i \<and> stored env p (disk_view d) i)"

lemma task_ok_quiet: "\<not> uses_tmp t \<Longrightarrow> task_ok env p P d t = task_ok env p P d' t"
  by (cases t) simp_all

lemma snapshot_bytes_mono: "snapshot_bytes env P b \<Longrightarrow> (\<And>i. P i \<Longrightarrow> Q i) \<Longrightarrow> snapshot_bytes env Q b"
  by (auto simp: snapshot_bytes_def)

lemma task_ok_mono: "task_ok env p P d t \<Longrightarrow> (\<And>i. P i \<Longrightarrow> Q i) \<Longrightarrow> task_ok env p Q d t"
  by (cases t) (auto intro: snapshot_bytes_mono)

lemma on_disk_frame: "disk_view e p = disk_view d p \<Longrightarrow> on_disk env p P d \<Longrightarrow> on_disk env p P e"
  by (simp add: on_disk_def stored_def)

lemma on_disk_snapshot:
  assumes "reg_env_ok env" and "disk_view d p = Some b" and "snapshot_bytes env P b"
  shows "on_disk env p P d"
  using assms same_fleet_refl by (fastforce simp: on_disk_def stored_def snapshot_bytes_def finite_snapshot_locked)

lemma create_file_ok:
  assumes d: "disk_wf d" and "q \<noteq> p" and c: "create_file q d = (n, e)"
  shows "disk_wf e" "names e q = Some n" "inodes e ! n = []" "disk_view e p = disk_view d p"
proof -
  have "disk_wf e \<and> names e q = Some n \<and> inodes e ! n = [] \<and> disk_view e p = disk_view d p"
  proof (cases "names d q")
    case None
    then have e: "n = length (inodes d)" "names e = (names d)(q \<mapsto> n)" "inodes e = inodes d @ [[]]"
      using c by (auto simp: create_file_def)
    moreover have "m < length (inodes d)" if "names d r = Some m" for r m using d that by (simp add: disk_wf_def)
    ultimately show ?thesis
      using d assms(2) by (cases "names d p") (auto simp: disk_wf_def disk_view_def nth_append less_SucI)
  next
    case (Some m)
    then have e: "n = m" "names e = names d" "inodes e = (inodes d)[n := []]"
      using c by (auto simp: create_file_def)
    then show ?thesis
      using d assms(2) Some by (cases "names d p") (auto simp: disk_wf_def disk_view_def nth_list_update)
  qed
  then show "disk_wf e" "names e q = Some n" "inodes e ! n = []" "disk_view e p = disk_view d p" by simp_all
qed

lemma write_at_end:
  "off \<le> length c \<Longrightarrow> write_at off (take k (drop off c)) (take off c) = take (off + k) c"
  by (simp add: write_at_def take_add)

lemma rename_file_ok:
  assumes "disk_wf d" and "names d q = Some n" and "q \<noteq> p" and "rename_file q p d = Some e"
  shows "disk_wf e" "disk_view e p = Some (inodes d ! n)"
  using assms by (auto simp: rename_file_def disk_wf_def disk_view_def split: if_splits)

text \<open>A write of the call that has the temporary file open.\<close>

lemma filling_step_ok:
  assumes tmp: "tmp_of p \<noteq> p" and d: "disk_wf d" "on_disk env p P d" and t: "task_ok env p P d (Filling q n off b r)"
    and step: "task_step env (Works k) (Filling q n off b r) (i, d) = Some (t', i', d')"
  shows "disk_wf d' \<and> on_disk env p P d' \<and> task_ok env p P d' t'"
proof -
  have q: "q = p" "names d (tmp_of p) = Some n" using t by simp_all
  from t obtain c where c: "snapshot_bytes env P c" "off \<le> length c" "inodes d ! n = take off c" "b = drop off c" by auto
  have n: "n < length (inodes d)" "names d p \<noteq> Some n" using d(1) q(2) tmp by (auto simp: disk_wf_def)
  show ?thesis
  proof (cases "b = [] \<or> k = 0")
    case True
    then show ?thesis using step c q d by (auto split: if_splits)
  next
    case False
    let ?e = "d\<lparr>inodes := (inodes d)[n := take (off + k) c]\<rparr>"
    have s: "t' = Filling p n (off + length (take k b)) (drop k b) r" "d' = ?e"
      using step False c q by (auto simp: write_at_end)
    have "disk_view ?e p = disk_view d p" using n by (cases "names d p") (auto simp: disk_view_def)
    then have "on_disk env p P ?e" using d(2) by (rule on_disk_frame)
    moreover have "task_ok env p P ?e t'"
      using s c q n by (auto simp: min_def add.commute intro!: exI [of _ c])
    ultimately show ?thesis using s d(1) by (auto simp: disk_wf_def)
  qed
qed

text \<open>One step of a call whose file is its own.\<close>

lemma task_step_ok:
  assumes env: "reg_env_ok env" and tmp: "tmp_of p \<noteq> p" and "disk_wf d" and "on_disk env p P d"
    and i: "P i" "persist_path i = Some p" "inner_inv i" "finite_cpu i"
    and t: "task_ok env p P d t" and step: "task_step env out t (i, d) = Some (t', i', d')"
  shows "disk_wf d' \<and> on_disk env p P d' \<and> task_ok env p P d' t' \<and> (d' = d \<or> uses_tmp t \<or> uses_tmp t')"
proof (cases "(env, out, t, (i, d))" rule: task_step.cases)
  case (1 _ _ c)
  with step assms(3,4) show ?thesis by (auto split: prod.splits if_splits)
next
  case (2 _ _ r)
  have "snapshot_bytes env P b" if "encode (snap_json env) (snapshot_locked env i) = Some b" for b
    using that i by (auto simp: snapshot_bytes_def)
  with 2 step i(2) assms(3,4) show ?thesis by (auto split: option.splits)
next
  case (3 _ k q b r)
  obtain n e where c: "create_file (tmp_of p) d = (n, e)" by fastforce
  note ok = create_file_ok [OF assms(3) tmp c]
  from 3 t step c have "t' = Filling p n 0 b r" "d' = e" "snapshot_bytes env P b" by auto
  then show ?thesis using ok on_disk_frame [OF ok(4) assms(4)] by auto
next
  case (4 _ k q n off b r)
  then have "out = Works k" "t = Filling q n off b r" by simp_all
  with filling_step_ok [OF tmp assms(3,4) t [unfolded \<open>t = _\<close>] step [unfolded \<open>t = _\<close> \<open>out = _\<close>]] show ?thesis by simp
next
  case (5 _ k q r)
  then obtain n where n: "q = p" "names d (tmp_of p) = Some n" "snapshot_bytes env P (inodes d ! n)"
    using t by auto
  then obtain e where e: "rename_file (tmp_of p) p d = Some e" by (simp add: rename_file_def)
  note ok = rename_file_ok [OF assms(3) n(2) tmp e]
  from on_disk_snapshot [OF env ok(2) n(3)] ok(1) 5 step e n show ?thesis by auto
qed (use step assms(3,4) in auto)

lemma lock_order_prefix: "\<exists>ks. lock_order (xs @ zs) = lock_order xs @ ks"
proof (induction zs rule: rev_induct)
  case (snoc z zs)
  then obtain ks where "lock_order (xs @ zs) = lock_order xs @ ks" by blast
  then show ?case
    using lock_order_simps(2,3) [of "xs @ zs"] by (cases z) (simp_all add: append_assoc [symmetric] del: append_assoc, simp)
qed simp

lemma past_mono:
  assumes "past env s es i" and "\<forall>k \<in> set (lock_order es). k < length (spawned es)"
  shows "past env s (es @ [e]) i"
proof -
  have "\<exists>cs. linearized (es @ [e]) = linearized es @ cs"
    using assms(2) by (cases e) (simp_all add: linearized_Spawn linearized_Move)
  then obtain cs where cs: "linearized (es @ [e]) = linearized es @ cs" by blast
  from assms(1) obtain m where "m \<le> length (linearized es)"
    "i = inner (fold (seq_call env) (take m (linearized es)) s)" by (auto simp: past_def)
  then show ?thesis unfolding past_def cs by (intro exI [of _ m]) simp
qed

lemma linearized_finite:
  "lin_inv env s es w \<Longrightarrow> list_all finite_call (spawned es) \<Longrightarrow> list_all finite_call (linearized es)"
  by (auto simp: linearized_def list_all_iff lin_inv_def)

definition calm_inv :: "reg_env \<Rightarrow> path \<Rightarrow> (Inner \<Rightarrow> bool) \<Rightarrow> conc \<Rightarrow> bool" where
  "calm_inv env p P w \<longleftrightarrow> disk_wf (cdisk w) \<and> on_disk env p P (cdisk w)
     \<and> (\<forall>k < length (calls w). task_ok env p P (cdisk w) (calls w ! k)) \<and> calm w"

lemma calm_inv_mono:
  assumes "calm_inv env p P w" and PQ: "\<And>i. P i \<Longrightarrow> Q i"
  shows "calm_inv env p Q w"
  using assms task_ok_mono [where P = P and Q = Q, OF _ PQ] by (auto simp: calm_inv_def on_disk_def)

lemma calm_inv_Spawn:
  "calm_inv env p P w \<Longrightarrow> calm (w\<lparr>calls := calls w @ [Waiting c]\<rparr>) \<Longrightarrow> calm_inv env p P (w\<lparr>calls := calls w @ [Waiting c]\<rparr>)"
  by (auto simp: calm_inv_def nth_append less_Suc_eq)

text \<open>A step of one call leaves the others alone: either the disk is the same or they do not have the file.\<close>

lemma calm_inv_Move:
  assumes env: "reg_env_ok env" and tmp: "tmp_of p \<noteq> p" and inv: "calm_inv env p P v"
    and sh: "P (shared v)" "persist_path (shared v) = Some p" "inner_inv (shared v)" "finite_cpu (shared v)"
    and exec: "conc_exec env (Move k out) v = Some u" and "calm u"
  shows "calm_inv env p P u"
proof -
  obtain t i x where k: "k < length (calls v)"
    and step: "task_step env out (calls v ! k) (shared v, cdisk v) = Some (t, i, x)"
    and u: "u = \<lparr>shared = i, cdisk = x, calls = (calls v)[k := t]\<rparr>"
    using exec by (auto split: if_splits option.splits)
  have ok: "disk_wf x \<and> on_disk env p P x \<and> task_ok env p P x t \<and> (x = cdisk v \<or> uses_tmp (calls v ! k) \<or> uses_tmp t)"
    using task_step_ok [where P = P, OF env tmp _ _ sh _ step] inv k unfolding calm_inv_def by blast
  have "task_ok env p P x (calls v ! j)" if "j < length (calls v)" "j \<noteq> k" for j
  proof (cases "x = cdisk v")
    case False
    then have "uses_tmp (calls v ! k) \<or> uses_tmp (calls u ! k)" using ok u k by auto
    then have "\<not> uses_tmp (calls v ! j)"
      using calm_unique [of v j k] calm_unique [of u j k] inv assms(9) that k u by (auto simp: calm_inv_def)
    then show ?thesis using inv that task_ok_quiet unfolding calm_inv_def by blast
  qed (use inv that in \<open>simp add: calm_inv_def\<close>)
  then have "task_ok env p P x (calls u ! j)" if "j < length (calls u)" for j
    using ok u k that by (cases "j = k") simp_all
  then show ?thesis using ok u assms(9) by (simp add: calm_inv_def)
qed

lemma calm_inv_run:
  assumes env: "reg_env_ok env" and tmp: "tmp_of p \<noteq> p" and s: "reg_inv p s" and "disk_wf d"
    and "stored env p (disk_view d) (inner s)"
    and run: "calm_run env (conc_start (inner s) d) es w" and fin: "list_all finite_call (spawned es)"
  shows "calm_inv env p (past env s es) w"
  using run fin
proof (induction "conc_start (inner s) d" es w rule: calm_run.induct)
  case calm_Nil
  have "past env s [] (inner s)" by (simp add: past_def linearized_def)
  then show ?case using assms(4,5) by (auto simp: calm_inv_def conc_start_def on_disk_def calm_def)
next
  case (calm_snoc es v e u)
  have f: "list_all finite_call (spawned es)" using calm_snoc.prems by (cases e) simp_all
  have lin: "lin_inv env s es v" using calm_snoc.hyps(1) by (intro lin_inv_run calm_run_conc)
  have sh: "shared v = inner (fold (seq_call env) (linearized es) s)" using lin by (simp add: lin_inv_def)
  have "reg_inv p (fold (seq_call env) (linearized es) s)" using s linearized_finite [OF lin f] by (rule reg_inv_calls)
  then have i: "past env s es (shared v)" "persist_path (shared v) = Some p" "inner_inv (shared v)" "finite_cpu (shared v)"
    using sh by (auto simp: reg_inv_def past_def)
  have "calm_inv env p (past env s es) u"
  proof (cases e)
    case (Spawn c)
    then show ?thesis using calm_inv_Spawn [OF calm_snoc.hyps(2) [OF f]] calm_snoc.hyps(3,4) by auto
  next
    case (Move k out)
    then show ?thesis using calm_inv_Move [OF env tmp calm_snoc.hyps(2) [OF f] i] calm_snoc.hyps(3,4) by blast
  qed
  then show ?case by (rule calm_inv_mono) (use past_mono lin in \<open>auto simp: lin_inv_def\<close>)
qed

section \<open>Schedules\<close>

abbreviation conc_exec_all :: "reg_env \<Rightarrow> conc_event list \<Rightarrow> conc \<Rightarrow> conc option" where
  "conc_exec_all env \<equiv> exec_all (conc_exec env)"

inductive_simps conc_run_Nil: "conc_run env w [] u"
inductive_simps conc_run_snoc: "conc_run env w (es @ [e]) u"

interpretation cr: stepped_run "conc_exec env" "conc_run env"
  by unfold_locales (auto simp: conc_run_Nil conc_run_snoc)

lemmas conc_run_exec = cr.iff_exec_all

section \<open>Properties\<close>

text \<open>
  C16. The registry is linearizable: whatever the interleaving of any number of calls and whatever
  happens to the snapshots, the registry is as if the calls had run one after the other on the
  sequential registry in the order in which they took the lock, every reply is the one that
  execution gives, and that order respects time (a call that took the lock before another
  arrived comes before it).
\<close>

theorem registry_linearizable:
  assumes "conc_run env (conc_start (inner s) d) es w"
  shows "shared w = inner (fold (seq_call env) (linearized es) s)
   \<and> (\<forall>k < length (calls w). \<forall>r. calls w ! k = Replied r \<longrightarrow>
        (\<exists>m < length (lock_order es). lock_order es ! m = k \<and> linearized es ! m = spawned es ! k
           \<and> r = seq_reply env (spawned es ! k) (fold (seq_call env) (take m (linearized es)) s)))
   \<and> distinct (lock_order es)
   \<and> (\<forall>xs c ys. es = xs @ Spawn c # ys \<longrightarrow>
        (\<exists>ks. lock_order es = lock_order xs @ ks) \<and> length (spawned xs) \<notin> set (lock_order xs))"
proof (intro conjI allI impI)
  have inv: "lin_inv env s es w" using assms by (rule lin_inv_run)
  then show "shared w = inner (fold (seq_call env) (linearized es) s)" "distinct (lock_order es)"
    by (simp_all add: lin_inv_def)
  fix k r assume k: "k < length (calls w)" "calls w ! k = Replied r"
  then have "k \<in> set (lock_order es)" using inv by (fastforce simp: lin_inv_def)
  then obtain m where m: "m < length (lock_order es)" "lock_order es ! m = k" by (auto simp: in_set_conv_nth)
  with inv k show "\<exists>m < length (lock_order es). lock_order es ! m = k \<and> linearized es ! m = spawned es ! k
      \<and> r = seq_reply env (spawned es ! k) (fold (seq_call env) (take m (linearized es)) s)"
    by (intro exI [of _ m]) (auto simp: lin_inv_def linearized_def)
next
  fix xs c ys assume es: "es = xs @ Spawn c # ys"
  show "\<exists>ks. lock_order es = lock_order xs @ ks" unfolding es by (rule lock_order_prefix)
  obtain v where "conc_run env (conc_start (inner s) d) xs v"
    using assms unfolding es cr.append_iff by blast
  from lin_inv_run [OF this] show "length (spawned xs) \<notin> set (lock_order xs)" by (auto simp: lin_inv_def)
qed

text \<open>
  C17. If at most one call at a time has the temporary file open and heartbeats carry finite CPU
  readings, a crash at any moment of any interleaving, also after failed or torn writes, leaves a snapshot that loads, and it is the
  fleet and the desired state the registry had at some moment.
\<close>

theorem serialized_saves_recoverable:
  assumes "reg_env_ok env" and "tmp_of p \<noteq> p" and "reg_inv p s" and "disk_wf d"
    and "stored env p (disk_view d) (inner s)"
    and "calm_run env (conc_start (inner s) d) es w" and "list_all finite_call (spawned es)"
  shows "\<exists>j. \<exists>m \<le> length (linearized es).
     fst (Registry_load env p \<lparr>files = disk_view (cdisk w), faults = []\<rparr>) = Inr j
     \<and> same_fleet j (inner (fold (seq_call env) (take m (linearized es)) s))"
proof -
  obtain i where i: "past env s es i" "stored env p (disk_view (cdisk w)) i"
    using calm_inv_run [OF assms] by (auto simp: calm_inv_def on_disk_def)
  from load_stored [OF assms(1), of p "\<lparr>files = disk_view (cdisk w), faults = []\<rparr>" i] i(2)
  obtain j where "fst (Registry_load env p \<lparr>files = disk_view (cdisk w), faults = []\<rparr>) = Inr j" "same_fleet j i"
    by auto
  with i(1) show ?thesis by (auto simp: past_def)
qed

text \<open>
  The code does not serialize its saves. Two pushes that both go through without a fault: the
  second one opens the temporary file before the first has written and renamed it, and so
  writes into the file that has already become the snapshot. When its own snapshot is the
  shorter one, the file ends as that snapshot followed by the tail of the other, which a
  decoder that refuses trailing characters does not load: the control plane cannot start.
\<close>

definition overlap_schedule :: "Policy \<Rightarrow> Policy \<Rightarrow> nat \<Rightarrow> conc_event list" where
  "overlap_schedule p1 p2 n = [Spawn (Call (SetPolicy p1)), Spawn (Call (SetPolicy p2)),
     Move 0 (Works n), Move 0 (Works n), Move 1 (Works n), Move 1 (Works n), Move 0 (Works n), Move 1 (Works n),
     Move 0 (Works n), Move 0 (Works n), Move 0 (Works n), Move 1 (Works n), Move 1 (Works n), Move 1 (Works n)]"

definition pushed :: "Policy \<Rightarrow> Inner \<Rightarrow> Inner" where
  "pushed p i = i\<lparr>policy_seq := policy_seq i + 1, in_policy := Some p\<rparr>"

definition refuses_trailing :: "'a json \<Rightarrow> bool" where
  "refuses_trailing js \<longleftrightarrow> (\<forall>x y b c. encode js x = Some b \<longrightarrow> encode js y = Some c
     \<longrightarrow> length b < length c \<longrightarrow> decode js (b @ drop (length b) c) = None)"

theorem overlapping_saves_corrupt:
  assumes "refuses_trailing (snap_json env)" and "persist_path i = Some p" and "tmp_of p \<noteq> p" and "disk_wf d"
    and "map_option version (in_policy i) \<noteq> Some (version p1)" and "version p2 \<noteq> version p1"
    and "encode (snap_json env) (snapshot_locked env (pushed p1 i)) = Some b1"
    and "encode (snap_json env) (snapshot_locked env (pushed p2 (pushed p1 i))) = Some b2"
    and "b2 \<noteq> []" and "length b2 < length b1"
  shows "\<exists>w. conc_run env (conc_start i d) (overlap_schedule p1 p2 (length b1)) w
     \<and> shared w = pushed p2 (pushed p1 i)
     \<and> calls w = [Replied (Sequence (policy_seq i + 1)), Replied (Sequence (policy_seq i + 2))]
     \<and> disk_view (cdisk w) p = Some (b2 @ drop (length b2) b1)
     \<and> fst (Registry_load env p \<lparr>files = disk_view (cdisk w), faults = []\<rparr>) = Inl InvalidData"
proof -
  obtain n e where c: "create_file (tmp_of p) d = (n, e)" by fastforce
  note ok = create_file_ok [OF assms(4,3) c]
  have n: "n < length (inodes e)" using ok(1,2) by (simp add: disk_wf_def)
  have e: "create_file (tmp_of p) e = (n, e)" using ok(2,3) by (simp add: create_file_def list_update_same_conv n)
  let ?d = "e\<lparr>names := ((names e)(tmp_of p := None))(p \<mapsto> n), inodes := (inodes e)[n := b2 @ drop (length b2) b1]\<rparr>"
  let ?w = "\<lparr>shared = pushed p2 (pushed p1 i), cdisk = ?d,
      calls = [Replied (Sequence (policy_seq i + 1)), Replied (Sequence (policy_seq i + 2))]\<rparr>"
  have "b1 \<noteq> []" using assms(10) by auto
  then have "conc_exec_all env (overlap_schedule p1 p2 (length b1)) (conc_start i d) = Some ?w"
    using assms(2,3,5-10) ok n
    by (simp add: overlap_schedule_def conc_start_def pushed_def c e write_at_def rename_file_def)
  moreover have v: "disk_view ?d p = Some (b2 @ drop (length b2) b1)"
    using n by (simp add: disk_view_def)
  moreover have "decode (snap_json env) (b2 @ drop (length b2) b1) = None"
    using assms(1,7,8,10) unfolding refuses_trailing_def by blast
  ultimately show ?thesis unfolding conc_run_exec
    by (intro exI [of _ ?w]) (simp add: Registry_load_def act_defs fs_defs)
qed

text \<open>
  Even with one save at a time the older snapshot can win: the first push takes its snapshot,
  the second one runs completely, and then the first one writes. Memory holds the second
  policy, a restart comes up with the first one and its lower sequence number.
\<close>

definition stale_schedule :: "Policy \<Rightarrow> Policy \<Rightarrow> nat \<Rightarrow> conc_event list" where
  "stale_schedule p1 p2 n = [Spawn (Call (SetPolicy p1)), Spawn (Call (SetPolicy p2)),
     Move 0 (Works n), Move 0 (Works n), Move 1 (Works n), Move 1 (Works n), Move 1 (Works n), Move 1 (Works n),
     Move 1 (Works n), Move 1 (Works n), Move 0 (Works n), Move 0 (Works n), Move 0 (Works n), Move 0 (Works n)]"

theorem stale_save_wins:
  assumes env: "reg_env_ok env" and i: "persist_path i = Some p" "inner_inv i" "finite_cpu i"
    and "tmp_of p \<noteq> p" and "disk_wf d"
    and "map_option version (in_policy i) \<noteq> Some (version p1)" and "version p2 \<noteq> version p1"
    and b1: "encode (snap_json env) (snapshot_locked env (pushed p1 i)) = Some b1"
    and b2: "encode (snap_json env) (snapshot_locked env (pushed p2 (pushed p1 i))) = Some b2"
    and "b1 \<noteq> []" "b2 \<noteq> []" and "n = max (length b1) (length b2)"
  shows "\<exists>w j. conc_run env (conc_start i d) (stale_schedule p1 p2 n) w
     \<and> shared w = pushed p2 (pushed p1 i)
     \<and> fst (Registry_load env p \<lparr>files = disk_view (cdisk w), faults = []\<rparr>) = Inr j
     \<and> in_policy j = Some p1 \<and> policy_seq j = policy_seq i + 1"
proof -
  obtain m e where c: "create_file (tmp_of p) d = (m, e)" by fastforce
  note ok = create_file_ok [OF assms(6,5) c]
  have m: "m < length (inodes e)" using ok(1,2) by (simp add: disk_wf_def)
  define e2 where "e2 = e\<lparr>names := ((names e)(tmp_of p := None))(p \<mapsto> m), inodes := (inodes e)[m := b2]\<rparr>"
  have f: "create_file (tmp_of p) e2 = (length (inodes e), e2\<lparr>names := (names e2)(tmp_of p \<mapsto> length (inodes e)),
      inodes := inodes e2 @ [[]]\<rparr>)"
    using assms(5) by (simp add: create_file_def e2_def)
  let ?d = "e2\<lparr>names := ((names e2)(tmp_of p := None))(p \<mapsto> length (inodes e)), inodes := inodes e2 @ [b1]\<rparr>"
  let ?w = "\<lparr>shared = pushed p2 (pushed p1 i), cdisk = ?d,
      calls = [Replied (Sequence (policy_seq i + 1)), Replied (Sequence (policy_seq i + 2))]\<rparr>"
  have le: "length b1 \<le> n" "length b2 \<le> n" "0 < n" using assms(11-13) by (auto simp: less_max_iff_disj)
  have "conc_exec_all env (take 10 (stale_schedule p1 p2 n)) (conc_start i d) = Some \<lparr>shared = pushed p2 (pushed p1 i),
      cdisk = e2, calls = [Creating p b1 (Sequence (policy_seq i + 1)), Replied (Sequence (policy_seq i + 2))]\<rparr>"
    using i(1) assms(7-12) ok m le
    by (simp add: stale_schedule_def conc_start_def pushed_def c e2_def write_at_def rename_file_def)
  moreover have "conc_exec_all env (drop 10 (stale_schedule p1 p2 n)) \<lparr>shared = pushed p2 (pushed p1 i),
      cdisk = e2, calls = [Creating p b1 (Sequence (policy_seq i + 1)), Replied (Sequence (policy_seq i + 2))]\<rparr> = Some ?w"
    using assms(5,11) f le
    by (simp add: stale_schedule_def write_at_def rename_file_def e2_def nth_append list_update_append fun_upd_twist)
  ultimately have run: "conc_run env (conc_start i d) (stale_schedule p1 p2 n) ?w"
    unfolding conc_run_exec using exec_all_append [of "conc_exec env" "take 10 (stale_schedule p1 p2 n)" "drop 10 (stale_schedule p1 p2 n)"]
    by (simp only: append_take_drop_id bind.simps)
  have "disk_view ?d p = Some b1" by (simp add: disk_view_def e2_def nth_append)
  moreover have "inner_inv (pushed p1 i)" "finite_cpu (pushed p1 i)"
    using i by (simp_all add: pushed_def inner_inv_def)
  ultimately obtain j where "Registry_load env p \<lparr>files = disk_view ?d, faults = []\<rparr> = (Inr j, \<lparr>files = disk_view ?d, faults = []\<rparr>)"
      "same_fleet j (pushed p1 i)"
    using load_snapshot [OF env _ _ b1, of "\<lparr>files = disk_view ?d, faults = []\<rparr>" p]
    by (auto simp: finite_snapshot_locked [OF env])
  with run show ?thesis
    by (intro exI [of _ ?w] exI [of _ j]) (simp add: same_fleet_def pushed_def)
qed

end
