(* ===== verification/Rollout.thy ===== *)
theory Rollout
  imports Rust_Std
begin

text \<open>
  \<open>crates/control-plane/src/rollout.rs\<close>: canary rollout with health gates. Decimal literals
  of the code are the exact values of the doubles they denote. A panic is \<open>None\<close>.
\<close>

section \<open>Data\<close>

record Ring =
  ring_name :: string
  fraction :: f64

definition Ring_new :: "string \<Rightarrow> f64 \<Rightarrow> Ring" where
  "Ring_new n f = \<lparr>ring_name = n, fraction = f\<rparr>"

definition default_rings :: "Ring list" where
  "default_rings =
     [Ring_new ''internal'' (F64 False 0),
      Ring_new ''canary-0.1pct'' (F64 False (1152921504606847 / 1152921504606846976)),
      Ring_new ''canary-1pct'' (F64 False (5764607523034235 / 576460752303423488)),
      Ring_new ''canary-5pct'' (F64 False (3602879701896397 / 72057594037927936)),
      Ring_new ''canary-25pct'' (F64 False (1 / 4)),
      Ring_new ''stable-100pct'' (F64 False 1)]"

record HealthSnapshot =
  crash_rate :: f64
  proxy_error_rate :: f64
  connection_success_rate :: f64
  cpu_p95 :: f64
  mem_bytes_p95 :: u64
  mem_limit_bytes :: u64
  health_check_failures :: u64
  sample_size :: u64

record GateThresholds =
  max_crash_rate :: f64
  max_proxy_error_rate :: f64
  min_connection_success_rate :: f64
  max_cpu_p95 :: f64
  max_health_check_failures :: u64
  min_sample_size :: u64

definition default_thresholds :: GateThresholds where
  "default_thresholds = \<lparr>max_crash_rate = F64 False (5764607523034235 / 576460752303423488),
     max_proxy_error_rate = F64 False (5764607523034235 / 288230376151711744),
     min_connection_success_rate = F64 False (4458563631096791 / 4503599627370496),
     max_cpu_p95 = F64 False (7656119366529843 / 9007199254740992),
     max_health_check_failures = 0, min_sample_size = 5\<rparr>"

datatype RolloutDecision = Promote (from_ring: string) (to_ring: string) | Hold (ring: string)
  | Paused (ring: string) (reason: string)

record RolloutManager =
  rings :: "Ring list"
  current :: nat
  paused :: bool
  pause_reason :: "string option"
  thresholds :: GateThresholds

section \<open>Operations\<close>

definition RolloutManager_new :: "Ring list \<Rightarrow> GateThresholds \<Rightarrow> RolloutManager" where
  "RolloutManager_new rs t = \<lparr>rings = rs, current = 0, paused = False, pause_reason = None,
     thresholds = t\<rparr>"

definition current_ring :: "RolloutManager \<Rightarrow> Ring option" where
  "current_ring m = (if rings m = [] then None else Some (rings m ! min (current m) (length (rings m) - 1)))"

definition pause :: "string \<Rightarrow> RolloutManager \<Rightarrow> RolloutManager" where
  "pause r m = m\<lparr>paused := True, pause_reason := Some r\<rparr>"

definition resume_rollout :: "RolloutManager \<Rightarrow> RolloutManager" where
  "resume_rollout m = m\<lparr>paused := False, pause_reason := None\<rparr>"

text \<open>The first gate that fails, with the text the code formats for it.\<close>

definition failed_gate :: "GateThresholds \<Rightarrow> HealthSnapshot \<Rightarrow> string option" where
  "failed_gate t s =
     (if f64_gt (crash_rate s) (max_crash_rate t)
        then Some (''crash_rate '' @ fmt_fixed 4 (crash_rate s) @ '' > '' @ fmt_fixed 4 (max_crash_rate t))
      else if f64_gt (proxy_error_rate s) (max_proxy_error_rate t)
        then Some (''proxy_error_rate '' @ fmt_fixed 4 (proxy_error_rate s) @ '' > ''
               @ fmt_fixed 4 (max_proxy_error_rate t))
      else if f64_lt (connection_success_rate s) (min_connection_success_rate t)
        then Some (''connection_success_rate '' @ fmt_fixed 4 (connection_success_rate s) @ '' < ''
               @ fmt_fixed 4 (min_connection_success_rate t))
      else if f64_gt (cpu_p95 s) (max_cpu_p95 t)
        then Some (''cpu_p95 '' @ fmt_fixed 3 (cpu_p95 s) @ '' > '' @ fmt_fixed 3 (max_cpu_p95 t))
      else if max_health_check_failures t < health_check_failures s
        then Some (''health_check_failures '' @ show_u64 (health_check_failures s) @ '' > ''
               @ show_u64 (max_health_check_failures t))
      else None)"

definition Rollout_evaluate ::
  "HealthSnapshot \<Rightarrow> RolloutManager \<Rightarrow> (RolloutDecision \<times> RolloutManager) option" where
  "Rollout_evaluate s m =
     (case current_ring m of
        None \<Rightarrow> None
      | Some r \<Rightarrow> Some (
          if paused m then
            (Paused (ring_name r)
               (case pause_reason m of None \<Rightarrow> ''manually paused'' | Some why \<Rightarrow> why), m)
          else if sample_size s < min_sample_size (thresholds m) then (Hold (ring_name r), m)
          else (case failed_gate (thresholds m) s of
                  Some why \<Rightarrow> (Paused (ring_name r) why, pause why m)
                | None \<Rightarrow>
                    if current m + 1 < length (rings m)
                    then (Promote (ring_name r) (ring_name (rings m ! (current m + 1))), m)
                    else (Hold (ring_name r), m))))"

definition promote :: "RolloutManager \<Rightarrow> RolloutManager" where
  "promote m = (if \<not> paused m \<and> current m + 1 < length (rings m)
     then m\<lparr>current := current m + 1\<rparr> else m)"

section \<open>A rollout over time\<close>

text \<open>What can happen to a rollout; an evaluation that would panic leaves the manager alone.\<close>

datatype rollout_event = EvEvaluate HealthSnapshot | EvPromote | EvPause string | EvResume

fun rollout_step :: "rollout_event \<Rightarrow> RolloutManager \<Rightarrow> RolloutManager" where
  "rollout_step (EvEvaluate s) m = (case Rollout_evaluate s m of None \<Rightarrow> m | Some (_, m') \<Rightarrow> m')"
| "rollout_step EvPromote m = promote m"
| "rollout_step (EvPause why) m = pause why m"
| "rollout_step EvResume m = resume_rollout m"

text \<open>
  The caller's side of the contract: it promotes only right after an evaluation that said so.
  Pauses, resumes and further evaluations may come in between at any time.
\<close>

fun promotes_on_word :: "rollout_event list \<Rightarrow> RolloutManager \<Rightarrow> bool" where
  "promotes_on_word (EvEvaluate s # EvPromote # es) m \<longleftrightarrow>
     (\<exists>f t m'. Rollout_evaluate s m = Some (Promote f t, m'))
     \<and> promotes_on_word es (promote (rollout_step (EvEvaluate s) m))"
| "promotes_on_word (EvPromote # es) m \<longleftrightarrow> False"
| "promotes_on_word (e # es) m \<longleftrightarrow> promotes_on_word es (rollout_step e m)"
| "promotes_on_word [] m \<longleftrightarrow> True"

definition rollout_inv :: "RolloutManager \<Rightarrow> bool" where
  "rollout_inv m \<longleftrightarrow> current m < length (rings m) \<and> (pause_reason m \<noteq> None \<longrightarrow> paused m)"

text \<open>
  A snapshot is healthy when none of its figures is beyond its threshold, in the comparisons of
  IEEE numbers; it counts when its sample is large enough.
\<close>

definition within_thresholds :: "GateThresholds \<Rightarrow> HealthSnapshot \<Rightarrow> bool" where
  "within_thresholds t s \<longleftrightarrow>
     \<not> f64_gt (crash_rate s) (max_crash_rate t)
     \<and> \<not> f64_gt (proxy_error_rate s) (max_proxy_error_rate t)
     \<and> \<not> f64_lt (connection_success_rate s) (min_connection_success_rate t)
     \<and> \<not> f64_gt (cpu_p95 s) (max_cpu_p95 t)
     \<and> health_check_failures s \<le> max_health_check_failures t"

definition good_snapshot :: "GateThresholds \<Rightarrow> HealthSnapshot \<Rightarrow> bool" where
  "good_snapshot t s \<longleftrightarrow> min_sample_size t \<le> sample_size s \<and> within_thresholds t s"

definition bad_snapshot :: "GateThresholds \<Rightarrow> HealthSnapshot \<Rightarrow> bool" where
  "bad_snapshot t s \<longleftrightarrow> min_sample_size t \<le> sample_size s \<and> \<not> within_thresholds t s"

section \<open>Lemmas\<close>

lemma rollout_inv_step: "rollout_inv m \<Longrightarrow> rollout_inv (rollout_step e m)"
  by (cases e) (auto simp: rollout_inv_def Rollout_evaluate_def promote_def pause_def
      resume_rollout_def split: option.splits if_splits)

lemma step_keeps_rings [simp]:
  "rings (rollout_step e m) = rings m" "thresholds (rollout_step e m) = thresholds m"
  by (cases e; auto simp: Rollout_evaluate_def promote_def pause_def resume_rollout_def
      split: option.splits if_splits)+

lemma rollout_inv_run: "rollout_inv m \<Longrightarrow> rollout_inv (fold rollout_step es m)"
  by (induction es arbitrary: m) (simp_all add: rollout_inv_step)

lemma rings_run [simp]: "rings (fold rollout_step es m) = rings m"
  by (induction es arbitrary: m) simp_all

lemma current_ring_inv: "rollout_inv m \<Longrightarrow> current_ring m = Some (rings m ! current m)"
  by (auto simp: rollout_inv_def current_ring_def min_def)

lemma paused_step:
  "paused m \<Longrightarrow> e \<noteq> EvResume \<Longrightarrow> paused (rollout_step e m) \<and> current (rollout_step e m) = current m"
  by (cases e) (auto simp: Rollout_evaluate_def promote_def pause_def split: option.splits if_splits)

lemma paused_run:
  "paused m \<Longrightarrow> EvResume \<notin> set es \<Longrightarrow>
     paused (fold rollout_step es m) \<and> current (fold rollout_step es m) = current m"
proof (induction es arbitrary: m)
  case (Cons e es)
  with paused_step [of m e] show ?case by auto
qed simp

lemma failed_gate_None_iff: "failed_gate t s = None \<longleftrightarrow> within_thresholds t s"
  by (auto simp: failed_gate_def within_thresholds_def)

lemma evaluate_bad:
  assumes "rings m \<noteq> []" and "bad_snapshot (thresholds m) s"
  shows "\<exists>r why m'. Rollout_evaluate s m = Some (Paused r why, m') \<and> paused m' \<and> current m' = current m"
proof -
  have "failed_gate (thresholds m) s \<noteq> None" using assms(2) by (simp add: bad_snapshot_def failed_gate_None_iff)
  with assms show ?thesis
    by (auto simp: Rollout_evaluate_def bad_snapshot_def current_ring_def pause_def)
qed

lemma evaluate_promotes:
  assumes "Rollout_evaluate s m = Some (Promote f t, m')"
  shows "good_snapshot (thresholds m) s \<and> m' = m \<and> \<not> paused m \<and> current m + 1 < length (rings m)"
  using assms by (auto simp: Rollout_evaluate_def good_snapshot_def failed_gate_None_iff
      split: option.splits if_splits)

lemma step_current: "e \<noteq> EvPromote \<Longrightarrow> current (rollout_step e m) = current m"
  by (cases e) (auto simp: Rollout_evaluate_def pause_def resume_rollout_def split: option.splits if_splits)

text \<open>The snapshots that were evaluated, and how often the caller promoted.\<close>

definition evaluated :: "rollout_event list \<Rightarrow> HealthSnapshot list" where
  "evaluated es = concat (map (\<lambda>e. case e of EvEvaluate s \<Rightarrow> [s] | _ \<Rightarrow> []) es)"

definition promotions :: "rollout_event list \<Rightarrow> nat" where
  "promotions es = length (filter ((=) EvPromote) es)"

lemma evaluated_simps [simp]:
  "evaluated [] = []" "evaluated (EvEvaluate s # es) = s # evaluated es" "evaluated (EvPromote # es) = evaluated es"
  "evaluated (EvPause w # es) = evaluated es" "evaluated (EvResume # es) = evaluated es"
  by (simp_all add: evaluated_def)

lemma promotions_simps [simp]:
  "promotions [] = 0" "promotions (EvPromote # es) = Suc (promotions es)"
  "e \<noteq> EvPromote \<Longrightarrow> promotions (e # es) = promotions es"
  by (auto simp: promotions_def)

section \<open>Properties\<close>

text \<open>
  C31. The gates decide promotion, exactly: on a manager within its rings, an evaluation says
  \<open>Promote\<close> if and only if the rollout is not paused, the sample is large enough, none of the
  five thresholds is violated and there is a next ring; it then names the current and the
  next ring and changes nothing.
\<close>

theorem rollout_promotes_iff:
  assumes "rollout_inv m"
  shows "Rollout_evaluate s m = Some (Promote f t, m') \<longleftrightarrow>
     \<not> paused m \<and> min_sample_size (thresholds m) \<le> sample_size s
     \<and> \<not> f64_gt (crash_rate s) (max_crash_rate (thresholds m))
     \<and> \<not> f64_gt (proxy_error_rate s) (max_proxy_error_rate (thresholds m))
     \<and> \<not> f64_lt (connection_success_rate s) (min_connection_success_rate (thresholds m))
     \<and> \<not> f64_gt (cpu_p95 s) (max_cpu_p95 (thresholds m))
     \<and> health_check_failures s \<le> max_health_check_failures (thresholds m)
     \<and> current m + 1 < length (rings m)
     \<and> f = ring_name (rings m ! current m) \<and> t = ring_name (rings m ! (current m + 1)) \<and> m' = m"
  by (auto simp: Rollout_evaluate_def current_ring_inv [OF assms] failed_gate_def)

text \<open>
  A pause latches: from a paused manager, no evaluation, promotion or further pause (only
  an operator's resume) moves the rollout; every evaluation keeps answering \<open>Paused\<close>, even
  on perfect data.
\<close>

theorem rollout_pause_latches:
  assumes "paused m" and "rings m \<noteq> []" and "EvResume \<notin> set es"
  shows "current (fold rollout_step es m) = current m
     \<and> promote (fold rollout_step es m) = fold rollout_step es m
     \<and> (\<exists>r why. Rollout_evaluate s (fold rollout_step es m) = Some (Paused r why, fold rollout_step es m))"
  using paused_run [OF assms(1,3)] assms(2)
  by (auto simp: promote_def Rollout_evaluate_def current_ring_def)

text \<open>
  C24. A failing ring freezes the rollout: an evaluation of a snapshot with enough samples that is
  beyond one of the five thresholds answers \<open>Paused\<close>, and whatever evaluations, promotions and
  pauses follow, until an operator resumes, the rollout stays paused on the ring it was on,
  a promotion does nothing and every evaluation answers \<open>Paused\<close>.
\<close>

theorem bad_ring_freezes_rollout:
  assumes "rings m \<noteq> []" and "min_sample_size (thresholds m) \<le> sample_size s"
    and "f64_gt (crash_rate s) (max_crash_rate (thresholds m))
       \<or> f64_gt (proxy_error_rate s) (max_proxy_error_rate (thresholds m))
       \<or> f64_lt (connection_success_rate s) (min_connection_success_rate (thresholds m))
       \<or> f64_gt (cpu_p95 s) (max_cpu_p95 (thresholds m))
       \<or> max_health_check_failures (thresholds m) < health_check_failures s"
    and "EvResume \<notin> set es"
  defines "m1 \<equiv> fold rollout_step (EvEvaluate s # es) m"
  shows "(\<exists>r why m'. Rollout_evaluate s m = Some (Paused r why, m'))
     \<and> paused m1 \<and> current m1 = current m \<and> promote m1 = m1
     \<and> (\<exists>r why. Rollout_evaluate s' m1 = Some (Paused r why, m1))"
proof -
  have "bad_snapshot (thresholds m) s" using assms(2,3) by (auto simp: bad_snapshot_def within_thresholds_def)
  from evaluate_bad [OF assms(1) this] obtain r why m' where
    e: "Rollout_evaluate s m = Some (Paused r why, m')" "paused m'" "current m' = current m" by blast
  then have "m1 = fold rollout_step es m'" by (simp add: m1_def)
  with paused_run [OF e(2) assms(4)] e have m1: "paused m1" "current m1 = current m" by simp_all
  have "rings m1 \<noteq> []" using assms(1) rings_run [of "EvEvaluate s # es" m] by (simp add: m1_def)
  with e(1) m1 show ?thesis by (auto simp: promote_def Rollout_evaluate_def current_ring_def)
qed

text \<open>
  C32. Progress is earned: when the caller promotes only right after an evaluation that said so,
  with pauses, resumes and other evaluations anywhere, every promotion moves the rollout by
  exactly one ring, and there are no more of them than evaluated snapshots with enough
  samples and every figure within its threshold.
\<close>

theorem rollout_progress_earned:
  assumes "promotes_on_word es m"
  shows "current (fold rollout_step es m) = current m + promotions es
     \<and> promotions es \<le> length (filter (\<lambda>s. min_sample_size (thresholds m) \<le> sample_size s
          \<and> \<not> f64_gt (crash_rate s) (max_crash_rate (thresholds m))
          \<and> \<not> f64_gt (proxy_error_rate s) (max_proxy_error_rate (thresholds m))
          \<and> \<not> f64_lt (connection_success_rate s) (min_connection_success_rate (thresholds m))
          \<and> \<not> f64_gt (cpu_p95 s) (max_cpu_p95 (thresholds m))
          \<and> health_check_failures s \<le> max_health_check_failures (thresholds m)) (evaluated es))"
  (is "_ \<and> _ \<le> length (filter (?good m) _)")
proof -
  have good: "?good m = good_snapshot (thresholds m)" for m
    by (auto simp: fun_eq_iff good_snapshot_def within_thresholds_def)
  show ?thesis using assms unfolding good
  proof (induction es m rule: promotes_on_word.induct)
    case (1 s es m)
    then obtain f t m' where e: "Rollout_evaluate s m = Some (Promote f t, m')" by auto
    with evaluate_promotes [OF e] 1 show ?case by (auto simp: promote_def)
  qed (auto simp: step_current simp del: rollout_step.simps)
qed

text \<open>
  C33. The manager never indexes outside its rings: after any events on a new manager with at
  least one ring, the current index is valid and an evaluation does not panic.
\<close>

theorem rollout_no_panic:
  assumes "rs \<noteq> []"
  shows "current (fold rollout_step es (RolloutManager_new rs t)) < length rs
     \<and> Rollout_evaluate s (fold rollout_step es (RolloutManager_new rs t)) \<noteq> None"
proof -
  have "rollout_inv (RolloutManager_new rs t)"
    using assms by (simp add: rollout_inv_def RolloutManager_new_def)
  then have i: "rollout_inv (fold rollout_step es (RolloutManager_new rs t))" (is "rollout_inv ?m")
    by (rule rollout_inv_run)
  moreover have "rings ?m = rs" by (simp add: RolloutManager_new_def)
  ultimately show ?thesis
    by (auto simp: Rollout_evaluate_def current_ring_inv [OF i] rollout_inv_def)
qed

text \<open>
  Every comparison with a NaN is false, so a snapshot whose four rates are NaN passes
  the gates and the rollout is promoted on it.
\<close>

theorem nan_snapshot_promotes:
  assumes "rollout_inv m" and "\<not> paused m" and "current m + 1 < length (rings m)"
    and "min_sample_size (thresholds m) \<le> sample_size s"
    and "health_check_failures s \<le> max_health_check_failures (thresholds m)"
    and "crash_rate s = F64_nan" and "proxy_error_rate s = F64_nan"
    and "connection_success_rate s = F64_nan" and "cpu_p95 s = F64_nan"
  shows "Rollout_evaluate s m = Some (Promote (ring_name (rings m ! current m)) (ring_name (rings m ! (current m + 1))), m)
     \<and> current (fold rollout_step [EvEvaluate s, EvPromote] m) = current m + 1"
proof -
  have "\<not> sample_size s < min_sample_size (thresholds m)"
    and "\<not> max_health_check_failures (thresholds m) < health_check_failures s"
    using assms(4,5) by (simp_all add: not_less)
  then show ?thesis
    using assms(2,3,6-9) current_ring_inv [OF assms(1)]
    by (simp add: Rollout_evaluate_def failed_gate_def promote_def)
qed

end
