(* ===== verification/Transparent.thy ===== *)
theory Transparent
  imports Rust_Std
begin

text \<open>
  The TPROXY helpers of \<open>crates/edge-proxy/src/transparent.rs\<close>: reading the original
  destination of a redirected connection from the bytes the kernel fills in, on a machine of
  either byte order, and opening a listener through a sequence of system calls whose
  outcomes are an argument.
\<close>

unbundle bit_operations_syntax

section \<open>Byte order\<close>

datatype endian = LittleEndian | BigEndian

text \<open>How the machine reads an integer field from memory, and \<open>from_be\<close>.\<close>

definition load_u16 :: "endian \<Rightarrow> u8 \<Rightarrow> u8 \<Rightarrow> 16 word" where
  "load_u16 e b0 b1 = (case e of
       LittleEndian \<Rightarrow> ucast b0 OR push_bit 8 (ucast b1)
     | BigEndian \<Rightarrow> push_bit 8 (ucast b0) OR ucast b1)"

definition load_u32 :: "endian \<Rightarrow> u8 \<Rightarrow> u8 \<Rightarrow> u8 \<Rightarrow> u8 \<Rightarrow> u32" where
  "load_u32 e b0 b1 b2 b3 = (case e of
       LittleEndian \<Rightarrow> ucast b0 OR push_bit 8 (ucast b1) OR push_bit 16 (ucast b2) OR push_bit 24 (ucast b3)
     | BigEndian \<Rightarrow> push_bit 24 (ucast b0) OR push_bit 16 (ucast b1) OR push_bit 8 (ucast b2) OR ucast b3)"

definition swap_u16 :: "16 word \<Rightarrow> 16 word" where
  "swap_u16 w = push_bit 8 w OR drop_bit 8 w"

definition swap_u32 :: "u32 \<Rightarrow> u32" where
  "swap_u32 w = push_bit 24 (take_bit 8 w) OR push_bit 16 (take_bit 8 (drop_bit 8 w))
     OR push_bit 8 (take_bit 8 (drop_bit 16 w)) OR drop_bit 24 w"

definition from_be_u16 :: "endian \<Rightarrow> 16 word \<Rightarrow> 16 word" where
  "from_be_u16 e w = (case e of LittleEndian \<Rightarrow> swap_u16 w | BigEndian \<Rightarrow> w)"

definition from_be_u32 :: "endian \<Rightarrow> u32 \<Rightarrow> u32" where
  "from_be_u32 e w = (case e of LittleEndian \<Rightarrow> swap_u32 w | BigEndian \<Rightarrow> w)"

text \<open>\<open>Ipv4Addr::from(u32)\<close>: the octets from the most significant byte down.\<close>

definition ipv4_octets :: "u32 \<Rightarrow> u8 \<times> u8 \<times> u8 \<times> u8" where
  "ipv4_octets w = (ucast (drop_bit 24 w), ucast (drop_bit 16 w), ucast (drop_bit 8 w), ucast w)"

section \<open>Original destination\<close>

record OriginalDestination =
  od_ip :: "u8 \<times> u8 \<times> u8 \<times> u8"
  od_port :: "16 word"

text \<open>
  The system call fails with an error code or fills in the sixteen bytes of a \<open>sockaddr_in\<close>:
  family, port, address and padding.
\<close>

definition original_destination_fd :: "endian \<Rightarrow> nat + bytes \<Rightarrow> nat + OriginalDestination" where
  "original_destination_fd e rc =
     (case rc of
        Inl err \<Rightarrow> Inl err
      | Inr b \<Rightarrow> Inr \<lparr>od_ip = ipv4_octets (from_be_u32 e (load_u32 e (b ! 4) (b ! 5) (b ! 6) (b ! 7))),
          od_port = from_be_u16 e (load_u16 e (b ! 2) (b ! 3))\<rparr>)"

text \<open>\<open>original_destination\<close>: on Linux the system call, elsewhere an error.\<close>

datatype od_error = Unsupported | OsError nat

definition original_destination :: "bool \<Rightarrow> endian \<Rightarrow> nat + bytes \<Rightarrow> od_error + OriginalDestination" where
  "original_destination linux e rc =
     (if linux then (case original_destination_fd e rc of Inl err \<Rightarrow> Inl (OsError err) | Inr d \<Rightarrow> Inr d)
      else Inl Unsupported)"

section \<open>Listener\<close>

text \<open>Outcomes of the system calls; \<open>None\<close> is success, a number an error code.\<close>

record bind_calls =
  sys_socket :: "nat + nat"
  sys_reuse :: "nat option"
  sys_ip_transparent :: "nat option"
  sys_bind :: "nat option"
  sys_listen :: "nat option"
  sys_nonblocking :: "nat option"

text \<open>
  The open descriptors are threaded through. A socket that goes out of scope is closed;
  setting the address reuse and \<open>IP_TRANSPARENT\<close> may fail without consequence.
\<close>

definition bind_transparent :: "bind_calls \<Rightarrow> nat set \<Rightarrow> (nat + nat) \<times> nat set" where
  "bind_transparent c fds =
     (case sys_socket c of
        Inl e \<Rightarrow> (Inl e, fds)
      | Inr fd \<Rightarrow>
          (let opened = insert fd fds; closed = opened - {fd}
           in case sys_bind c of
                Some e \<Rightarrow> (Inl e, closed)
              | None \<Rightarrow> (case sys_listen c of
                  Some e \<Rightarrow> (Inl e, closed)
                | None \<Rightarrow> (case sys_nonblocking c of
                    Some e \<Rightarrow> (Inl e, closed)
                  | None \<Rightarrow> (Inr fd, opened)))))"

section \<open>Properties\<close>

lemma from_be_load_u16:
  "from_be_u16 e (load_u16 e b0 b1) = push_bit 8 (ucast b0) OR ucast b1"
  by (cases e; rule bit_word_eqI)
    (auto simp: from_be_u16_def load_u16_def swap_u16_def bit_simps dest: bit_imp_le_length)

lemma little_bytes:
  fixes b0 b1 b2 b3 :: u8
  defines "w \<equiv> (ucast b0 OR push_bit 8 (ucast b1) OR push_bit 16 (ucast b2) OR push_bit 24 (ucast b3) :: u32)"
  shows "take_bit 8 w = ucast b0" "take_bit 8 (drop_bit 8 w) = ucast b1"
    "take_bit 8 (drop_bit 16 w) = ucast b2" "drop_bit 24 w = ucast b3"
  unfolding w_def by (rule bit_word_eqI; auto simp: bit_simps dest: bit_imp_le_length)+

lemma from_be_load_u32:
  "from_be_u32 e (load_u32 e b0 b1 b2 b3)
     = push_bit 24 (ucast b0) OR push_bit 16 (ucast b1) OR push_bit 8 (ucast b2) OR ucast b3"
proof (cases e)
  case LittleEndian
  show ?thesis
    unfolding LittleEndian from_be_u32_def load_u32_def swap_u32_def endian.case little_bytes ..
qed (simp add: from_be_u32_def load_u32_def)

lemma octets_of_bytes:
  "ipv4_octets (push_bit 24 (ucast b0) OR push_bit 16 (ucast b1) OR push_bit 8 (ucast b2) OR ucast b3)
     = (b0, b1, b2, b3)"
  unfolding ipv4_octets_def prod.inject
  by (intro conjI; rule bit_word_eqI; auto simp: bit_simps dest: bit_imp_le_length)

text \<open>
  C38. The original destination is read in network byte order whatever the machine: from the
  bytes of a socket address, the helper returns its four address bytes in order and the port
  whose high byte comes first, on little-endian and big-endian machines alike.
\<close>

theorem original_destination_network_order:
  "original_destination True e (Inr [f0, f1, p0, p1, a, b, c, d, z0, z1, z2, z3, z4, z5, z6, z7])
     = Inr \<lparr>od_ip = (a, b, c, d), od_port = of_nat (256 * unat p0 + unat p1)\<rparr>"
proof -
  have "push_bit 8 (ucast p0) OR ucast p1 = (of_nat (256 * unat p0 + unat p1) :: 16 word)"
  proof -
    have "push_bit 8 (ucast p0) OR ucast p1 = push_bit 8 (ucast p0) + (ucast p1 :: 16 word)"
      by (rule disjunctive_add [symmetric]) (auto simp: bit_simps dest: bit_imp_le_length)
    then show ?thesis by (simp add: push_bit_eq_mult)
  qed
  then show ?thesis
    by (simp add: original_destination_def original_destination_fd_def from_be_load_u16 from_be_load_u32
        octets_of_bytes)
qed

text \<open>
  No descriptor leaks: opening a listener either fails and leaves the open descriptors as
  they were, or succeeds with the one new descriptor; it succeeds exactly when socket, bind,
  listen and the non-blocking switch do, with or without the privilege to set
  \<open>IP_TRANSPARENT\<close>.
\<close>

theorem bind_transparent_no_leak:
  assumes "\<And>fd. sys_socket c = Inr fd \<Longrightarrow> fd \<notin> fds"
  shows "case bind_transparent c fds of
       (Inr fd, t) \<Rightarrow> t = insert fd fds \<and> sys_socket c = Inr fd
         \<and> sys_bind c = None \<and> sys_listen c = None \<and> sys_nonblocking c = None
     | (Inl _, t) \<Rightarrow> t = fds \<and> \<not> ((\<exists>fd. sys_socket c = Inr fd)
         \<and> sys_bind c = None \<and> sys_listen c = None \<and> sys_nonblocking c = None)"
  using assms by (auto simp: bind_transparent_def Let_def split: sum.splits option.splits)

end
