(* ===== verification/Storm.thy ===== *)
theory Storm
  imports Edge_Health Edge_State Rust_Float "HOL-Library.Multiset"
begin

text \<open>
  The load generator of \<open>crates/storm/src/main.rs\<close>: what one client counts as a request and as
  an error, the totals, the latency percentiles, the memory figure and the report. What the
  network does to a client, the elapsed time and the JSON encoder of the report are arguments.
\<close>

section \<open>Memory\<close>

definition rss_line :: "string \<Rightarrow> u64 option" where
  "rss_line l = Option.bind (strip_prefix ''VmRSS:'' l)
     (\<lambda>r. map_option (\<lambda>kb. kb * 1024) (Option.bind (first_word r) parse_u64))"

fun find_map :: "('a \<Rightarrow> 'b option) \<Rightarrow> 'a list \<Rightarrow> 'b option" where
  "find_map f [] = None"
| "find_map f (x # xs) = (case f x of None \<Rightarrow> find_map f xs | Some y \<Rightarrow> Some y)"

definition rss_bytes :: "string option \<Rightarrow> u64" where
  "rss_bytes content = (case Option.bind content (\<lambda>c. find_map rss_line (lines c)) of None \<Rightarrow> 0 | Some n \<Rightarrow> n)"

section \<open>Clients\<close>

text \<open>
  A round: the write fails, or the read of the whole reply (under a timeout) ends after some
  nanoseconds with the reply or with an error, or does not end in time. The code looks only
  at the timeout.
\<close>

datatype read_outcome = ReadOk u128 | ReadErr u128 | ReadTimeout

datatype round_outcome = WriteErr | Wrote read_outcome

fun storm_rounds :: "round_outcome list \<Rightarrow> u128 list \<times> u64" where
  "storm_rounds [] = ([], 0)"
| "storm_rounds (WriteErr # rs) = ([], 1)"
| "storm_rounds (Wrote ReadTimeout # rs) = ([], 1)"
| "storm_rounds (Wrote (ReadOk t) # rs) = (let (ls, e) = storm_rounds rs in (t # ls, e))"
| "storm_rounds (Wrote (ReadErr t) # rs) = (let (ls, e) = storm_rounds rs in (t # ls, e))"

text \<open>A client: \<open>None\<close> if it cannot connect, else the outcomes of its rounds.\<close>

definition storm_client :: "u64 \<Rightarrow> round_outcome list option \<Rightarrow> u128 list \<times> u64" where
  "storm_client rounds c = (case c of None \<Rightarrow> ([], rounds) | Some rs \<Rightarrow> storm_rounds (take (unat rounds) rs))"

text \<open>The latencies in the order the clients are joined, and the shared error counter.\<close>

definition storm_totals :: "u64 \<Rightarrow> round_outcome list option list \<Rightarrow> u128 list \<times> u64" where
  "storm_totals rounds cs =
     (concat (map (\<lambda>c. fst (storm_client rounds c)) cs), sum_list (map (\<lambda>c. snd (storm_client rounds c)) cs))"

section \<open>Percentiles\<close>

text \<open>The rank is \<open>(p * len).ceil() as usize\<close>; the value is in milliseconds.\<close>

definition percentile_rank :: "f64 \<Rightarrow> nat \<Rightarrow> u64" where
  "percentile_rank p n = f64_to_u64 (f64_ceil (f64_mul p (f64_of_nat n)))"

definition percentile :: "u128 list \<Rightarrow> f64 \<Rightarrow> f64" where
  "percentile xs p =
     (if xs = [] then F64 False 0
      else let ys = sort xs;
               idx = min (unat (saturating_sub (percentile_rank p (length xs)) 1)) (length xs - 1)
           in f64_div (f64_of_nat (unat (ys ! idx))) (F64 False 1000000))"

section \<open>Report\<close>

record storm_args =
  sa_clients :: u64
  sa_rounds :: u64
  sa_payload_bytes :: u64
  sa_out :: path

record Results =
  r_clients :: u64
  r_rounds :: u64
  r_payload_bytes :: u64
  r_total_requests :: u64
  r_errors :: u64
  r_elapsed_secs :: f64
  r_connections_per_sec :: f64
  r_throughput_mbps :: f64
  r_latency_ms_p50 :: f64
  r_latency_ms_p95 :: f64
  r_latency_ms_p99 :: f64
  r_rss_bytes :: u64

definition as_secs_f64 :: "duration \<Rightarrow> f64" where
  "as_secs_f64 d = f64_add (f64_of_nat (unat (secs d))) (f64_div (f64_of_nat (unat (nanos d))) (F64 False 1000000000))"

definition storm_results ::
  "storm_args \<Rightarrow> duration \<Rightarrow> string option \<Rightarrow> round_outcome list option list \<Rightarrow> Results" where
  "storm_results g elapsed status cs =
     (let (latencies, errs) = storm_totals (sa_rounds g) cs;
          total = of_nat (length latencies);
          total_bytes = total * sa_payload_bytes g * 2;
          el = f64_max (as_secs_f64 elapsed) (f64_round False (1 / 1000000000))
      in \<lparr>r_clients = sa_clients g, r_rounds = sa_rounds g, r_payload_bytes = sa_payload_bytes g,
          r_total_requests = total, r_errors = errs, r_elapsed_secs = as_secs_f64 elapsed,
          r_connections_per_sec = f64_div (f64_of_nat (unat (sa_clients g))) el,
          r_throughput_mbps =
            f64_div (f64_div (f64_mul (f64_of_nat (unat total_bytes)) (F64 False 8)) el) (F64 False 1000000),
          r_latency_ms_p50 = percentile latencies (f64_round False (50 / 100)),
          r_latency_ms_p95 = percentile latencies (f64_round False (95 / 100)),
          r_latency_ms_p99 = percentile latencies (f64_round False (99 / 100)),
          r_rss_bytes = rss_bytes status\<rparr>)"

text \<open>
  The end of \<open>main\<close>: the results are encoded and written to the output file. A client task that
  panicked (\<open>None\<close>) ends the run with an error before anything is written.
\<close>

datatype storm_error = ClientTask | ReportJson | ReportIo io_error

definition storm_main ::
  "Results json \<Rightarrow> storm_args \<Rightarrow> duration \<Rightarrow> string option \<Rightarrow> round_outcome list option option list
     \<Rightarrow> ('z fs_scheme, storm_error, Results) act" where
  "storm_main js g elapsed status cs =
     (if None \<in> set cs then act_err ClientTask
      else let r = storm_results g elapsed status (map the cs)
           in act_try (act_of_option ReportJson (encode js r)) (\<lambda>b.
              act_try (act_map_err ReportIo (fs_write (sa_out g) b)) (\<lambda>_. act_ok r)))"

section \<open>Properties\<close>

lemma filter_length_sorted:
  assumes "sorted ys" and "k < length ys"
  shows "k + 1 \<le> length (filter (\<lambda>y. y \<le> ys ! k) ys)" and "length (filter (\<lambda>y. y < ys ! k) ys) \<le> k"
proof -
  have t: "\<forall>y \<in> set (take (k + 1) ys). y \<le> ys ! k"
    using assms by (auto simp: in_set_conv_nth sorted_nth_mono)
  have d: "\<forall>y \<in> set (drop k ys). \<not> y < ys ! k"
    using assms by (auto simp: in_set_conv_nth not_less intro!: sorted_nth_mono)
  have "length (filter (\<lambda>y. y \<le> ys ! k) ys) \<ge> length (filter (\<lambda>y. y \<le> ys ! k) (take (k + 1) ys))"
    by (metis append_take_drop_id filter_append length_append le_add1)
  then show "k + 1 \<le> length (filter (\<lambda>y. y \<le> ys ! k) ys)"
    using t assms(2) by (simp add: filter_id_conv [THEN iffD2])
  have "filter (\<lambda>y. y < ys ! k) ys = filter (\<lambda>y. y < ys ! k) (take k ys) @ filter (\<lambda>y. y < ys ! k) (drop k ys)"
    by (metis append_take_drop_id filter_append)
  then have "filter (\<lambda>y. y < ys ! k) ys = filter (\<lambda>y. y < ys ! k) (take k ys)"
    using d by (simp add: filter_False)
  then show "length (filter (\<lambda>y. y < ys ! k) ys) \<le> k"
    by (metis length_filter_le length_take min.bounded_iff)
qed

lemma length_filter_sort: "length (filter P (sort xs)) = length (filter P xs)"
  by (metis mset_filter mset_sort size_mset)

lemma percentile_rank_bounds:
  assumes "1 / 100 \<le> q" and "q \<le> 1" and "1 \<le> n" and "n \<le> 2 ^ 32"
  shows "1 \<le> unat (percentile_rank (F64 False q) n)" "unat (percentile_rank (F64 False q) n) \<le> n"
    "\<bar>of_nat (unat (percentile_rank (F64 False q) n)) - q * of_nat n\<bar> < 1 + 1 / 2 ^ 20"
proof -
  let ?x = "q * of_nat n" let ?v = "nearest ?x"
  have "of_nat n \<le> (of_nat (2 ^ 32) :: rat)" using assms(4) by (simp only: of_nat_le_iff)
  then have n: "1 \<le> (of_nat n :: rat)" "of_nat n \<le> (2 ^ 32 :: rat)" using assms(3) by simp_all
  have x: "1 / 100 \<le> ?x" "?x \<le> of_nat n"
    using mult_mono [OF assms(1) n(1)] mult_right_mono [OF assms(2), of "of_nat n"] assms(1) by simp_all
  have x0: "0 < ?x" by (rule less_le_trans [OF _ x(1)]) simp
  have x32: "?x \<le> 2 ^ 32" using x(2) n(2) by (rule order_trans)
  then have x52: "?x \<le> 2 ^ 52" by (rule order_trans) simp
  have "(2 :: rat) powi 32 = 2 ^ 32" by simp
  then have "f64_ulp ?x \<le> 2 powi (32 - 52)" using x0 x32 by (intro f64_ulp_le) simp_all
  then have u: "f64_ulp ?x / 2 \<le> 1 / 2 ^ 21" by simp
  have err: "\<bar>?v - ?x\<bar> \<le> 1 / 2 ^ 21" using nearest_error [of ?x] u by (rule order_trans)
  have "1 / 100 - 1 / 2 ^ 21 \<le> ?v" using err x(1) by linarith
  then have "0 < ?v" by (rule less_le_trans [rotated]) simp
  then have v: "0 < ?v" "?v \<le> of_nat n" using nearest_le_int [OF x0 x52, of "int n"] x(2) by simp_all
  define k where "k = \<lceil>?v\<rceil>"
  have k: "1 \<le> k" "k \<le> int n" "?v \<le> of_int k" "of_int k < ?v + 1"
    using v ceiling_correct [of ?v] by (simp_all add: k_def one_le_ceiling ceiling_le_iff)
  have "f64_mul (F64 False q) (f64_of_nat n) = F64 False ?v"
    using assms(4) x0 x52 by (simp add: f64_of_nat_exact f64_round_finite)
  moreover have "(of_int k :: rat) \<le> of_int (int n)" using k(2) by (simp only: of_int_le_iff)
  then have "(of_int k :: rat) < 2 ^ 64" using n(2) by simp
  ultimately have r: "percentile_rank (F64 False q) n = of_int k" by (simp add: percentile_rank_def k_def)
  have "int n < 2 ^ 64" using assms(4) by simp
  then have "uint (of_int k :: u64) = k" using k(1,2) by (simp add: uint_word_of_int_eq take_bit_int_eq_self)
  then have uk: "int (unat (percentile_rank (F64 False q) n)) = k" unfolding r by (simp only: uint_nat)
  then show "1 \<le> unat (percentile_rank (F64 False q) n)" "unat (percentile_rank (F64 False q) n) \<le> n"
    using k(1,2) by linarith+
  have "(of_nat (unat (percentile_rank (F64 False q) n)) :: rat) = of_int k"
    using uk by (metis of_int_of_nat_eq)
  moreover have "?v \<le> of_int k" "of_int k < ?v + 1" using k by simp_all
  moreover have "(1 :: rat) / 2 ^ 21 < 1 / 2 ^ 20" by simp
  ultimately show "\<bar>of_nat (unat (percentile_rank (F64 False q) n)) - ?x\<bar> < 1 + 1 / 2 ^ 20"
    using err by linarith
qed

text \<open>
  A reported percentile is an order statistic of the sample: for \<open>p\<close> between one hundredth
  and one and up to \<open>2 ^ 32\<close> samples, the rank the floating-point arithmetic gives is within
  the sample and less than \<open>1 + 2 ^ -20\<close> away from \<open>p\<close> times its size, and the reported
  figure is that of a sample with at least that many samples no larger and fewer smaller.
\<close>

theorem percentile_order_statistic:
  assumes "xs \<noteq> []" and "length xs \<le> 2 ^ 32" and "1 / 100 \<le> q" and "q \<le> 1"
    and "r = unat (percentile_rank (F64 False q) (length xs))"
  shows "\<bar>of_nat r - q * of_nat (length xs)\<bar> < 1 + 1 / 2 ^ 20 \<and> 1 \<le> r \<and> r \<le> length xs \<and>
     (\<exists>v \<in> set xs. percentile xs (F64 False q) = f64_div (f64_of_nat (unat v)) (F64 False 1000000)
        \<and> r \<le> length (filter (\<lambda>x. x \<le> v) xs) \<and> length (filter (\<lambda>x. x < v) xs) < r)"
proof -
  have "1 \<le> length xs" using assms(1) by (cases xs) simp_all
  note b = percentile_rank_bounds [OF assms(3,4) this assms(2), folded assms(5)]
  let ?k = "r - 1"
  have k: "?k < length (sort xs)" "min ?k (length xs - 1) = ?k" using b(1,2) by auto
  have "sort xs ! ?k \<in> set xs" using nth_mem [OF k(1)] by simp
  moreover have "percentile xs (F64 False q) = f64_div (f64_of_nat (unat (sort xs ! ?k))) (F64 False 1000000)"
    using assms(1,5) k(2) by (simp add: percentile_def unat_saturating_sub)
  ultimately show ?thesis
    using filter_length_sorted [OF sorted_sort k(1)] b by (force simp: length_filter_sort)
qed

text \<open>
  Rounds add up: a client that connects and whose replies arrive in time counts every round
  as a request and no error, whether the replies came or the reads failed. So a connection
  the proxy refuses (its reads end in an error at once) is reported as successful requests.
\<close>

theorem refused_client_counts_as_served:
  assumes "\<And>r. r \<in> set rs \<Longrightarrow> \<exists>t. r = Wrote (ReadErr t) \<or> r = Wrote (ReadOk t)" and "length rs = unat n"
  shows "length (fst (storm_client n (Some rs))) = unat n \<and> snd (storm_client n (Some rs)) = 0"
proof -
  have "length (fst (storm_rounds rs)) = length rs \<and> snd (storm_rounds rs) = 0"
    using assms(1)
  proof (induction rs)
    case (Cons r rs)
    then have "length (fst (storm_rounds rs)) = length rs \<and> snd (storm_rounds rs) = 0" by simp
    moreover obtain t where "r = Wrote (ReadErr t) \<or> r = Wrote (ReadOk t)" using Cons.prems by force
    ultimately show ?case by (auto simp: Let_def split: prod.splits)
  qed simp
  then show ?thesis using assms(2) by (simp add: storm_client_def)
qed

end
