(* ===== verification/Fleet_Witnesses.thy ===== *)
theory Fleet_Witnesses
  imports Sample_Fleet Edge_Main Proxy_Clock Edge_Probes Control_Main Registry_Concurrent Rollout Transparent Storm
begin

text \<open>
  Concrete instances of the properties with hypotheses on the control plane, the agents, the
  dataplane and the health supervisor.
\<close>

section \<open>Registry\<close>

definition ex_reg_ops :: "(reg_op \<times> io_outcome list) list" where
  "ex_reg_ops = [(Register 10 ''edge-07'' ''hw-07'' ''0.1.0'' ''0'' '''', []), (SetPolicy ex_policy_42, []),
     (Heartbeat 20 (heartbeat_of_usage ''edge-07'' ''42'' '''' 1 (Some ex_usage) 3), []),
     (SetDesiredSoftware ''2.0.0'', [])]"

lemma ex_reg_ops_ok: "list_all (\<lambda>x. finite_op x \<and> snd x = []) ex_reg_ops" "list_all finite_op ex_reg_ops"
  by (simp_all add: ex_reg_ops_def finite_op_def heartbeat_of_usage_def ex_usage_def)

lemma registry_restart_keeps_fleet_witness:
  "\<exists>j. fst (Registry_load sample_reg_env ex_reg_path
       ((fold (reg_step sample_reg_env) ex_reg_ops (reg_boot ex_reg_path Map.empty))\<lparr>faults := []\<rparr>)) = Inr j
     \<and> same_fleet j (inner (fold (reg_step sample_reg_env) ex_reg_ops (reg_boot ex_reg_path Map.empty)))"
  using registry_restart_keeps_fleet [OF sample_reg_env_ok ex_paths(1) _ ex_reg_ops_ok(1) refl, of Map.empty]
  by blast

lemma registry_crash_consistent_witness:
  "\<exists>j. \<exists>t \<in> set (reg_history sample_reg_env ((SetPolicy ex_policy_42, [IoErr (Some 7)]) # ex_reg_ops)
         (reg_boot ex_reg_path Map.empty)).
     fst (Registry_load sample_reg_env ex_reg_path ((fold (reg_step sample_reg_env)
       ((SetPolicy ex_policy_42, [IoErr (Some 7)]) # ex_reg_ops) (reg_boot ex_reg_path Map.empty))\<lparr>faults := []\<rparr>)) = Inr j
     \<and> same_fleet j (inner t)"
proof -
  have "list_all finite_op ((SetPolicy ex_policy_42, [IoErr (Some 7)]) # ex_reg_ops)"
    using ex_reg_ops_ok(2) by (simp add: finite_op_def)
  from registry_crash_consistent [OF sample_reg_env_ok ex_paths(1) _ this, of Map.empty] show ?thesis by blast
qed

lemma registry_seq_monotone_witness:
  "policy_seq (inner (reg_boot ex_reg_path Map.empty))
     < policy_seq (inner (fold (reg_step sample_reg_env) [(SetPolicy ex_policy_42, [])] (reg_boot ex_reg_path Map.empty)))"
proof -
  let ?s = "reg_boot ex_reg_path Map.empty"
  have "unat (policy_seq (inner ?s)) + length [(SetPolicy ex_policy_42, [] :: io_outcome list)] < 2 ^ 64"
    by (simp add: reg_boot_def default_inner_def)
  from registry_seq_monotone [OF this, of sample_reg_env]
  show ?thesis
    by (simp add: desired_content_def reg_step_def set_policy_def reg_boot_def default_inner_def Let_def)
qed

text \<open>Two pushes and a read, interleaved, with no snapshot path.\<close>

definition ex_conc_events :: "conc_event list" where
  "ex_conc_events = [Spawn (Call (SetPolicy ex_policy_42)), Spawn CurrentPolicy, Move 0 (Works 0), Move 1 (Works 0), Move 0 (Works 0)]"

lemma registry_linearizable_witness:
  "\<exists>w. conc_run sample_reg_env (conc_start default_inner \<lparr>names = Map.empty, inodes = []\<rparr>) ex_conc_events w
     \<and> calls w ! 1 = Replied (PolicyIs (Some ex_policy_42, 1)) \<and> lock_order ex_conc_events = [0, 1]"
proof -
  let ?d = "\<lparr>names = Map.empty, inodes = []\<rparr>" and ?s = "\<lparr>files = Map.empty, faults = [], inner = default_inner\<rparr>"
  obtain w where w: "conc_run sample_reg_env (conc_start (inner ?s) ?d) ex_conc_events w" "length (calls w) = 2"
      "calls w ! 1 = Replied (PolicyIs (Some ex_policy_42, 1))"
    by (simp add: conc_run_exec ex_conc_events_def conc_start_def default_inner_def)
  have "1 < length (calls w)" using w(2) by simp
  from registry_linearizable [OF w(1), THEN conjunct2, THEN conjunct1, rule_format, OF this w(3)]
  have "1 \<in> set (lock_order ex_conc_events)" by (metis nth_mem)
  then have "lock_order ex_conc_events = [0, 1]" by (simp add: ex_conc_events_def lock_order_def)
  with w show ?thesis by auto
qed

text \<open>A push whose snapshot is still being written when the process dies.\<close>

definition ex_save_events :: "conc_event list" where
  "ex_save_events = [Spawn (Call (SetPolicy ex_policy_42)), Move 0 (Works 0), Move 0 (Works 0), Move 0 (Works 0)]"

lemma ex_save_run:
  "\<exists>w. calm_run sample_reg_env (conc_start (default_inner\<lparr>persist_path := Some ex_reg_path\<rparr>) \<lparr>names = Map.empty, inodes = []\<rparr>)
     ex_save_events w"
proof -
  let ?i = "default_inner\<lparr>persist_path := Some ex_reg_path\<rparr>" and ?d = "\<lparr>names = Map.empty, inodes = []\<rparr>"
  let ?j = "?i\<lparr>policy_seq := policy_seq ?i + 1, in_policy := Some ex_policy_42\<rparr>"
  obtain b where b: "encode (snap_json sample_reg_env) (snapshot_locked sample_reg_env ?j) = Some b"
    using sample_reg_env_ok unfolding reg_env_ok_def snap_json_ok_def by blast
  note step = calm_snoc [where env = sample_reg_env and w = "conc_start ?i ?d"]
  have "calm_run sample_reg_env (conc_start ?i ?d) [] (conc_start ?i ?d)" by (rule calm_Nil)
  from step [OF this, of "Spawn (Call (SetPolicy ex_policy_42))" "\<lparr>shared = ?i, cdisk = ?d, calls = [Waiting (Call (SetPolicy ex_policy_42))]\<rparr>"]
  have "calm_run sample_reg_env (conc_start ?i ?d) [Spawn (Call (SetPolicy ex_policy_42))]
      \<lparr>shared = ?i, cdisk = ?d, calls = [Waiting (Call (SetPolicy ex_policy_42))]\<rparr>"
    by (simp add: conc_start_def calm_def)
  from step [OF this, of "Move 0 (Works 0)" "\<lparr>shared = ?j, cdisk = ?d, calls = [Persisting (Sequence 1)]\<rparr>"]
  have "calm_run sample_reg_env (conc_start ?i ?d) [Spawn (Call (SetPolicy ex_policy_42)), Move 0 (Works 0)]
      \<lparr>shared = ?j, cdisk = ?d, calls = [Persisting (Sequence 1)]\<rparr>"
    by (simp add: calm_def default_inner_def)
  from step [OF this, of "Move 0 (Works 0)" "\<lparr>shared = ?j, cdisk = ?d, calls = [Creating ex_reg_path b (Sequence 1)]\<rparr>"] b
  have "calm_run sample_reg_env (conc_start ?i ?d) [Spawn (Call (SetPolicy ex_policy_42)), Move 0 (Works 0), Move 0 (Works 0)]
      \<lparr>shared = ?j, cdisk = ?d, calls = [Creating ex_reg_path b (Sequence 1)]\<rparr>"
    by (simp add: calm_def)
  from step [OF this, of "Move 0 (Works 0)"] show ?thesis
    by (auto simp: calm_def create_file_def ex_save_events_def)
qed

lemma serialized_saves_recoverable_witness:
  "\<exists>w j. calm_run sample_reg_env (conc_start (default_inner\<lparr>persist_path := Some ex_reg_path\<rparr>) \<lparr>names = Map.empty, inodes = []\<rparr>)
       ex_save_events w
     \<and> fst (Registry_load sample_reg_env ex_reg_path \<lparr>files = disk_view (cdisk w), faults = []\<rparr>) = Inr j"
proof -
  let ?i = "default_inner\<lparr>persist_path := Some ex_reg_path\<rparr>" and ?d = "\<lparr>names = Map.empty, inodes = []\<rparr>"
  let ?s = "\<lparr>files = Map.empty, faults = [], inner = ?i\<rparr>"
  obtain w where w: "calm_run sample_reg_env (conc_start (inner ?s) ?d) ex_save_events w" using ex_save_run by auto
  have s: "reg_inv ex_reg_path ?s" by (simp add: reg_inv_def inner_inv_def finite_cpu_def default_inner_def)
  have d: "disk_wf ?d" by (simp add: disk_wf_def)
  have "disk_view ?d = Map.empty" by (simp add: disk_view_def fun_eq_iff)
  then have st: "stored sample_reg_env ex_reg_path (disk_view ?d) (inner ?s)" by (simp add: stored_def)
  have fin: "list_all finite_call (spawned ex_save_events)"
    by (simp add: ex_save_events_def spawned_def finite_call_def finite_op_def)
  from serialized_saves_recoverable [OF sample_reg_env_ok ex_paths(1) s d st w fin] w show ?thesis by auto
qed

definition ex_control_args :: control_args where
  "ex_control_args = \<lparr>ca_grpc_addr = SocketV4 (0, 0, 0, 0) 50051, ca_http_addr = SocketV4 (0, 0, 0, 0) 8080,
     ca_tls_cert = Some [''server.crt''], ca_tls_key = Some [''server.key''], ca_tls_client_ca = Some [''ca.crt''],
     ca_persist_path = Some ex_reg_path\<rparr>"

definition ex_tls_disk :: fs where
  "ex_tls_disk = \<lparr>files = [[''server.crt''] \<mapsto> [1], [''server.key''] \<mapsto> [2], [''ca.crt''] \<mapsto> [3]], faults = []\<rparr>"

lemma control_plane_starts_witness:
  "\<exists>c. fst (control_main sample_reg_env True (\<lambda>_. Inr ()) ex_control_args ex_tls_disk) = Inr c
     \<and> cp_grpc c = Inr (ServerMtls [1] [2] [3]) \<and> devices (cp_inner c) = []"
proof -
  have st: "stored sample_reg_env ex_reg_path (files ex_tls_disk) (default_inner\<lparr>persist_path := Some ex_reg_path\<rparr>)"
    by (simp add: stored_def ex_tls_disk_def ex_reg_path_def)
  obtain c where c: "fst (control_main sample_reg_env True (\<lambda>_. Inr ()) ex_control_args ex_tls_disk) = Inr c"
    using control_plane_starts [OF sample_reg_env_ok _ st, of ex_control_args "\<lambda>_. Inr ()" True]
    by (auto simp: ex_control_args_def ex_tls_disk_def)
  have "fst (control_main sample_reg_env True (\<lambda>_. Inr ()) ex_control_args ex_tls_disk)
      = Inr \<lparr>cp_inner = default_inner\<lparr>persist_path := Some ex_reg_path\<rparr>, cp_grpc = Inr (ServerMtls [1] [2] [3])\<rparr>"
    by (simp add: control_main_def grpc_task_def server_tls_def control_boot_def Registry_load_def act_defs fs_defs
        ex_control_args_def ex_tls_disk_def ex_reg_path_def)
  with c show ?thesis by (auto simp: default_inner_def)
qed

section \<open>Agent and fleet\<close>

lemma cut_unanswered: "\<not> answered (t_net cut_turn) (agent_config ex_args) (s :: 'z fs_scheme)"
proof
  assume "answered (t_net cut_turn) (agent_config ex_args) s"
  then obtain l t where "connect (t_net cut_turn) (agent_config ex_args) s = (Inr l, t)"
    unfolding answered_def by (metis prod.collapse)
  then show False
    by (auto simp: connect_def agent_config_def ex_args_def cut_turn_def ex_turn_def ex_net_def
        act_try_Inr_iff act_err_def)
qed

lemma partition_keeps_last_good_witness:
  "store (fst (fst (fold (run_turn sample_json sample_reg_env) [cut_turn, cut_turn]
       ((ex_agent, reg_boot ex_reg_path Map.empty), run_backoff)))) = store ex_agent
   \<and> m_reconnect_total (fst (fst (fold (run_turn sample_json sample_reg_env) [cut_turn, cut_turn]
       ((ex_agent, reg_boot ex_reg_path Map.empty), run_backoff)))) = 2"
proof -
  obtain a' r' b' where run: "fold (run_turn sample_json sample_reg_env) [cut_turn, cut_turn]
      ((ex_agent, reg_boot ex_reg_path Map.empty), run_backoff) = ((a', r'), b')"
    by (metis prod.collapse)
  have "\<forall>t \<in> set [cut_turn, cut_turn]. \<not> answered (t_net t) (config ex_agent) (ex_agent\<lparr>faults := t_faults t\<rparr>)"
    using cut_unanswered by (simp add: ex_agent_sel)
  from partition_keeps_last_good [OF _ this run] show ?thesis
    unfolding run by (simp add: ex_agent_def)
qed

definition ex_history :: "fleet_event list" where
  "ex_history = [Operate (SetPolicy ex_policy_42), Poll ''a'' cut_turn, WatchTurn ''b'' ex_turn,
     ControlRestart, Reboot ''a'' [IoErr None]]"

lemma ex_history_ok: "list_all event_ok ex_history" "length ex_history = 5"
  by (simp_all add: ex_history_def finite_op_def cut_turn_def ex_turn_def ex_usage_def)

lemma fleet_never_diverges_witness:
  "applied_seq (reported (store (fst (devs (fold (fleet_step sample_json sample_reg_env ex_reg_path)
       ex_history ex_fleet) ''b''))))
   \<le> policy_seq (inner (reg (fold (fleet_step sample_json sample_reg_env ex_reg_path) ex_history ex_fleet)))"
proof -
  have "length ex_history < 2 ^ 64" by (simp add: ex_history_ok)
  from fleet_never_diverges [OF sample_json_ok sample_reg_env_ok ex_paths(1) ex_fleet_start ex_history_ok(1)
      this refl refl disjI1 [OF refl]]
  show ?thesis by blast
qed

lemma ex_push:
  "current_policy (reg (fleet_step sample_json sample_reg_env ex_reg_path (Operate (SetPolicy ex_policy_42)) ex_fleet))
     = (Some ex_policy_42, 1)"
  by (simp add: ex_fleet_def reg_step_def set_policy_def current_policy_def reg_boot_def default_inner_def Let_def)

lemma fleet_converges_witness:
  "in_sync ex_policy_42 (fold (fleet_step sample_json sample_reg_env ex_reg_path)
       (polls (\<lambda>_. ex_turn) ([''a'', ''b''] @ [''a'', ''b'']))
       (fold (fleet_step sample_json sample_reg_env ex_reg_path) [Operate (SetPolicy ex_policy_42)] ex_fleet)) ''b''"
proof -
  have ev: "list_all event_ok [Operate (SetPolicy ex_policy_42)]" by (simp add: finite_op_def)
  have len: "length [Operate (SetPolicy ex_policy_42)] + 1 < 2 ^ 64" by simp
  have cp: "current_policy (reg (fold (fleet_step sample_json sample_reg_env ex_reg_path)
      [Operate (SetPolicy ex_policy_42)] ex_fleet)) = (Some ex_policy_42, 1)"
    using ex_push by simp
  have good: "\<forall>k \<in> set [''a'', ''b'']. good_turn ((\<lambda>_. ex_turn) k) (config (fst (devs ex_fleet k)))
      \<and> (\<forall>q \<in> tls_paths (config (fst (devs ex_fleet k))). files (fst (devs ex_fleet k)) q \<noteq> None)"
    using ex_turn_good ex_tls_present by (simp add: ex_fleet_def ex_agent_sel)
  show ?thesis
    using fleet_converges [OF sample_json_ok sample_json_total sample_reg_env_ok ex_paths(1) ex_fleet_start
        ev len refl cp good refl] by simp
qed

lemma ex_device_ok: "device_ok (Some ex_policy_42, 1) (reported (store ex_agent))"
  by (simp add: device_ok_def ex_agent_sel fresh_store_def default_reported_def)

lemma watch_exchange_converges_witness:
  "policy_version (reported (store (fst (fst (watch_turn sample_json ex_turn
     ((ex_agent, (reg_boot ex_reg_path Map.empty)\<lparr>inner := default_inner\<lparr>in_policy := Some ex_policy_42, policy_seq := 1\<rparr>\<rparr>),
      run_backoff)))))) = 42"
proof -
  let ?r = "(reg_boot ex_reg_path Map.empty)\<lparr>inner := default_inner\<lparr>in_policy := Some ex_policy_42, policy_seq := 1\<rparr>\<rparr>"
  obtain a' r' b' where run: "watch_turn sample_json ex_turn ((ex_agent, ?r), run_backoff) = ((a', r'), b')"
    by (metis prod.collapse)
  have f: "\<forall>q \<in> tls_paths (agent_config ex_args). files (ex_agent\<lparr>faults := []\<rparr>) q \<noteq> None"
    using ex_tls_present by (simp add: ex_agent_sel)
  obtain l where c: "connect (t_net ex_turn) (agent_config ex_args) (ex_agent\<lparr>faults := []\<rparr>) = (Inr l, ex_agent\<lparr>faults := []\<rparr>)"
    using connect_good [OF ex_turn_good _ f] by auto
  have "policy_version (reported_of a') = version ex_policy_42 \<and> current_policy r' = (Some ex_policy_42, 1)"
    by (rule watch_exchange_converges [OF sample_json_total _ _ ex_device_ok _ _ _ _ run,
          where l = l and ?a1.0 = "ex_agent\<lparr>faults := []\<rparr>"])
      (use c in \<open>simp_all add: current_policy_def ex_agent_sel ex_turn_def ex_net_def\<close>)
  then show ?thesis unfolding run by (simp add: ex_policy_42_def)
qed

section \<open>Start-up\<close>

lemma ex_args_sel:
  "arg_state_path ex_args = [''var'', ''state.json'']" "arg_upstream ex_args = ''10.0.0.1:80''"
  "arg_listen ex_args = ''0.0.0.0:80''"
  by (simp_all add: ex_args_def)

lemma reboot_serves_synced_policy_witness:
  "\<exists>a'. upstream_addr (projr (fst (agent_boot sample_json Some ex_args (a'\<lparr>faults := []\<rparr>)))) = ''10.0.0.2:80''
     \<and> (\<exists>r' b'. run_turn sample_json sample_reg_env ex_turn ((ex_agent,
           (reg_boot ex_reg_path Map.empty)\<lparr>inner := default_inner\<lparr>in_policy := Some ex_policy_42, policy_seq := 1\<rparr>\<rparr>),
           run_backoff) = ((a', r'), b'))"
proof -
  let ?r = "(reg_boot ex_reg_path Map.empty)\<lparr>inner := default_inner\<lparr>in_policy := Some ex_policy_42, policy_seq := 1\<rparr>\<rparr>"
  obtain a' r' b' where run: "run_turn sample_json sample_reg_env ex_turn ((ex_agent, ?r), run_backoff) = ((a', r'), b')"
    by (metis prod.collapse)
  have one: "(0 :: u64) < 1" by code_simp
  have "fst (agent_boot sample_json Some ex_args (a'\<lparr>faults := []\<rparr>)) = Inr \<lparr>listen_addr = arg_listen ex_args,
     upstream_addr = default_upstream ex_policy_42,
     pc_max_connections = ucast (max_connections ex_policy_42), connect_timeout_secs = 5,
     pc_idle_timeout_secs = idle_timeout_secs ex_policy_42, transparent = False\<rparr>"
    using reboot_serves_synced_policy [OF sample_json_ok sample_json_total _ _ _ _ _ _ _ run, where sq = 1
        and x = ex_policy_42 and g = ex_args and resolve = Some] ex_turn_good ex_tls_present
    by (simp add: ex_agent_sel current_policy_def fresh_store_def default_reported_def ex_policy_42_def ex_args_sel one)
  with run show ?thesis by (intro exI [of _ a']) (auto simp: ex_policy_42_def)
qed

lemma unsynced_boot_uses_static_witness:
  "\<exists>a'. fst (agent_boot sample_json Some ex_args (a'\<lparr>faults := []\<rparr>)) = Inr \<lparr>listen_addr = ''0.0.0.0:80'',
     upstream_addr = ''10.0.0.1:80'', pc_max_connections = 512, connect_timeout_secs = 5,
     pc_idle_timeout_secs = 300, transparent = False\<rparr>
   \<and> a' = fst (fst (fold (run_turn sample_json sample_reg_env) [cut_turn]
       ((ex_agent, reg_boot ex_reg_path Map.empty), run_backoff)))"
proof -
  obtain a' r' b' where run: "fold (run_turn sample_json sample_reg_env) [cut_turn]
      ((ex_agent, reg_boot ex_reg_path Map.empty), run_backoff) = ((a', r'), b')"
    by (metis prod.collapse)
  have "fst (agent_boot sample_json Some ex_args (a'\<lparr>faults := []\<rparr>)) = Inr \<lparr>listen_addr = arg_listen ex_args,
     upstream_addr = arg_upstream ex_args, pc_max_connections = 512, connect_timeout_secs = 5,
     pc_idle_timeout_secs = 300, transparent = False\<rparr>"
    by (rule unsynced_boot_uses_static [OF _ _ _ _ _ run])
      (use cut_unanswered in \<open>simp_all add: ex_agent_sel ex_args_sel ex_tls_files_def\<close>)
  with run show ?thesis by (simp add: ex_args_sel)
qed

section \<open>Dataplane\<close>

definition ex_cfg :: "string ProxyConfig" where
  "ex_cfg = \<lparr>listen_addr = ''0.0.0.0:80'', upstream_addr = ''10.0.0.1:80'', pc_max_connections = 1,
     connect_timeout_secs = 5, pc_idle_timeout_secs = 300, transparent = False\<rparr>"

definition ex_server :: "nat server" where
  "ex_server = \<lparr>counters = default_counters, sem = 1\<rparr>"

text \<open>One connection is admitted and relaying, a second one is refused, then shutdown.\<close>

definition ex_admit :: "proxy_event list" where
  "ex_admit = [Accept, Task 0 Auto, Task 0 Auto, Task 0 Auto, Task 0 (ForConnect ConnectOk), Accept]"

definition ex_proxy :: "nat proxy" where
  "ex_proxy = \<lparr>srv = \<lparr>counters = default_counters\<lparr>c_total := 1, c_active := 1\<rparr>, sem = 0\<rparr>,
     tasks = [Relaying, TryAcquire], listening = True\<rparr>"

definition ex_finish :: "proxy_event list" where
  "ex_finish = [Shutdown, Task 1 Auto, Task 1 Auto, Task 1 Auto, Task 0 (ForRelay (CopyOk 5 7)),
     Task 0 Auto, Task 0 Auto, Task 0 Auto, Task 0 Auto]"

definition ex_done :: "nat proxy" where
  "ex_done = \<lparr>srv = \<lparr>counters = \<lparr>c_total = 1, c_active = 0, c_refused_over_limit = 1, c_errors = 1,
     c_bytes_in = 5, c_bytes_out = 7\<rparr>, sem = 1\<rparr>, tasks = [Finished (Relayed 5 7), Finished Refused],
     listening = False\<rparr>"

lemma ex_server_new: "ProxyServer_new counting_semaphore ex_cfg = Some ex_server"
  by (simp add: ProxyServer_new_def ex_cfg_def counting_semaphore_def ex_server_def)

lemmas ex_proxy_simps = fetch_add_def relay_result_def counting_semaphore_def default_counters_def

lemma ex_admit_run: "proxy_run counting_semaphore (proxy_start ex_server) ex_admit ex_proxy"
  unfolding ex_admit_def
  by (rule run_Cons, simp add: proxy_start_def ex_server_def ex_proxy_simps)+
    (simp add: ex_proxy_def ex_proxy_simps run_Nil)

lemma ex_finish_run: "proxy_run counting_semaphore ex_proxy ex_finish ex_done"
  unfolding ex_finish_def
  by (rule run_Cons, simp add: ex_proxy_def ex_proxy_simps)+
    (simp add: ex_done_def run_Nil)

lemma proxy_admission_bound_witness: "unat (c_active (counters (srv ex_proxy))) = 1 \<and> 1 \<le> capacity ex_cfg"
  using proxy_admission_bound [OF counting_semaphore_ok ex_server_new ex_admit_run]
  by (simp add: ex_proxy_def pc_defs)

lemma proxy_refuses_iff_full_witness:
  "\<exists>v. proxy_exec counting_semaphore (Task 1 Auto) ex_proxy = Some v \<and> tasks v ! 1 = IncRefused"
proof -
  have "1 < length (tasks ex_proxy)" "tasks ex_proxy ! 1 = TryAcquire" by (simp_all add: ex_proxy_def)
  moreover have "length (filter holds_permit (tasks ex_proxy)) = capacity ex_cfg"
    by (simp add: ex_proxy_def pc_defs capacity_def ex_cfg_def)
  ultimately show ?thesis
    using proxy_refuses_iff_full [OF counting_semaphore_ok ex_server_new ex_admit_run, of 1] by metis
qed

lemma proxy_books_balance_witness:
  "c_bytes_in (counters (srv ex_done)) = 5 \<and> c_errors (counters (srv ex_done)) = 1
   \<and> (id :: nat \<Rightarrow> nat) (sem (srv ex_done)) = capacity ex_cfg"
proof -
  have "list_all finished (tasks ex_done)" by (simp add: ex_done_def finished_def)
  from proxy_books_balance [OF counting_semaphore_ok ex_server_new run_append [OF ex_admit_run ex_finish_run] this]
  show ?thesis by (simp add: ex_done_def)
qed

text \<open>A connection whose peers fall silent: it ends by its timeout and gives its permit back.\<close>

lemma proxy_drains_witness:
  "\<exists>w u. exec_all (timed_exec counting_semaphore 1000 ex_cfg)
        [Do Accept, Do (Task 0 Auto), Do (Task 0 Auto), Do (Task 0 Auto), Do (Task 0 (ForConnect ConnectOk)), Do Shutdown]
        (timed_start ex_server) = Some w
     \<and> exec_all (timed_exec counting_semaphore 1000 ex_cfg)
        [Pass 300000000000, Do (Task 0 (ForRelay RelayTimeout)), Do (Task 0 Auto), Do (Task 0 Auto), Pass 6000000000] w = Some u
     \<and> list_all finished (tasks (server_at u)) \<and> c_active (counters (srv (server_at u))) = 0
     \<and> (id :: nat \<Rightarrow> nat) (sem (srv (server_at u))) = capacity ex_cfg"
proof -
  let ?es = "[Do Accept, Do (Task 0 Auto), Do (Task 0 Auto), Do (Task 0 Auto), Do (Task 0 (ForConnect ConnectOk)), Do Shutdown]"
  let ?fs = "[Pass 300000000000, Do (Task 0 (ForRelay RelayTimeout)), Do (Task 0 Auto), Do (Task 0 Auto), Pass 6000000000]"
  define w :: "nat timed" where "w = \<lparr>clock = 0, server_at = \<lparr>srv = \<lparr>counters = default_counters\<lparr>c_total := 1, c_active := 1\<rparr>,
      sem = 0\<rparr>, tasks = [Relaying], listening = False\<rparr>, since = [0]\<rparr>"
  have nanos: "as_nanos (connect_timeout ex_cfg) = 5000000000" "as_nanos (idle_timeout ex_cfg) = 300000000000"
    by (simp_all add: connect_timeout_def idle_timeout_def ex_cfg_def as_nanos_def from_secs_def)
  have w: "exec_all (timed_exec counting_semaphore 1000 ex_cfg) ?es (timed_start ex_server) = Some w"
    by (simp add: w_def timed_start_def proxy_start_def ex_server_def ex_proxy_simps timer_fires_def)
  obtain u where u: "exec_all (timed_exec counting_semaphore 1000 ex_cfg) ?fs w = Some u" "clock u = 306000000000"
    by (simp add: w_def ex_proxy_simps timer_fires_def in_time_def clock_defs nanos)
  have "clock w = 0" "\<not> listening (server_at w)" by (simp_all add: w_def)
  with proxy_drains [OF counting_semaphore_ok ex_server_new w _ u(1)] u w show ?thesis
    by (intro exI [of _ w] exI [of _ u]) (simp add: nanos del: exec_all.simps)
qed

lemma bridge_exports_last_reading_witness:
  "fold bridge_tick [default_counters\<lparr>c_total := 3\<rparr>, default_counters\<lparr>c_total := 8, c_active := 2\<rparr>] (0, 0) = (2, 8)"
  using bridge_exports_last_reading [of "[default_counters\<lparr>c_total := 3\<rparr>, default_counters\<lparr>c_total := 8, c_active := 2\<rparr>]"]
  by (simp add: default_counters_def)

section \<open>Health\<close>

definition ex_input :: "bool \<Rightarrow> SupervisorInput" where
  "ex_input alive = \<lparr>proxy_alive = alive, control_plane_connected = False, si_cpu_usage = F64 False (1 / 4),
     si_memory_bytes = 4096, memory_limit_bytes = 0, si_active_connections = 3, si_software_version = ''0.1.0'',
     si_policy_version = 42, consecutive_proxy_failures = 0\<rparr>"

definition ex_supervisor :: Supervisor where
  "ex_supervisor = \<lparr>max_cpu = F64 False (9 / 10), watchdog_timeout = from_secs 30\<rparr>"

definition ex_exec :: ExecBypassController where
  "ex_exec = Exec_new ''relay on'' ''relay off'' (from_secs 5) [TimedOut, Exited True ''exit status: 0'' []]"

lemma exec_bypass_retries_witness:
  "case supervise exec_ops ex_supervisor True [ex_input False, ex_input False] ex_exec of (rs, d) \<Rightarrow>
     attempted d = [''relay on'', ''relay on''] \<and> map isl rs = [True, False] \<and> bypass_enabled exec_ops d"
  using exec_bypass_retries [of "[ex_input False, ex_input False]" ex_exec ex_supervisor]
  by (auto simp: ex_input_def ex_exec_def Exec_new_def numeral_2_eq_2 split: prod.splits)

lemma exec_bypass_cause_witness:
  "True \<and> (\<exists>i \<in> set [ex_input True, ex_input False]. \<not> proxy_alive i)"
  by (rule exec_bypass_cause [where s = ex_supervisor and c = "ex_exec\<lparr>outcomes := []\<rparr>"])
    (simp_all add: ex_input_def ex_exec_def Exec_new_def exec_ops_def supervise_round_def maybe_actuate_def
      Supervisor_evaluate_def ex_supervisor_def act_defs exec_run_def next_outcome_def)

lemma watchdog_expiry_witness:
  "is_expired 40000000001 (fold pet [5, 10000000000] (Watchdog_new 0 ''proxy'' (from_secs 30)))
   \<and> \<not> is_expired 40000000000 (fold pet [5, 10000000000] (Watchdog_new 0 ''proxy'' (from_secs 30)))"
  using watchdog_expiry [of 0 "[5, 10000000000]" 40000000001 "''proxy''" "from_secs 30"]
    watchdog_expiry [of 0 "[5, 10000000000]" 40000000000 "''proxy''" "from_secs 30"]
  by (simp add: as_nanos_def from_secs_def)

definition ex_proc :: proc where
  "ex_proc = \<lparr>proc_loadavg = Some ((show_nat 1 @ CHR ''.'' # pad_zeros 2 (show_nat 50)) @ CHR '' '' # ''1.20 0.90 1/80 7''),
     proc_status = Some (unlines ([''Name: x''] @ (''VmRSS:'' @ '' '' @ show_u64 12 @ '' kB'') # [])),
     proc_uptime = Some ((show_nat 3600 @ CHR ''.'' # pad_zeros 2 (show_nat 99)) @ CHR '' '' # ''7100.10''),
     available_parallelism = Some 4\<rparr>"

lemma ex_proc_text: "proc_loadavg ex_proc = Some ''1.50 1.20 0.90 1/80 7''" "proc_uptime ex_proc = Some ''3600.99 7100.10''"
  by (simp_all add: ex_proc_def show_nat.simps digit_char_def pad_zeros_def)

lemma snapshot_kernel_figures_witness:
  "snap_memory_bytes (sample_resources ex_proc) = 12 * 1024 \<and> snap_uptime_secs (sample_resources ex_proc) = 3600"
proof -
  have "snap_memory_bytes (sample_resources ex_proc) = 12 * 1024 \<and> snap_uptime_secs (sample_resources ex_proc) = of_nat 3600"
    by (rule snapshot_kernel_figures [where pre = "[''Name: x'']" and w = "'' ''" and post = "[]" and c = 99 and t = "''7100.10''"])
      (auto simp: ex_proc_def chomp_cr_def)
  then show ?thesis by simp
qed

lemma read_cpu_usage_accurate_witness:
  "\<exists>v. read_cpu_usage ex_proc = Some (F64 False v) \<and> \<bar>v - 3 / 8\<bar> \<le> 1 / 2 ^ 50"
proof -
  have "\<exists>v. read_cpu_usage ex_proc = Some (F64 False v) \<and> 0 \<le> v \<and> v \<le> 1
      \<and> \<bar>v - min 1 ((of_nat 1 + of_nat 50 / 100) / of_nat 4)\<bar> \<le> 1 / 2 ^ 50"
    by (rule read_cpu_usage_accurate [where t = "''1.20 0.90 1/80 7''" and k = 4]) (simp_all add: ex_proc_def)
  then show ?thesis by auto
qed

section \<open>Rollout\<close>

definition ex_manager :: RolloutManager where
  "ex_manager = RolloutManager_new default_rings default_thresholds"

definition ex_snapshot :: "f64 \<Rightarrow> HealthSnapshot" where
  "ex_snapshot crash = \<lparr>crash_rate = crash, proxy_error_rate = f64_zero, connection_success_rate = F64 False 1,
     cpu_p95 = F64 False (2 / 5), mem_bytes_p95 = 1, mem_limit_bytes = 2, health_check_failures = 0, sample_size = 10\<rparr>"

lemma ex_manager_inv: "rollout_inv ex_manager" "rings ex_manager \<noteq> []"
  by (simp_all add: rollout_inv_def ex_manager_def RolloutManager_new_def default_rings_def)

lemma rollout_promotes_iff_witness:
  "Rollout_evaluate (ex_snapshot f64_zero) ex_manager = Some (Promote ''internal'' ''canary-0.1pct'', ex_manager)"
  using rollout_promotes_iff [OF ex_manager_inv(1), of "ex_snapshot f64_zero" "''internal''" "''canary-0.1pct''" ex_manager]
  by (simp add: ex_snapshot_def ex_manager_def RolloutManager_new_def default_rings_def default_thresholds_def
      Ring_new_def)

lemma rollout_pause_latches_witness:
  "current (fold rollout_step [EvPromote, EvEvaluate (ex_snapshot f64_zero)] (pause ''operator'' ex_manager)) = 0"
proof -
  have "paused (pause ''operator'' ex_manager)" "rings (pause ''operator'' ex_manager) \<noteq> []"
    using ex_manager_inv(2) by (simp_all add: pause_def)
  from rollout_pause_latches [OF this, of "[EvPromote, EvEvaluate (ex_snapshot f64_zero)]"] show ?thesis
    by (simp add: pause_def ex_manager_def RolloutManager_new_def)
qed

lemma bad_ring_freezes_rollout_witness:
  "paused (fold rollout_step [EvEvaluate (ex_snapshot (F64 False 1)), EvPromote, EvEvaluate (ex_snapshot f64_zero)] ex_manager)"
  using bad_ring_freezes_rollout [OF ex_manager_inv(2), of "ex_snapshot (F64 False 1)" "[EvPromote, EvEvaluate (ex_snapshot f64_zero)]"]
  by (simp add: ex_snapshot_def ex_manager_def RolloutManager_new_def default_thresholds_def del: fold_simps)

lemma rollout_progress_earned_witness:
  "current (fold rollout_step [EvEvaluate (ex_snapshot f64_zero), EvPromote, EvPause ''operator''] ex_manager) = 1"
proof -
  have "Rollout_evaluate (ex_snapshot f64_zero) ex_manager = Some (Promote ''internal'' ''canary-0.1pct'', ex_manager)"
    by (simp add: Rollout_evaluate_def current_ring_def failed_gate_def ex_snapshot_def ex_manager_def
        RolloutManager_new_def default_rings_def default_thresholds_def Ring_new_def)
  then have "promotes_on_word [EvEvaluate (ex_snapshot f64_zero), EvPromote, EvPause ''operator''] ex_manager" by simp
  from rollout_progress_earned [OF this] show ?thesis
    by (simp add: ex_manager_def RolloutManager_new_def del: fold_simps rollout_step.simps)
qed

lemma rollout_no_panic_witness:
  "current (fold rollout_step [EvPromote, EvPromote] (RolloutManager_new default_rings default_thresholds))
     < length default_rings"
  using rollout_no_panic [of default_rings "[EvPromote, EvPromote]" default_thresholds] by (simp add: default_rings_def)

section \<open>Telemetry and load generator\<close>

definition sample_prometheus :: "string list prometheus" where
  "sample_prometheus = \<lparr>registry_new = [],
     with_opts = (\<lambda>m. if valid_metric_name (mo_name m) then Inr () else Inl ''invalid name''),
     registry_register = (\<lambda>m r. if mo_name m \<in> set r then Inl ''duplicate'' else Inr (mo_name m # r))\<rparr>"

lemma sample_prometheus_ok: "prom_ok sample_prometheus set"
  by (simp add: prom_ok_def sample_prometheus_def)

lemma metrics_never_panic_witness:
  "\<exists>m. EdgeMetrics_default sample_prometheus = Some m
     \<and> set (em_registry m) = set (map mo_name edge_metric_opts)"
  using metrics_never_panic [OF sample_prometheus_ok] by blast

lemma percentile_order_statistic_witness:
  "\<exists>r. \<exists>v \<in> set [30, 10, 20 :: u128]. 1 \<le> r \<and> r \<le> 3
     \<and> percentile [30, 10, 20] (F64 False (1 / 2)) = f64_div (f64_of_nat (unat v)) (F64 False 1000000)
     \<and> r \<le> length (filter (\<lambda>x. x \<le> v) [30, 10, 20])"
proof -
  let ?xs = "[30, 10, 20 :: u128]"
  have "?xs \<noteq> []" "length ?xs \<le> 2 ^ 32" "(1 / 100 :: rat) \<le> 1 / 2" "(1 / 2 :: rat) \<le> 1" by simp_all
  from percentile_order_statistic [OF this refl] obtain r v where
    "1 \<le> r" "r \<le> length ?xs" "v \<in> set ?xs" "r \<le> length (filter (\<lambda>x. x \<le> v) ?xs)"
    "percentile ?xs (F64 False (1 / 2)) = f64_div (f64_of_nat (unat v)) (F64 False 1000000)" by blast
  moreover have "length ?xs = 3" by simp
  ultimately show ?thesis by metis
qed

section \<open>Binaries\<close>

definition ex_upstream :: socket_addr where
  "ex_upstream = SocketV6 [0x2001, 0xdb8, 0, 0, 0, 0, 0, 1] 0 443"

definition ex_appliance_args :: "socket_addr Args" where
  "ex_appliance_args = \<lparr>arg_device_id = ''edge-07'', arg_hardware_id = ''hw-07'', arg_software_version = ''0.1.0'',
     arg_control_plane = ''http://cp:50051'', arg_state_path = [''var'', ''state.json''],
     arg_listen = SocketV4 (0, 0, 0, 0) 80, arg_upstream = show_socket_addr (SocketV4 (10, 0, 0, 1) 80),
     arg_metrics_addr = SocketV4 (127, 0, 0, 1) 19091, arg_tls_ca = None, arg_tls_cert = None, arg_tls_key = None\<rparr>"

definition ex_synced :: StateStore where
  "ex_synced = (fresh_store [''var'', ''state.json''])\<lparr>
     reported := \<lparr>policy_version = 42, r_software_version = [], applied_seq = 1\<rparr>,
     last_good_policy := default_policy\<lparr>version := 42, default_upstream := show_socket_addr ex_upstream\<rparr>\<rparr>"

lemma appliance_starts_cut_off_witness:
  "\<exists>s r. fst (edge_agent_main sample_json sample_prometheus counting_semaphore (\<lambda>_. None) (\<lambda>_. Inr ())
       (\<lambda>_. Inr (arg_metrics_addr ex_appliance_args)) ex_appliance_args (s :: fs)) = Inr r
     \<and> upstream_addr (run_cfg r) = ex_upstream \<and> (\<exists>w. run_dataplane r = Inr w \<and> listening w)"
proof -
  obtain b where b: "encode sample_json (to_persisted ex_synced) = Some b"
    by (simp add: sample_json_def json_of_codec_def)
  let ?s = "\<lparr>files = [[''var'', ''state.json''] \<mapsto> b], faults = []\<rparr> :: fs"
  have d: "decode sample_json b = Some (to_persisted ex_synced)" using sample_json_ok b by (simp add: json_ok_def)
  have p: "st_path ex_synced = [''var'', ''state.json'']" by (simp add: ex_synced_def fresh_store_def)
  have st: "reopen sample_json (arg_state_path ex_appliance_args) (files ?s) = Some ex_synced"
    using d of_to_persisted [of ex_synced] p by (simp add: reopen_def ex_appliance_args_def)
  have literal: "parse_socket_addr (show_socket_addr ex_upstream) = Some ex_upstream"
    "parse_socket_addr (show_socket_addr (SocketV4 (10, 0, 0, 1) 80)) = Some (SocketV4 (10, 0, 0, 1) 80)"
    by (rule parse_show_socket_addr, simp add: ex_upstream_def socket_addr_ok_def)+
  have "\<exists>r. fst (edge_agent_main sample_json sample_prometheus counting_semaphore (\<lambda>_. None) (\<lambda>_. Inr ())
       (\<lambda>_. Inr (arg_metrics_addr ex_appliance_args)) ex_appliance_args ?s) = Inr r
     \<and> upstream_addr (run_cfg r) = ex_upstream \<and> (\<exists>w. run_dataplane r = Inr w \<and> listening w)"
    using appliance_starts_cut_off [OF sample_prometheus_ok counting_semaphore_ok _ _ st,
        of "\<lambda>_. Inr ()" "\<lambda>_. Inr (arg_metrics_addr ex_appliance_args)" "arg_metrics_addr ex_appliance_args"
        ex_upstream "SocketV4 (10, 0, 0, 1) 80" "\<lambda>_. None"] literal
    by (fastforce simp: spawn_metrics_server_def has_synced_policy_def ex_synced_def ex_appliance_args_def
        simp del: show_socket_addr.simps)
  then show ?thesis by blast
qed

end
