(* ===== verification/Service_Concurrent.thy ===== *)
theory Service_Concurrent
  imports Registry_Concurrent Control_Main
begin

text \<open>
  The handlers of \<open>crates/control-plane/src/service.rs\<close> and the operator API of
  \<open>crates/control-plane/src/main.rs\<close> as they run: each request on a task of its own, every call
  of the registry a call of \<open>Registry_Concurrent\<close> that the handler awaits. Registration and the
  watch task make two calls, so that other requests can come between them; a watch task
  answers through a channel of 32 commands.
\<close>

section \<open>Calls and answers\<close>

definition register_op :: "u64 \<Rightarrow> RegisterRequest \<Rightarrow> reg_call" where
  "register_op now r =
     (let i = (case rq_identity r of None \<Rightarrow> default_identity | Some i \<Rightarrow> i)
      in Call (Register now (id_device_id i) (id_hardware_id i) (id_software_version i)
           (rq_reported_policy_version r) (rq_reported_software_version r)))"

definition heartbeat_op :: "u64 \<Rightarrow> HeartbeatRequest \<Rightarrow> reg_call" where
  "heartbeat_op now h = Call (Heartbeat now (heartbeat_of_usage (hb_device_id h) (hb_reported_policy_version h)
     (hb_reported_software_version h) (hb_health h) (hb_usage h) (hb_active_connections h)))"

definition report_op :: "u64 \<Rightarrow> EdgeReport \<Rightarrow> reg_call" where
  "report_op now rep = Call (Heartbeat now (heartbeat_of_usage (er_device_id rep) (er_reported_policy_version rep)
     (er_reported_software_version rep) (er_health rep) (er_usage rep) (er_active_connections rep)))"

definition body_policy :: "PolicyBody \<Rightarrow> Policy" where
  "body_policy b = \<lparr>version = pb_version b,
     max_connections = (case pb_max_connections b of None \<Rightarrow> default_max_conn | Some m \<Rightarrow> m),
     idle_timeout_secs = (case pb_idle_timeout_secs b of None \<Rightarrow> default_idle | Some t \<Rightarrow> t),
     default_upstream = (case pb_default_upstream b of None \<Rightarrow> api_default_upstream | Some u \<Rightarrow> u),
     rules_json = ''{}''\<rparr>"

definition register_reply :: "DeviceRecord \<Rightarrow> Policy option \<Rightarrow> RegisterResponse" where
  "register_reply rec pol = \<lparr>accepted = True, rr_desired_policy_version = desired_policy_version rec,
     rr_policy = pol, rr_desired_software_version = desired_software_version rec,
     rr_pending_ota = None, rr_has_pending_ota = False\<rparr>"

definition heartbeat_reply :: "(u64 \<times> Policy option \<times> string \<times> u64) option \<Rightarrow> Status + HeartbeatResponse" where
  "heartbeat_reply out = (case out of
       Some (ver, pol, sw, sq) \<Rightarrow> Inr \<lparr>hr_desired_policy_version = ver, hr_policy = pol, hr_has_policy = True,
         hr_desired_software_version = sw, hr_pending_ota = None, hr_has_pending_ota = False, hr_desired_seq = sq\<rparr>
     | None \<Rightarrow> Inl (NotFoundStatus ''unknown device; register first''))"

text \<open>The command for a report, from the policy and the sequence number the task has read.\<close>

definition watch_command :: "EdgeReport \<Rightarrow> Policy option \<times> u64 \<Rightarrow> CloudCommand" where
  "watch_command rep cur = (case cur of
       (Some p, sq) \<Rightarrow>
         if er_applied_seq rep < sq
            \<and> (case parse_u64 (er_reported_policy_version rep) of None \<Rightarrow> 0 | Some v \<Rightarrow> v) \<noteq> version p
         then \<lparr>cc_seq = sq, cc_command = Some (PolicyUpdate (Some p))\<rparr>
         else \<lparr>cc_seq = er_applied_seq rep, cc_command = Some NoopCommand\<rparr>
     | (None, _) \<Rightarrow> \<lparr>cc_seq = er_applied_seq rep, cc_command = Some NoopCommand\<rparr>)"

section \<open>Tasks\<close>

datatype service_request = RegisterRq RegisterRequest | HeartbeatRq HeartbeatRequest | WatchRq | HttpRq http_request

datatype service_reply = RegisterReply RegisterResponse | HeartbeatReply "Status + HeartbeatResponse" | HttpReply http_response

text \<open>
  A watch task waits for a report, for the heartbeat it records, for the current policy, or for
  room in the channel; it is done when the inbound stream ends or the receiver is gone. The
  channel, what the client has taken from it, and the reports so far are kept beside it.
\<close>

datatype watch_pc = Receiving | ReportBeats EdgeReport nat | ReportReads EdgeReport nat | Sending EdgeReport CloudCommand | WatchDone

record watch =
  w_pc :: watch_pc
  w_queue :: "CloudCommand list"
  w_delivered :: "CloudCommand list"
  w_open :: bool
  w_reports :: "EdgeReport list"

definition watch_start :: watch where
  "watch_start = \<lparr>w_pc = Receiving, w_queue = [], w_delivered = [], w_open = True, w_reports = []\<rparr>"

definition channel_capacity :: nat where
  "channel_capacity = 32"

text \<open>A handler holds the number of the registry call it awaits.\<close>

datatype handler =
    Registering nat
  | RegisterReads DeviceRecord nat
  | Beating nat
  | Pushing u64 nat
  | Listing nat
  | Probing nat
  | Watching watch
  | Answered service_reply

definition call_registry :: "reg_call \<Rightarrow> conc \<Rightarrow> nat \<times> conc" where
  "call_registry c w = (length (calls w), w\<lparr>calls := calls w @ [Waiting c]\<rparr>)"

definition awaited :: "nat \<Rightarrow> conc \<Rightarrow> reg_reply option" where
  "awaited n w = (if n < length (calls w) then (case calls w ! n of Replied r \<Rightarrow> Some r | _ \<Rightarrow> None) else None)"

fun start_handler :: "u64 \<Rightarrow> service_request \<Rightarrow> conc \<Rightarrow> handler \<times> conc" where
  "start_handler now (RegisterRq r) w = apfst Registering (call_registry (register_op now r) w)"
| "start_handler now (HeartbeatRq h) w = apfst Beating (call_registry (heartbeat_op now h) w)"
| "start_handler now WatchRq w = (Watching watch_start, w)"
| "start_handler now (HttpRq (PostPolicy b)) w =
     apfst (Pushing (pb_version b)) (call_registry (Call (SetPolicy (body_policy b))) w)"
| "start_handler now (HttpRq GetDevices) w = apfst Listing (call_registry Devices w)"
| "start_handler now (HttpRq GetReadyz) w = apfst Probing (call_registry Devices w)"
| "start_handler now (HttpRq GetHealthz) w = (Answered (HttpReply (PlainText ''ok'')), w)"

text \<open>One step of the watch task; the reports come with events of their own.\<close>

definition watch_advance :: "watch \<Rightarrow> conc \<Rightarrow> (watch \<times> conc) option" where
  "watch_advance h w = (case w_pc h of
       ReportBeats rep n \<Rightarrow> (case awaited n w of
           Some (Beat _) \<Rightarrow> (case call_registry CurrentPolicy w of (m, v) \<Rightarrow> Some (h\<lparr>w_pc := ReportReads rep m\<rparr>, v))
         | _ \<Rightarrow> None)
     | ReportReads rep n \<Rightarrow> (case awaited n w of
           Some (PolicyIs cur) \<Rightarrow> Some (h\<lparr>w_pc := Sending rep (watch_command rep cur)\<rparr>, w)
         | _ \<Rightarrow> None)
     | Sending rep cmd \<Rightarrow>
         if \<not> w_open h then Some (h\<lparr>w_pc := WatchDone\<rparr>, w)
         else if length (w_queue h) < channel_capacity
           then Some (h\<lparr>w_pc := Receiving, w_queue := w_queue h @ [cmd]\<rparr>, w)
         else None
     | _ \<Rightarrow> None)"

fun advance :: "u64 \<Rightarrow> handler \<Rightarrow> conc \<Rightarrow> (handler \<times> conc) option" where
  "advance now (Registering n) w = (case awaited n w of
       Some (Registered rec) \<Rightarrow> Some (apfst (RegisterReads rec) (call_registry CurrentPolicy w))
     | _ \<Rightarrow> None)"
| "advance now (RegisterReads rec n) w = (case awaited n w of
       Some (PolicyIs (pol, _)) \<Rightarrow> Some (Answered (RegisterReply (register_reply rec pol)), w)
     | _ \<Rightarrow> None)"
| "advance now (Beating n) w = (case awaited n w of
       Some (Beat out) \<Rightarrow> Some (Answered (HeartbeatReply (heartbeat_reply out)), w)
     | _ \<Rightarrow> None)"
| "advance now (Pushing v n) w = (case awaited n w of
       Some (Sequence sq) \<Rightarrow> Some (Answered (HttpReply (PolicyPushed (sq, v))), w)
     | _ \<Rightarrow> None)"
| "advance now (Listing n) w = (case awaited n w of
       Some (DeviceList ds) \<Rightarrow> Some (Answered (HttpReply (DeviceViews (map (device_view now) ds))), w)
     | _ \<Rightarrow> None)"
| "advance now (Probing n) w = (case awaited n w of
       Some (DeviceList ds) \<Rightarrow> Some (Answered (HttpReply (PlainText ''ready'')), w)
     | _ \<Rightarrow> None)"
| "advance now (Watching h) w = map_option (apfst Watching) (watch_advance h w)"
| "advance now (Answered r) w = None"

section \<open>The service\<close>

record service =
  registry :: conc
  handlers :: "handler list"

definition service_start :: "Inner \<Rightarrow> disk \<Rightarrow> service" where
  "service_start i d = \<lparr>registry = conc_start i d, handlers = []\<rparr>"

text \<open>
  What can happen next: a request arrives, a handler or a call of the registry goes on, and on a
  watch stream a report arrives, the reports end, the client takes a command or hangs up.
\<close>

datatype service_event =
    Arrive u64 service_request
  | Advance nat u64
  | RegistryMove nat io_turn
  | Report nat u64 EdgeReport
  | InboundEnds nat
  | Deliver nat
  | Hangup nat

definition on_handler :: "nat \<Rightarrow> (handler \<Rightarrow> conc \<Rightarrow> (handler \<times> conc) option) \<Rightarrow> service \<Rightarrow> service option" where
  "on_handler k f v = (if k < length (handlers v) then
       (case f (handlers v ! k) (registry v) of
          None \<Rightarrow> None
        | Some (h, w) \<Rightarrow> Some \<lparr>registry = w, handlers = (handlers v)[k := h]\<rparr>)
     else None)"

definition on_watch :: "(watch \<Rightarrow> conc \<Rightarrow> (watch \<times> conc) option) \<Rightarrow> handler \<Rightarrow> conc \<Rightarrow> (handler \<times> conc) option" where
  "on_watch f h w = (case h of Watching x \<Rightarrow> map_option (apfst Watching) (f x w) | _ \<Rightarrow> None)"

definition receive_report :: "u64 \<Rightarrow> EdgeReport \<Rightarrow> watch \<Rightarrow> conc \<Rightarrow> (watch \<times> conc) option" where
  "receive_report now rep h w = (if w_pc h = Receiving
     then (case call_registry (report_op now rep) w of
             (n, v) \<Rightarrow> Some (h\<lparr>w_pc := ReportBeats rep n, w_reports := w_reports h @ [rep]\<rparr>, v))
     else None)"

definition inbound_ends :: "watch \<Rightarrow> conc \<Rightarrow> (watch \<times> conc) option" where
  "inbound_ends h w = (if w_pc h = Receiving then Some (h\<lparr>w_pc := WatchDone\<rparr>, w) else None)"

definition deliver :: "watch \<Rightarrow> conc \<Rightarrow> (watch \<times> conc) option" where
  "deliver h w = (case w_queue h of
       c # q \<Rightarrow> if w_open h then Some (h\<lparr>w_queue := q, w_delivered := w_delivered h @ [c]\<rparr>, w) else None
     | [] \<Rightarrow> None)"

definition hangup :: "watch \<Rightarrow> conc \<Rightarrow> (watch \<times> conc) option" where
  "hangup h w = Some (h\<lparr>w_open := False\<rparr>, w)"

fun service_exec :: "reg_env \<Rightarrow> service_event \<Rightarrow> service \<Rightarrow> service option" where
  "service_exec env (Arrive now rq) v =
     (case start_handler now rq (registry v) of (h, w) \<Rightarrow> Some \<lparr>registry = w, handlers = handlers v @ [h]\<rparr>)"
| "service_exec env (Advance k now) v = on_handler k (advance now) v"
| "service_exec env (RegistryMove n out) v = map_option (\<lambda>w. v\<lparr>registry := w\<rparr>) (conc_exec env (Move n out) (registry v))"
| "service_exec env (Report k now rep) v = on_handler k (on_watch (receive_report now rep)) v"
| "service_exec env (InboundEnds k) v = on_handler k (on_watch inbound_ends) v"
| "service_exec env (Deliver k) v = on_handler k (on_watch deliver) v"
| "service_exec env (Hangup k) v = on_handler k (on_watch hangup) v"

inductive service_run :: "reg_env \<Rightarrow> service \<Rightarrow> service_event list \<Rightarrow> service \<Rightarrow> bool" for env where
  service_Nil: "service_run env v [] v"
| service_snoc: "service_run env v es u \<Longrightarrow> service_exec env e u = Some x \<Longrightarrow> service_run env v (es @ [e]) x"


section \<open>The same answers as the sequential handlers\<close>

lemma svc_register_reply:
  "svc_register env now r s = (let i = (case rq_identity r of None \<Rightarrow> default_identity | Some i \<Rightarrow> i);
     (rec, t) = register env now (id_device_id i) (id_hardware_id i) (id_software_version i)
       (rq_reported_policy_version r) (rq_reported_software_version r) s
   in (Inr (register_reply rec (fst (current_policy t))), t))"
  by (simp add: svc_register_def register_reply_def Let_def split: prod.splits)

lemma svc_heartbeat_reply:
  "svc_heartbeat now h s = apfst heartbeat_reply (heartbeat_update now (heartbeat_of_usage (hb_device_id h)
     (hb_reported_policy_version h) (hb_reported_software_version h) (hb_health h) (hb_usage h) (hb_active_connections h)) s)"
  by (simp add: svc_heartbeat_def heartbeat_reply_def split: prod.splits option.splits)

lemma push_policy_body:
  "push_policy env b s = apfst (\<lambda>sq. (sq, pb_version b)) (set_policy env (body_policy b) s)"
  by (simp add: push_policy_def body_policy_def Let_def split: prod.splits)

lemma watch_reply_by_command:
  "watch_reply now rep s = (let t = snd (watch_reply now rep s) in (watch_command rep (current_policy t), t))"
  by (simp add: watch_reply_def watch_command_def Let_def split: prod.splits option.splits)

section \<open>The registry underneath\<close>

text \<open>Of two moments of a run the later one has the higher number, or the same number and content.\<close>

context versioned_source
begin

lemma seq_between:
  assumes "unat (seq_of s) + length xs < 2 ^ 64" and "m \<le> n" and "n \<le> length xs"
  shows "seq_of (fold step (take m xs) s) \<le> seq_of (fold step (take n xs) s)
     \<and> (seq_of (fold step (take m xs) s) = seq_of (fold step (take n xs) s)
          \<longrightarrow> content (fold step (take m xs) s) = content (fold step (take n xs) s))"
proof -
  let ?t = "fold step (take m xs) s" and ?ys = "take (n - m) (drop m xs)"
  have at: "fold step (take n xs) s = fold step ?ys ?t"
    using assms(2) take_add [of m "n - m" xs] by simp
  have m: "length (take m xs) = m" and ys: "length ?ys = n - m" using assms(2,3) by simp_all
  have "unat (seq_of s) + length (take m xs) < 2 ^ 64" unfolding m using assms by linarith
  from seq_run [OF this] have "unat (seq_of ?t) \<le> unat (seq_of s) + m" unfolding m by blast
  then have "unat (seq_of ?t) + length ?ys < 2 ^ 64" unfolding ys using assms by linarith
  from seq_run [OF this] show ?thesis by (simp add: at word_le_nat_alt)
qed

end

text \<open>Desired state and sequence number move together also in lock order.\<close>

interpretation vc: versioned_source "seq_call env" "\<lambda>s. policy_seq (inner s)" desired_content
proof
  fix c s
  show "desired_content (seq_call env c s) = desired_content s
      \<and> policy_seq (inner (seq_call env c s)) = policy_seq (inner s)
    \<or> policy_seq (inner (seq_call env c s)) = policy_seq (inner s) + 1"
  proof (cases c)
    case (Call op)
    with seq_call_step [of env op s] vs.step_cases [where s = s and env = env] show ?thesis by metis
  qed (simp_all add: seq_call_def)
qed

lemma length_lock_order: "length (lock_order es) \<le> length es"
proof (induction es rule: rev_induct)
  case (snoc e es)
  then show ?case by (cases e) auto
qed simp

definition room :: "reg_sys \<Rightarrow> nat \<Rightarrow> bool" where
  "room s n \<longleftrightarrow> unat (policy_seq (inner s)) + n < 2 ^ 64"

lemma past_between:
  assumes "room s (length es)" and "m \<le> n" and "n \<le> length (linearized es)"
    and "i = inner (fold (seq_call env) (take m (linearized es)) s)"
    and "j = inner (fold (seq_call env) (take n (linearized es)) s)"
  shows "policy_seq i \<le> policy_seq j \<and> (policy_seq i = policy_seq j \<longrightarrow> in_policy i = in_policy j)"
proof -
  have "unat (policy_seq (inner s)) + length (linearized es) < 2 ^ 64"
    using assms(1) length_lock_order [of es] unfolding room_def length_linearized by linarith
  from vc.seq_between [OF this assms(2,3), of env] show ?thesis using assms(4,5) by (simp add: desired_content_def)
qed

lemma past_determined:
  assumes "past env s es i" "past env s es j" "room s (length es)" "policy_seq i = policy_seq j"
  shows "in_policy i = in_policy j"
proof -
  from assms(1,2) obtain m n where m: "m \<le> length (linearized es)" "i = inner (fold (seq_call env) (take m (linearized es)) s)"
    and n: "n \<le> length (linearized es)" "j = inner (fold (seq_call env) (take n (linearized es)) s)"
    unfolding past_def by blast
  consider "m \<le> n" | "n \<le> m" by linarith
  then show ?thesis
  proof cases
    case 1
    from past_between [OF assms(3) this n(1) m(2) n(2)] assms(4) show ?thesis by blast
  next
    case 2
    from past_between [OF assms(3) this m(1) n(2) m(2)] assms(4) show ?thesis by simp
  qed
qed

lemma past_start_le:
  assumes "past env s es j" and "room s (length es)"
  shows "policy_seq (inner s) \<le> policy_seq j"
proof -
  from assms(1) obtain n where "n \<le> length (linearized es)"
    "j = inner (fold (seq_call env) (take n (linearized es)) s)" by (auto simp: past_def)
  with past_between [OF assms(2), of 0 n "inner s" env j] show ?thesis by simp
qed

lemma past_shared:
  assumes "lin_inv env s es w"
  shows "past env s es (shared w)"
  using assms by (auto simp: lin_inv_def past_def)

lemma past_le_shared:
  assumes lin: "lin_inv env s es w" and "past env s es i" and "room s (length es)"
  shows "policy_seq i \<le> policy_seq (shared w)"
proof -
  from assms(2) obtain m where "m \<le> length (linearized es)"
    "i = inner (fold (seq_call env) (take m (linearized es)) s)" by (auto simp: past_def)
  moreover have "shared w = inner (fold (seq_call env) (take (length (linearized es)) (linearized es)) s)"
    using lin by (simp add: lin_inv_def)
  ultimately show ?thesis using past_between [OF assms(3) _ order_refl] by blast
qed

text \<open>A reply is what the critical section of its call gave at some moment.\<close>

lemma awaited_past:
  assumes lin: "lin_inv env s es w" and "awaited n w = Some r"
  shows "\<exists>c i. past env s es i \<and> r = fst (locked env c i)"
proof -
  from assms(2) have n: "n < length (calls w)" "calls w ! n = Replied r"
    by (auto simp: awaited_def split: if_splits reg_task.splits)
  then have "n \<in> set (lock_order es)" using lin by (fastforce simp: lin_inv_def)
  then obtain m where m: "m < length (lock_order es)" "lock_order es ! m = n" by (auto simp: in_set_conv_nth)
  let ?t = "fold (seq_call env) (take m (linearized es)) s"
  have "r = seq_reply env (linearized es ! m) ?t" using lin m n by (auto simp: lin_inv_def)
  then have "r = fst (locked env (linearized es ! m) (inner ?t))"
    using locked_sequential [of env _ ?t] by (metis prod.exhaust_sel)
  moreover have "past env s es (inner ?t)" using m by (auto simp: past_def intro!: exI [of _ m])
  ultimately show ?thesis by blast
qed

lemma locked_reply:
  "fst (locked env c i) = PolicyIs cur \<Longrightarrow> cur = (in_policy i, policy_seq i)"
  "fst (locked env c i) = Beat (Some x) \<Longrightarrow> x = (desired_version i, in_policy i, desired_software i, policy_seq i)"
  "fst (locked env c i) = Registered rec \<Longrightarrow> desired_policy_version rec = desired_version i \<and> desired_seq rec = policy_seq i"
  by (cases "(env, c, i)" rule: locked.cases; auto simp: Let_def split: option.splits if_splits)+

section \<open>The invariant of the handlers\<close>

definition update_of :: "CloudCommand \<Rightarrow> (u64 \<times> Policy option) list" where
  "update_of cmd = (case cc_command cmd of Some (PolicyUpdate p) \<Rightarrow> [(cc_seq cmd, p)] | _ \<Rightarrow> [])"

definition updates :: "CloudCommand list \<Rightarrow> (u64 \<times> Policy option) list" where
  "updates cmds = concat (map update_of cmds)"

lemma updates_simps [simp]:
  "updates [] = []" "updates (xs @ ys) = updates xs @ updates ys" "updates [c] = update_of c"
  by (simp_all add: updates_def)

text \<open>The commands a watch task has handed to its channel, in order.\<close>

definition sent :: "watch \<Rightarrow> CloudCommand list" where
  "sent h = w_delivered h @ w_queue h"

definition answers :: "(Inner \<Rightarrow> bool) \<Rightarrow> EdgeReport \<Rightarrow> CloudCommand \<Rightarrow> bool" where
  "answers P rep cmd \<longleftrightarrow> (\<exists>i. P i \<and> cmd = watch_command rep (in_policy i, policy_seq i))"

lemma watch_command_update:
  "x \<in> set (update_of (watch_command rep (pol, sq))) \<Longrightarrow> x = (sq, pol) \<and> er_applied_seq rep < sq"
  by (cases pol) (auto simp: watch_command_def update_of_def split: if_splits)

lemma answers_update: "answers P rep cmd \<Longrightarrow> x \<in> set (update_of cmd) \<Longrightarrow>
    \<exists>i. P i \<and> x = (policy_seq i, in_policy i) \<and> er_applied_seq rep < policy_seq i"
  unfolding answers_def using watch_command_update by blast

lemma answers_mono: "answers P rep cmd \<Longrightarrow> (\<And>i. P i \<Longrightarrow> Q i) \<Longrightarrow> answers Q rep cmd"
  by (auto simp: answers_def)

definition bounded_by :: "u64 \<Rightarrow> CloudCommand list \<Rightarrow> bool" where
  "bounded_by b cmds \<longleftrightarrow> (\<forall>x \<in> set (updates cmds). fst x \<le> b)"

text \<open>
  A watch task: its channel is bounded, its commands answer its reports one by one, their
  sequence numbers never go back, and what it has read is not older than what it has sent.
\<close>

fun open_reports :: "watch_pc \<Rightarrow> EdgeReport list" where
  "open_reports (ReportBeats rep n) = [rep]"
| "open_reports (ReportReads rep n) = [rep]"
| "open_reports (Sending rep cmd) = [rep]"
| "open_reports _ = []"

definition read_ok :: "conc \<Rightarrow> nat \<Rightarrow> (u64 \<Rightarrow> bool) \<Rightarrow> bool" where
  "read_ok w n ge \<longleftrightarrow> n < length (calls w) \<and> (\<forall>cur. reply_of (calls w ! n) = Some (PolicyIs cur) \<longrightarrow> ge (snd cur))"

fun pc_ok :: "(Inner \<Rightarrow> bool) \<Rightarrow> conc \<Rightarrow> CloudCommand list \<Rightarrow> watch_pc \<Rightarrow> bool" where
  "pc_ok P w cmds (ReportReads rep n) \<longleftrightarrow> read_ok w n (\<lambda>b. bounded_by b cmds)"
| "pc_ok P w cmds (Sending rep cmd) \<longleftrightarrow> answers P rep cmd \<and> (\<forall>x \<in> set (update_of cmd). bounded_by (fst x) cmds)"
| "pc_ok P w cmds _ \<longleftrightarrow> True"

definition watch_ok :: "(Inner \<Rightarrow> bool) \<Rightarrow> conc \<Rightarrow> watch \<Rightarrow> bool" where
  "watch_ok P w h \<longleftrightarrow> length (w_queue h) \<le> channel_capacity
     \<and> (\<exists>rs ls. w_reports h = rs @ ls \<and> list_all2 (answers P) rs (sent h)
          \<and> (w_pc h = WatchDone \<or> ls = open_reports (w_pc h)))
     \<and> sorted (map fst (updates (sent h))) \<and> pc_ok P w (sent h) (w_pc h)"

text \<open>
  The other handlers: a heartbeat is answered from one moment, a registration from two, the
  second not before the first.
\<close>

fun reply_ok :: "(Inner \<Rightarrow> bool) \<Rightarrow> service_reply \<Rightarrow> bool" where
  "reply_ok P (HeartbeatReply (Inr r)) \<longleftrightarrow> (\<exists>i. P i \<and> hr_desired_policy_version r = desired_version i
     \<and> hr_policy r = in_policy i \<and> hr_desired_software_version r = desired_software i \<and> hr_desired_seq r = policy_seq i)"
| "reply_ok P (RegisterReply r) \<longleftrightarrow> (\<exists>i j. P i \<and> P j \<and> policy_seq i \<le> policy_seq j
     \<and> rr_desired_policy_version r = desired_version i \<and> rr_policy r = in_policy j)"
| "reply_ok P _ \<longleftrightarrow> True"

fun handler_ok :: "(Inner \<Rightarrow> bool) \<Rightarrow> conc \<Rightarrow> handler \<Rightarrow> bool" where
  "handler_ok P w (RegisterReads rec n) \<longleftrightarrow>
     (\<exists>i. P i \<and> desired_policy_version rec = desired_version i \<and> read_ok w n (\<lambda>b. policy_seq i \<le> b))"
| "handler_ok P w (Watching h) \<longleftrightarrow> watch_ok P w h"
| "handler_ok P w (Answered r) \<longleftrightarrow> reply_ok P r"
| "handler_ok P w _ \<longleftrightarrow> True"


lemma list_answers_mono: "list_all2 (answers P) rs cmds \<Longrightarrow> (\<And>i. P i \<Longrightarrow> Q i) \<Longrightarrow> list_all2 (answers Q) rs cmds"
  by (erule list_all2_mono) (rule answers_mono)

lemma answered_update:
  assumes "list_all2 (answers P) rs cmds" and "x \<in> set (updates cmds)"
  shows "\<exists>i. P i \<and> x = (policy_seq i, in_policy i)"
proof -
  from assms(2) obtain cmd where cmd: "cmd \<in> set cmds" "x \<in> set (update_of cmd)" by (auto simp: updates_def)
  with assms(1) obtain rep where "answers P rep cmd"
    by (metis in_set_conv_nth list_all2_conv_all_nth)
  with answers_update cmd(2) show ?thesis by blast
qed

text \<open>What stays true of a handler while the registry goes on: new calls, and steps of calls.\<close>

definition goes_on :: "(Inner \<Rightarrow> bool) \<Rightarrow> (Inner \<Rightarrow> bool) \<Rightarrow> conc \<Rightarrow> conc \<Rightarrow> bool" where
  "goes_on P Q w v \<longleftrightarrow> (\<forall>i. P i \<longrightarrow> Q i) \<and> length (calls w) \<le> length (calls v)
     \<and> (\<forall>n < length (calls w). \<forall>cur. reply_of (calls v ! n) = Some (PolicyIs cur)
          \<longrightarrow> reply_of (calls w ! n) = Some (PolicyIs cur) \<or> (\<forall>i. P i \<longrightarrow> policy_seq i \<le> snd cur))"

lemma goes_on_read:
  assumes "goes_on P Q w v" and "read_ok w n ge" and "\<And>b. (\<forall>i. P i \<longrightarrow> policy_seq i \<le> b) \<Longrightarrow> ge b"
  shows "read_ok v n ge"
  using assms unfolding goes_on_def read_ok_def by (meson order_less_le_trans)

lemma goes_on_watch:
  assumes g: "goes_on P Q w v" and ok: "watch_ok P w h"
  shows "watch_ok Q v h"
proof -
  have PQ: "Q i" if "P i" for i using g that by (simp add: goes_on_def)
  from ok obtain rs ls where rs: "w_reports h = rs @ ls" "list_all2 (answers P) rs (sent h)"
      "w_pc h = WatchDone \<or> ls = open_reports (w_pc h)" by (auto simp: watch_ok_def)
  have "bounded_by b (sent h)" if "\<forall>i. P i \<longrightarrow> policy_seq i \<le> b" for b
    using answered_update [OF rs(2)] that by (force simp: bounded_by_def)
  then have "pc_ok Q v (sent h) (w_pc h)"
    using ok goes_on_read [OF g] answers_mono [OF _ PQ] by (cases "w_pc h") (auto simp: watch_ok_def)
  moreover have "list_all2 (answers Q) rs (sent h)" by (rule list_answers_mono [OF rs(2)]) (rule PQ)
  ultimately show ?thesis using ok rs(1,3) unfolding watch_ok_def by blast
qed

lemma reply_ok_mono:
  assumes PQ: "\<And>i. P i \<Longrightarrow> Q i"
  shows "reply_ok P r \<Longrightarrow> reply_ok Q r"
  by (cases "(P, r)" rule: reply_ok.cases) (auto dest: PQ)

lemma goes_on_handler:
  assumes g: "goes_on P Q w v" and ok: "handler_ok P w h"
  shows "handler_ok Q v h"
proof (cases h)
  case (RegisterReads rec n)
  with ok obtain i where i: "P i" "desired_policy_version rec = desired_version i" "read_ok w n (\<lambda>b. policy_seq i \<le> b)"
    by auto
  moreover have "read_ok v n (\<lambda>b. policy_seq i \<le> b)" using goes_on_read [OF g i(3)] i(1) by blast
  moreover have "Q i" using g i(1) by (simp add: goes_on_def)
  ultimately show ?thesis using RegisterReads by auto
next
  case (Watching x)
  with ok goes_on_watch [OF g] show ?thesis by simp
next
  case (Answered r)
  with ok reply_ok_mono [of P Q] g show ?thesis by (simp add: goes_on_def)
qed simp_all


section \<open>Steps\<close>

lemma call_registry_simps [simp]:
  "fst (call_registry c w) = length (calls w)" "calls (snd (call_registry c w)) = calls w @ [Waiting c]"
  "call_registry c w = (n, v) \<longleftrightarrow> n = length (calls w) \<and> v = snd (call_registry c w)"
  by (auto simp: call_registry_def)

lemma call_registry_exec: "conc_exec env (Spawn c) w = Some (snd (call_registry c w))"
  by (simp add: call_registry_def)

lemma fresh_read: "read_ok (snd (call_registry c w)) (length (calls w)) ge"
  by (simp add: read_ok_def)

lemma goes_on_refl: "(\<And>i. P i \<Longrightarrow> Q i) \<Longrightarrow> goes_on P Q w w"
  by (simp add: goes_on_def)

lemma goes_on_call: "(\<And>i. P i \<Longrightarrow> Q i) \<Longrightarrow> goes_on P Q w (snd (call_registry c w))"
  by (auto simp: goes_on_def nth_append)

lemma goes_on_move:
  assumes lin: "lin_inv env s es w" and room: "room s (length es)" and step: "conc_exec env (Move n out) w = Some v"
    and PQ: "\<And>i. past env s es i \<Longrightarrow> Q i"
  shows "goes_on (past env s es) Q w v"
proof -
  from step obtain t i d where n: "n < length (calls w)" and t: "task_step env out (calls w ! n) (shared w, cdisk w) = Some (t, i, d)"
    and v: "v = \<lparr>shared = i, cdisk = d, calls = (calls w)[n := t]\<rparr>" by (auto split: if_splits option.splits)
  have "reply_of (calls w ! n) = Some (PolicyIs cur) \<or> snd cur = policy_seq (shared w)"
    if "reply_of t = Some (PolicyIs cur)" for cur
    using task_step_reply [OF t] that locked_reply(1) [of env _ "shared w" cur] by (cases "calls w ! n") auto
  then show ?thesis
    using n v PQ past_le_shared [OF lin _ room] by (auto simp: goes_on_def nth_list_update)
qed

text \<open>Taking commands out, hanging up and ending do not change what was sent.\<close>

lemma watch_ok_frame:
  assumes "watch_ok P w x" and "sent x' = sent x" "w_reports x' = w_reports x" "length (w_queue x') \<le> length (w_queue x)"
    and "w_pc x' = w_pc x \<or> w_pc x' = WatchDone"
  shows "watch_ok P w x'"
proof -
  from assms(1) obtain rs ls where "w_reports x = rs @ ls" "list_all2 (answers P) rs (sent x)"
    "w_pc x = WatchDone \<or> ls = open_reports (w_pc x)" by (auto simp: watch_ok_def)
  then have "\<exists>rs ls. w_reports x' = rs @ ls \<and> list_all2 (answers P) rs (sent x') \<and> (w_pc x' = WatchDone \<or> ls = open_reports (w_pc x'))"
    using assms(2,3,5) by metis
  then show ?thesis using assms by (auto simp: watch_ok_def)
qed

lemma watch_advance_ok:
  assumes lin: "lin_inv env s es w" and ok: "watch_ok (past env s es) w h" and step: "watch_advance h w = Some (h', v)"
  shows "watch_ok (past env s es) v h' \<and> (v = w \<or> (\<exists>c. v = snd (call_registry c w)))"
proof (cases "w_pc h")
  case (ReportBeats rep n)
  with step have "h' = h\<lparr>w_pc := ReportReads rep (length (calls w))\<rparr>" "v = snd (call_registry CurrentPolicy w)"
    by (auto simp: watch_advance_def split: option.splits reg_reply.splits prod.splits)
  then show ?thesis using ok ReportBeats fresh_read by (auto simp: watch_ok_def sent_def)
next
  case (ReportReads rep n)
  with step obtain cur where a: "awaited n w = Some (PolicyIs cur)"
    and h: "h' = h\<lparr>w_pc := Sending rep (watch_command rep cur)\<rparr>" "v = w"
    by (auto simp: watch_advance_def split: option.splits reg_reply.splits)
  obtain i where i: "past env s es i" "cur = (in_policy i, policy_seq i)"
    using awaited_past [OF lin a] locked_reply(1) by metis
  have "reply_of (calls w ! n) = Some (PolicyIs cur)" using a by (auto simp: awaited_def split: if_splits reg_task.splits)
  then have "bounded_by (snd cur) (sent h)" using ok ReportReads by (auto simp: watch_ok_def read_ok_def)
  then have "\<forall>x \<in> set (update_of (watch_command rep cur)). bounded_by (fst x) (sent h)"
    using watch_command_update [of _ rep "fst cur" "snd cur"] by auto
  moreover have "answers (past env s es) rep (watch_command rep cur)" using i by (auto simp: answers_def)
  ultimately show ?thesis using ok ReportReads h by (auto simp: watch_ok_def sent_def)
next
  case (Sending rep cmd)
  show ?thesis
  proof (cases "w_open h")
    case False
    with Sending step have "h' = h\<lparr>w_pc := WatchDone\<rparr>" "v = w" by (auto simp: watch_advance_def)
    then show ?thesis using watch_ok_frame [OF ok, of h'] by (simp add: sent_def)
  next
    case True
    with Sending step have h: "h' = h\<lparr>w_pc := Receiving, w_queue := w_queue h @ [cmd]\<rparr>" "v = w"
      and len: "length (w_queue h) < channel_capacity" by (auto simp: watch_advance_def split: if_splits)
    have s: "sent h' = sent h @ [cmd]" using h by (simp add: sent_def)
    from ok Sending obtain rs where rs: "w_reports h = rs @ [rep]" "list_all2 (answers (past env s es)) rs (sent h)"
      "answers (past env s es) rep cmd" by (auto simp: watch_ok_def)
    then have "list_all2 (answers (past env s es)) (rs @ [rep]) (sent h')" by (simp add: s list_all2_appendI)
    moreover have "sorted (map fst (updates (sent h')))"
      using ok Sending by (auto simp: s watch_ok_def sorted_append bounded_by_def update_of_def split: option.splits Command.splits)
    ultimately show ?thesis using rs(1) h len by (auto simp: watch_ok_def)
  qed
qed (use step in \<open>simp_all add: watch_advance_def\<close>)


text \<open>What one handler does: it keeps its own invariant, and to the registry it adds at most a call.\<close>

definition handler_step_ok :: "(Inner \<Rightarrow> bool) \<Rightarrow> conc \<Rightarrow> handler \<Rightarrow> conc \<Rightarrow> bool" where
  "handler_step_ok P w h v \<longleftrightarrow> handler_ok P v h \<and> (v = w \<or> (\<exists>c. v = snd (call_registry c w)))"

lemma start_handler_ok: "start_handler now rq w = (h, v) \<Longrightarrow> handler_step_ok P w h v"
  by (cases "(now, rq, w)" rule: start_handler.cases)
    (auto simp: handler_step_ok_def apfst_def map_prod_def watch_ok_def watch_start_def sent_def split: prod.splits)

lemma advance_ok:
  assumes lin: "lin_inv env s es w" and ok: "handler_ok (past env s es) w h" and step: "advance now h w = Some (h', v)"
  shows "handler_step_ok (past env s es) w h' v"
proof (cases h)
  case (Registering n)
  with step obtain rec where a: "awaited n w = Some (Registered rec)"
    and h: "h' = RegisterReads rec (length (calls w))" "v = snd (call_registry CurrentPolicy w)"
    by (auto simp: apfst_def map_prod_def split: option.splits reg_reply.splits prod.splits)
  obtain i where "past env s es i" "desired_policy_version rec = desired_version i"
    using awaited_past [OF lin a] locked_reply(3) by metis
  then show ?thesis using h fresh_read by (auto simp: handler_step_ok_def)
next
  case (RegisterReads rec n)
  with step obtain cur where a: "awaited n w = Some (PolicyIs cur)"
    and h: "h' = Answered (RegisterReply (register_reply rec (fst cur)))" "v = w"
    by (auto split: option.splits reg_reply.splits prod.splits)
  obtain j where j: "past env s es j" "cur = (in_policy j, policy_seq j)"
    using awaited_past [OF lin a] locked_reply(1) by metis
  have "reply_of (calls w ! n) = Some (PolicyIs cur)" using a by (auto simp: awaited_def split: if_splits reg_task.splits)
  with ok RegisterReads obtain i where "past env s es i" "desired_policy_version rec = desired_version i" "policy_seq i \<le> snd cur"
    by (auto simp: read_ok_def)
  with h j show ?thesis by (auto simp: handler_step_ok_def register_reply_def)
next
  case (Beating n)
  with step obtain out where a: "awaited n w = Some (Beat out)"
    and h: "h' = Answered (HeartbeatReply (heartbeat_reply out))" "v = w"
    by (auto split: option.splits reg_reply.splits)
  have "\<exists>i. past env s es i \<and> out = Some (desired_version i, in_policy i, desired_software i, policy_seq i)" if "out \<noteq> None"
    using awaited_past [OF lin a] locked_reply(2) that by (metis option.exhaust)
  with h show ?thesis by (cases out) (auto simp: handler_step_ok_def heartbeat_reply_def)
next
  case (Watching x)
  with step obtain x' where "h' = Watching x'" "watch_advance x w = Some (x', v)"
    by (auto simp: apfst_def map_prod_def)
  then show ?thesis using watch_advance_ok [OF lin, of x x' v] ok Watching by (simp add: handler_step_ok_def)
qed (use step in \<open>auto simp: handler_step_ok_def split: option.splits reg_reply.splits\<close>)

lemma on_watch_ok:
  assumes "on_watch f h w = Some (h', v)" and "handler_ok P w h"
    and "\<And>x x'. watch_ok P w x \<Longrightarrow> f x w = Some (x', v) \<Longrightarrow> watch_ok P v x' \<and> (v = w \<or> (\<exists>c. v = snd (call_registry c w)))"
  shows "handler_step_ok P w h' v"
  using assms by (auto simp: on_watch_def handler_step_ok_def apfst_def map_prod_def split: handler.splits)

lemma receive_report_ok:
  assumes ok: "watch_ok P w x" and step: "receive_report now rep x w = Some (x', v)"
  shows "watch_ok P v x' \<and> (v = w \<or> (\<exists>c. v = snd (call_registry c w)))"
proof -
  from step have x: "w_pc x = Receiving" "v = snd (call_registry (report_op now rep) w)"
      "x' = x\<lparr>w_pc := ReportBeats rep (length (calls w)), w_reports := w_reports x @ [rep]\<rparr>"
    by (auto simp: receive_report_def split: if_splits prod.splits)
  then show ?thesis using ok by (auto simp: watch_ok_def sent_def)
qed

lemma inbound_ends_ok: "watch_ok P w x \<Longrightarrow> inbound_ends x w = Some (x', v) \<Longrightarrow> watch_ok P v x' \<and> v = w"
  using watch_ok_frame [of P w x x'] by (auto simp: inbound_ends_def sent_def split: if_splits)

lemma deliver_ok: "watch_ok P w x \<Longrightarrow> deliver x w = Some (x', v) \<Longrightarrow> watch_ok P v x' \<and> v = w"
  using watch_ok_frame [of P w x x'] by (auto simp: deliver_def sent_def split: if_splits list.splits)

lemma hangup_ok: "watch_ok P w x \<Longrightarrow> hangup x w = Some (x', v) \<Longrightarrow> watch_ok P v x' \<and> v = w"
  using watch_ok_frame [of P w x x'] by (auto simp: hangup_def sent_def)

text \<open>The invariant of the service: the registry underneath is a run of its own, and every handler is in order.\<close>

definition service_inv :: "reg_env \<Rightarrow> reg_sys \<Rightarrow> disk \<Rightarrow> conc_event list \<Rightarrow> service \<Rightarrow> bool" where
  "service_inv env s d fs v \<longleftrightarrow> conc_run env (conc_start (inner s) d) fs (registry v)
     \<and> (\<forall>h \<in> set (handlers v). handler_ok (past env s fs) (registry v) h)"

lemma run_past_mono:
  assumes "conc_run env (conc_start (inner s) d) fs w" and "past env s fs i"
  shows "past env s (fs @ [e]) i"
  using past_mono [OF assms(2)] lin_inv_run [OF assms(1)] by (simp add: lin_inv_def)

lemma service_inv_handler:
  assumes inv: "service_inv env s d fs v" and "handler_step_ok (past env s fs) (registry v) h w"
    and hs: "set hs \<subseteq> insert h (set (handlers v))"
  shows "\<exists>gs. service_inv env s d (fs @ gs) \<lparr>registry = w, handlers = hs\<rparr> \<and> length gs \<le> 1"
proof -
  have run: "conc_run env (conc_start (inner s) d) fs (registry v)" using inv by (simp add: service_inv_def)
  obtain gs where gs: "length gs \<le> 1" "conc_run env (conc_start (inner s) d) (fs @ gs) w"
      "\<And>i. past env s fs i \<Longrightarrow> past env s (fs @ gs) i" "goes_on (past env s fs) (past env s (fs @ gs)) (registry v) w"
  proof (cases "w = registry v")
    case True
    then show ?thesis using that [of "[]"] run goes_on_refl by simp
  next
    case False
    then obtain c where "w = snd (call_registry c (registry v))" using assms(2) by (auto simp: handler_step_ok_def)
    then show ?thesis
      using that [of "[Spawn c]"] conc_snoc [OF run call_registry_exec] run_past_mono [OF run] goes_on_call by simp
  qed
  have "handler_ok (past env s (fs @ gs)) w h"
    using goes_on_handler [where w = w and v = w and h = h, OF goes_on_refl [OF gs(3)]] assms(2)
    by (simp add: handler_step_ok_def)
  moreover have "handler_ok (past env s (fs @ gs)) w g" if "g \<in> set (handlers v)" for g
    using goes_on_handler [OF gs(4)] inv that by (simp add: service_inv_def)
  ultimately show ?thesis using gs hs by (auto simp: service_inv_def intro!: exI [of _ gs])
qed

lemma service_inv_on_handler:
  assumes inv: "service_inv env s d fs v" and "on_handler k f v = Some u"
    and f: "\<And>h h' w. handler_ok (past env s fs) (registry v) h \<Longrightarrow> f h (registry v) = Some (h', w)
      \<Longrightarrow> handler_step_ok (past env s fs) (registry v) h' w"
  shows "\<exists>gs. service_inv env s d (fs @ gs) u \<and> length gs \<le> 1"
proof -
  from assms(2) obtain h w where k: "k < length (handlers v)" "f (handlers v ! k) (registry v) = Some (h, w)"
    and u: "u = \<lparr>registry = w, handlers = (handlers v)[k := h]\<rparr>" by (auto simp: on_handler_def split: if_splits option.splits)
  have "handler_step_ok (past env s fs) (registry v) h w" using f [OF _ k(2)] inv k(1) by (simp add: service_inv_def)
  from service_inv_handler [OF inv this, of "(handlers v)[k := h]"] u show ?thesis
    using set_update_subset_insert [of "handlers v" k h] by simp
qed

lemma service_inv_step:
  assumes inv: "service_inv env s d fs v" and room: "room s (length fs)" and step: "service_exec env e v = Some u"
  shows "\<exists>gs. service_inv env s d (fs @ gs) u \<and> length gs \<le> 1"
proof -
  have run: "conc_run env (conc_start (inner s) d) fs (registry v)" using inv by (simp add: service_inv_def)
  have lin: "lin_inv env s fs (registry v)" using run by (rule lin_inv_run)
  show ?thesis
  proof (cases e)
    case (Arrive now rq)
    with step obtain h w where h: "start_handler now rq (registry v) = (h, w)" "u = \<lparr>registry = w, handlers = handlers v @ [h]\<rparr>"
      by (auto split: prod.splits)
    from service_inv_handler [OF inv start_handler_ok [OF h(1)], of "handlers v @ [h]"] h(2) show ?thesis by simp
  next
    case (Advance k now)
    with step service_inv_on_handler [OF inv, of k "advance now"] advance_ok [OF lin] show ?thesis by simp
  next
    case (RegistryMove n out)
    with step obtain w where w: "conc_exec env (Move n out) (registry v) = Some w" "u = v\<lparr>registry := w\<rparr>"
      by (auto simp del: conc_exec.simps)
    have "goes_on (past env s fs) (past env s (fs @ [Move n out])) (registry v) w"
      using goes_on_move [OF lin room w(1)] run_past_mono [OF run] by blast
    then have "handler_ok (past env s (fs @ [Move n out])) w h" if "h \<in> set (handlers v)" for h
      using goes_on_handler inv that unfolding service_inv_def by blast
    with conc_snoc [OF run w(1)] w(2) have "service_inv env s d (fs @ [Move n out]) u"
      by (simp add: service_inv_def)
    then show ?thesis by (intro exI [of _ "[Move n out]"]) simp
  next
    case (Report k now rep)
    then have o: "on_handler k (on_watch (receive_report now rep)) v = Some u" using step by simp
    show ?thesis by (rule service_inv_on_handler [OF inv o]) (erule (1) on_watch_ok, rule receive_report_ok)
  next
    case (InboundEnds k)
    then have o: "on_handler k (on_watch inbound_ends) v = Some u" using step by simp
    show ?thesis by (rule service_inv_on_handler [OF inv o]) (erule (1) on_watch_ok, blast dest: inbound_ends_ok)
  next
    case (Deliver k)
    then have o: "on_handler k (on_watch deliver) v = Some u" using step by simp
    show ?thesis by (rule service_inv_on_handler [OF inv o]) (erule (1) on_watch_ok, blast dest: deliver_ok)
  next
    case (Hangup k)
    then have o: "on_handler k (on_watch hangup) v = Some u" using step by simp
    show ?thesis by (rule service_inv_on_handler [OF inv o]) (erule (1) on_watch_ok, blast dest: hangup_ok)
  qed
qed

lemma service_inv_run:
  assumes "service_run env (service_start (inner s) d) es v" and "room s (length es)"
  shows "\<exists>fs. service_inv env s d fs v \<and> length fs \<le> length es"
  using assms
proof (induction "service_start (inner s) d" es v rule: service_run.induct)
  case service_Nil
  show ?case by (rule exI [of _ "[]"]) (simp add: service_inv_def service_start_def conc_Nil)
next
  case (service_snoc es u e x)
  then obtain fs where fs: "service_inv env s d fs u" "length fs \<le> length es" by (auto simp: room_def)
  moreover have "room s (length fs)" using fs(2) service_snoc.prems by (simp add: room_def)
  ultimately obtain gs where "service_inv env s d (fs @ gs) x" "length gs \<le> 1"
    using service_inv_step service_snoc.hyps(3) by blast
  with fs(2) show ?case by (intro exI [of _ "fs @ gs"]) simp
qed


lemma service_run_inv:
  assumes "service_run env (service_start i d) es v" and "unat (policy_seq i) + length es < 2 ^ 64"
  shows "\<exists>(s :: reg_sys) fs. service_inv env s d fs v \<and> length fs \<le> length es \<and> inner s = i"
proof -
  let ?s = "\<lparr>files = Map.empty, faults = [], inner = i\<rparr> :: reg_sys"
  from service_inv_run [of env ?s d es v] assms show ?thesis by (fastforce simp: room_def)
qed

section \<open>What a handler waits for\<close>

text \<open>The reply of a call is of the kind its handler expects, whatever happens in between.\<close>

datatype reply_kind = IsRegistered | IsBeat | IsSequence | IsPolicy | IsDevices | IsDevice

fun kind_of_reply :: "reg_reply \<Rightarrow> reply_kind" where
  "kind_of_reply (Registered _) = IsRegistered"
| "kind_of_reply (Beat _) = IsBeat"
| "kind_of_reply (Sequence _) = IsSequence"
| "kind_of_reply (PolicyIs _) = IsPolicy"
| "kind_of_reply (DeviceList _) = IsDevices"
| "kind_of_reply (DeviceIs _) = IsDevice"

fun kind_of_call :: "reg_call \<Rightarrow> reply_kind" where
  "kind_of_call (Call (Register now did hw sw rp rsw)) = IsRegistered"
| "kind_of_call (Call (Heartbeat now u)) = IsBeat"
| "kind_of_call (Call (SetPolicy p)) = IsSequence"
| "kind_of_call (Call (SetDesiredSoftware v)) = IsSequence"
| "kind_of_call CurrentPolicy = IsPolicy"
| "kind_of_call Devices = IsDevices"
| "kind_of_call (GetDevice did) = IsDevice"

definition task_kind :: "reg_task \<Rightarrow> reply_kind option" where
  "task_kind t = (case t of Waiting c \<Rightarrow> Some (kind_of_call c) | _ \<Rightarrow> map_option kind_of_reply (reply_of t))"

lemma locked_kind: "kind_of_reply (fst (locked env c i)) = kind_of_call c"
  by (cases "(env, c, i)" rule: locked.cases) (auto simp: Let_def split: option.splits)

lemma task_step_kind:
  assumes "task_step env out t (i, d) = Some (t', i', d')"
  shows "task_kind t' = task_kind t"
  using task_step_reply [OF assms] locked_kind [of env _ i]
  by (cases t; cases t') (auto simp: task_kind_def)

fun awaits :: "handler \<Rightarrow> (nat \<times> reply_kind) option" where
  "awaits (Registering n) = Some (n, IsRegistered)"
| "awaits (RegisterReads rec n) = Some (n, IsPolicy)"
| "awaits (Beating n) = Some (n, IsBeat)"
| "awaits (Pushing ver n) = Some (n, IsSequence)"
| "awaits (Listing n) = Some (n, IsDevices)"
| "awaits (Probing n) = Some (n, IsDevices)"
| "awaits (Watching h) = (case w_pc h of ReportBeats rep n \<Rightarrow> Some (n, IsBeat) | ReportReads rep n \<Rightarrow> Some (n, IsPolicy) | _ \<Rightarrow> None)"
| "awaits (Answered r) = None"

definition shape_ok :: "conc \<Rightarrow> handler \<Rightarrow> bool" where
  "shape_ok w h \<longleftrightarrow> (case awaits h of None \<Rightarrow> True | Some (n, K) \<Rightarrow> n < length (calls w) \<and> task_kind (calls w ! n) = Some K)
     \<and> (case h of Watching x \<Rightarrow> length (w_queue x) \<le> channel_capacity | _ \<Rightarrow> True)"

definition same_kinds :: "conc \<Rightarrow> conc \<Rightarrow> bool" where
  "same_kinds w v \<longleftrightarrow> length (calls w) \<le> length (calls v)
     \<and> (\<forall>n < length (calls w). task_kind (calls v ! n) = task_kind (calls w ! n))"

lemma same_kinds_refl [simp]: "same_kinds w w"
  by (simp add: same_kinds_def)

lemma same_kinds_call [simp]: "same_kinds w (snd (call_registry c w))"
  by (simp add: same_kinds_def nth_append)

lemma same_kinds_move:
  assumes "conc_exec env (Move n out) w = Some v"
  shows "same_kinds w v"
  using assms task_step_kind by (fastforce simp: same_kinds_def nth_list_update split: if_splits option.splits)

lemma shape_ok_kinds: "same_kinds w v \<Longrightarrow> shape_ok w h \<Longrightarrow> shape_ok v h"
  by (auto simp: shape_ok_def same_kinds_def split: option.splits)

lemma fresh_kind: "task_kind ((calls w @ [Waiting c]) ! length (calls w)) = Some (kind_of_call c)"
  by (simp add: task_kind_def)

lemma start_handler_shape: "start_handler now rq w = (h, v) \<Longrightarrow> shape_ok v h \<and> same_kinds w v"
  by (cases "(now, rq, w)" rule: start_handler.cases)
    (auto simp: shape_ok_def apfst_def map_prod_def watch_start_def task_kind_def register_op_def heartbeat_op_def Let_def
      split: prod.splits)

lemma advance_shape:
  assumes "advance now h w = Some (h', v)" and "shape_ok w h"
  shows "shape_ok v h' \<and> same_kinds w v"
  using assms
  by (cases "(now, h, w)" rule: advance.cases)
    (auto simp: shape_ok_def apfst_def map_prod_def watch_advance_def task_kind_def
      split: prod.splits option.splits reg_reply.splits watch_pc.splits if_splits)

lemma stream_shape:
  assumes "on_watch f h w = Some (h', v)" and "shape_ok w h" and "f \<in> {receive_report now rep, inbound_ends, deliver, hangup}"
  shows "shape_ok v h' \<and> same_kinds w v"
  using assms
  by (auto simp: on_watch_def shape_ok_def apfst_def map_prod_def receive_report_def inbound_ends_def deliver_def hangup_def
      task_kind_def report_op_def split: handler.splits if_splits list.splits watch_pc.splits prod.splits)


lemma shape_handlers:
  assumes "same_kinds w v" and "shape_ok v h" and "\<forall>g \<in> set gs. shape_ok w g" and "set hs \<subseteq> insert h (set gs)"
  shows "\<forall>g \<in> set hs. shape_ok v g"
  using assms shape_ok_kinds by blast

lemma shape_on_handler:
  assumes "on_handler k f v = Some u" and "\<forall>g \<in> set (handlers v). shape_ok (registry v) g"
    and "\<And>h h' w. shape_ok (registry v) h \<Longrightarrow> f h (registry v) = Some (h', w) \<Longrightarrow> shape_ok w h' \<and> same_kinds (registry v) w"
  shows "\<forall>g \<in> set (handlers u). shape_ok (registry u) g"
proof -
  from assms(1) obtain h w where k: "k < length (handlers v)" "f (handlers v ! k) (registry v) = Some (h, w)"
    and u: "u = \<lparr>registry = w, handlers = (handlers v)[k := h]\<rparr>" by (auto simp: on_handler_def split: if_splits option.splits)
  have "shape_ok w h" "same_kinds (registry v) w" using assms(3) [OF _ k(2)] assms(2) k(1) by simp_all
  from shape_handlers [OF this(2,1) assms(2)] u show ?thesis
    using set_update_subset_insert [of "handlers v" k h] by simp
qed

lemma shape_run:
  assumes "service_run env (service_start i d) es v"
  shows "\<forall>g \<in> set (handlers v). shape_ok (registry v) g"
  using assms
proof (induction "service_start i d" es v rule: service_run.induct)
  case service_Nil
  show ?case by (simp add: service_start_def)
next
  case (service_snoc es v e u)
  note step = service_snoc.hyps(3) and IH = service_snoc.hyps(2)
  show ?case
  proof (cases e)
    case (Arrive now rq)
    with step obtain h w where "start_handler now rq (registry v) = (h, w)" "u = \<lparr>registry = w, handlers = handlers v @ [h]\<rparr>"
      by (auto split: prod.splits)
    with start_handler_shape [of now rq "registry v" h w] shape_handlers [OF _ _ IH, of w h "handlers v @ [h]"]
    show ?thesis by simp
  next
    case (RegistryMove n out)
    with step obtain w where "conc_exec env (Move n out) (registry v) = Some w" "u = v\<lparr>registry := w\<rparr>"
      by (auto simp del: conc_exec.simps)
    with IH shape_ok_kinds [OF same_kinds_move] show ?thesis by (simp del: conc_exec.simps)
  next
    case (Advance k now)
    with step have "on_handler k (advance now) v = Some u" by simp
    then show ?thesis using IH by (rule shape_on_handler) (erule (1) advance_shape)
  next
    case (Report k now rep)
    with step have "on_handler k (on_watch (receive_report now rep)) v = Some u" by simp
    then show ?thesis using IH by (rule shape_on_handler) (erule (1) stream_shape, blast)
  next
    case (InboundEnds k)
    with step have "on_handler k (on_watch inbound_ends) v = Some u" by simp
    then show ?thesis using IH by (rule shape_on_handler) (erule (1) stream_shape, blast)
  next
    case (Deliver k)
    with step have "on_handler k (on_watch deliver) v = Some u" by simp
    then show ?thesis using IH by (rule shape_on_handler) (erule (1) stream_shape, blast)
  next
    case (Hangup k)
    with step have "on_handler k (on_watch hangup) v = Some u" by simp
    then show ?thesis using IH by (rule shape_on_handler) (erule (1) stream_shape, blast)
  qed
qed

text \<open>A handler that awaits a call goes on once the call has replied, and until then the call can.\<close>

lemma awaits_advance:
  assumes "awaits h = Some (n, K)" and "awaited n w = Some r" and "kind_of_reply r = K"
  shows "\<exists>x. advance now h w = Some x"
proof -
  have r: "(K = IsRegistered \<longrightarrow> (\<exists>x. r = Registered x)) \<and> (K = IsBeat \<longrightarrow> (\<exists>x. r = Beat x))
     \<and> (K = IsSequence \<longrightarrow> (\<exists>x. r = Sequence x)) \<and> (K = IsPolicy \<longrightarrow> (\<exists>x y. r = PolicyIs (x, y)))
     \<and> (K = IsDevices \<longrightarrow> (\<exists>x. r = DeviceList x))"
    using assms(3) by (cases r) auto
  show ?thesis
  proof (cases h)
    case (Watching x)
    with assms(1,2) r show ?thesis
      by (auto simp: watch_advance_def split: watch_pc.splits prod.splits)
  qed (use assms(1,2) r in auto)
qed

lemma awaits_progress:
  assumes "shape_ok (registry v) (handlers v ! k)" and "k < length (handlers v)" and a: "awaits (handlers v ! k) = Some (n, K)"
  shows "(\<exists>u. service_exec env (Advance k now) v = Some u) \<or> (\<exists>u. service_exec env (RegistryMove n out) v = Some u)"
proof -
  have n: "n < length (calls (registry v))" "task_kind (calls (registry v) ! n) = Some K"
    using assms(1) a by (auto simp: shape_ok_def)
  show ?thesis
  proof (cases "\<exists>r. calls (registry v) ! n = Replied r")
    case True
    then obtain r where "awaited n (registry v) = Some r" "kind_of_reply r = K" using n by (auto simp: awaited_def task_kind_def)
    from awaits_advance [OF a this] obtain x where "advance now (handlers v ! k) (registry v) = Some x" by blast
    then show ?thesis using assms(2) by (cases x) (simp add: on_handler_def)
  next
    case False
    then obtain x where "task_step env out (calls (registry v) ! n) (shared (registry v), cdisk (registry v)) = Some x"
      using task_step_enabled by blast
    with n(1) show ?thesis by (auto split: prod.splits)
  qed
qed

section \<open>Properties\<close>

text \<open>The desired state a device has been told: a policy with its sequence number.\<close>

fun told :: "handler \<Rightarrow> (u64 \<times> Policy option) list" where
  "told (Answered (HeartbeatReply (Inr r))) = [(hr_desired_seq r, hr_policy r)]"
| "told (Watching h) = updates (w_delivered h @ w_queue h)"
| "told _ = []"

lemma told_past:
  assumes "handler_ok P w h" and "x \<in> set (told h)"
  shows "\<exists>i. P i \<and> x = (policy_seq i, in_policy i)"
  using assms
proof (cases h rule: told.cases)
  case (2 x')
  with assms show ?thesis by (auto simp: watch_ok_def sent_def dest: answered_update)
qed auto

text \<open>
  All devices are told the same. However registrations, heartbeats, watch streams, operator pushes
  and their saves interleave: two answers with the same sequence number, on whatever stream or
  request, carry the same policy, none is ahead of the control plane, and one that is level
  with it carries its policy.
\<close>

theorem service_answers_agree:
  assumes "service_run env (service_start i d) es v" and "unat (policy_seq i) + length es < 2 ^ 64"
    and "g \<in> set (handlers v)" and "h \<in> set (handlers v)" and "(sq, p) \<in> set (told g)" and "(sq, q) \<in> set (told h)"
  shows "p = q \<and> sq \<le> policy_seq (shared (registry v))
     \<and> (sq = policy_seq (shared (registry v)) \<longrightarrow> p = in_policy (shared (registry v)))"
proof -
  obtain s :: reg_sys and fs where fs: "service_inv env s d fs v" "length fs \<le> length es" "inner s = i"
    using service_run_inv [OF assms(1,2)] by blast
  then have room: "room s (length fs)" using assms(2) by (simp add: room_def)
  have lin: "lin_inv env s fs (registry v)" using fs(1) lin_inv_run by (auto simp: service_inv_def)
  obtain j where j: "past env s fs j" "sq = policy_seq j" "p = in_policy j"
    using told_past [OF _ assms(5)] fs(1) assms(3) by (auto simp: service_inv_def)
  obtain l where l: "past env s fs l" "sq = policy_seq l" "q = in_policy l"
    using told_past [OF _ assms(6)] fs(1) assms(4) by (auto simp: service_inv_def)
  show ?thesis
    using past_determined [OF j(1) l(1) room] past_le_shared [OF lin j(1) room]
      past_determined [OF j(1) past_shared [OF lin] room] j(2,3) l(2,3) by simp
qed

text \<open>
  C18. A watch stream answers its reports one by one and in order, holds at most 32 commands, and never
  goes back: the sequence numbers of its policy updates do not decrease. An update is newer
  than what the report said was applied and has another version; everything else is a no-op
  that repeats the number of the report.
\<close>

theorem watch_stream_in_order:
  assumes "service_run env (service_start i d) es v" and "unat (policy_seq i) + length es < 2 ^ 64"
    and "Watching h \<in> set (handlers v)"
  defines "cmds \<equiv> w_delivered h @ w_queue h"
  shows "length (w_queue h) \<le> 32 \<and> sorted (map fst (updates cmds)) \<and> length cmds \<le> length (w_reports h)
     \<and> (\<forall>k < length cmds. case cc_command (cmds ! k) of
          Some (PolicyUpdate (Some p)) \<Rightarrow> er_applied_seq (w_reports h ! k) < cc_seq (cmds ! k)
            \<and> parse_u64 (er_reported_policy_version (w_reports h ! k)) \<noteq> Some (version p)
        | Some NoopCommand \<Rightarrow> cc_seq (cmds ! k) = er_applied_seq (w_reports h ! k)
        | _ \<Rightarrow> False)"
proof -
  obtain s :: reg_sys and fs where "service_inv env s d fs v" using service_run_inv [OF assms(1,2)] by blast
  then have ok: "watch_ok (past env s fs) (registry v) h" using assms(3) by (auto simp: service_inv_def)
  then obtain rs ls where rs: "w_reports h = rs @ ls" "list_all2 (answers (past env s fs)) rs cmds"
    by (auto simp: watch_ok_def sent_def cmds_def)
  then have len: "length rs = length cmds" by (simp add: list_all2_lengthD)
  have "case cc_command (cmds ! k) of
          Some (PolicyUpdate (Some p)) \<Rightarrow> er_applied_seq (w_reports h ! k) < cc_seq (cmds ! k)
            \<and> parse_u64 (er_reported_policy_version (w_reports h ! k)) \<noteq> Some (version p)
        | Some NoopCommand \<Rightarrow> cc_seq (cmds ! k) = er_applied_seq (w_reports h ! k)
        | _ \<Rightarrow> False" if "k < length cmds" for k
  proof -
    have "answers (past env s fs) (w_reports h ! k) (cmds ! k)"
      using rs len that by (simp add: list_all2_conv_all_nth nth_append)
    then obtain j :: Inner where "cmds ! k = watch_command (w_reports h ! k) (in_policy j, policy_seq j)"
      unfolding answers_def by blast
    then show ?thesis by (cases "in_policy j") (auto simp: watch_command_def)
  qed
  with ok rs(1) len show ?thesis by (auto simp: watch_ok_def channel_capacity_def sent_def cmds_def)
qed

text \<open>
  A handler waits only for its registry call or its client: at any moment of any interleaving one that
  is not yet answered can go on, or awaits a call of the registry that has not replied and has
  its next step to do, or is a watch task that waits for the next report or for room in a full
  channel. That the calls of the registry do reply, with its lock, is shown in \<open>Registry_Lock\<close>.
\<close>

theorem handlers_progress:
  assumes "service_run env (service_start i d) es v" and "k < length (handlers v)"
  shows "(\<exists>r. handlers v ! k = Answered r)
     \<or> (\<exists>u. service_exec env (Advance k now) v = Some u)
     \<or> (\<exists>n K u. awaits (handlers v ! k) = Some (n, K) \<and> service_exec env (RegistryMove n out) v = Some u)
     \<or> (\<exists>h. handlers v ! k = Watching h \<and>
          (w_pc h = WatchDone
           \<or> w_pc h = Receiving \<and> (\<exists>u. service_exec env (Report k now rep) v = Some u)
           \<or> length (w_queue h) = 32 \<and> (\<exists>u. service_exec env (Deliver k) v = Some u)))"
proof -
  have shape: "shape_ok (registry v) (handlers v ! k)" using shape_run [OF assms(1)] assms(2) by simp
  show ?thesis
  proof (cases "awaits (handlers v ! k)")
    case (Some a)
    then obtain n K where "awaits (handlers v ! k) = Some (n, K)" by (cases a) simp
    with awaits_progress [OF shape assms(2) this, of env now out] show ?thesis by blast
  next
    case None
    show ?thesis
    proof (cases "handlers v ! k")
      case (Watching h)
      have len: "length (w_queue h) \<le> 32" using shape Watching by (simp add: shape_ok_def channel_capacity_def)
      from None Watching consider "w_pc h = Receiving" | "w_pc h = WatchDone" | rep' cmd where "w_pc h = Sending rep' cmd"
        by (cases "w_pc h") auto
      then show ?thesis
      proof cases
        case 1
        then show ?thesis using assms(2) Watching by (simp add: on_handler_def on_watch_def receive_report_def split: prod.splits)
      next
        case 3
        have "\<exists>u. service_exec env (Advance k now) v = Some u" if "\<not> w_open h \<or> length (w_queue h) < 32"
          using 3 that assms(2) Watching by (auto simp: on_handler_def watch_advance_def channel_capacity_def)
        moreover have "\<exists>u. service_exec env (Deliver k) v = Some u" if "w_open h" "length (w_queue h) = 32"
          using that assms(2) Watching by (cases "w_queue h") (auto simp: on_handler_def on_watch_def deliver_def)
        ultimately show ?thesis using len Watching by (metis le_neq_implies_less)
      qed (use Watching in simp)
    qed (use None in simp_all)
  qed
qed

text \<open>
  A registration reads twice: when a push comes between, the device is told the version that was
  desired before together with the policy that is desired now. Agents drop this answer.
\<close>

definition torn_schedule :: "u64 \<Rightarrow> RegisterRequest \<Rightarrow> PolicyBody \<Rightarrow> service_event list" where
  "torn_schedule now r b = [Arrive now (RegisterRq r), Arrive now (HttpRq (PostPolicy b)),
     RegistryMove 0 (Works 0), RegistryMove 0 (Works 0), RegistryMove 1 (Works 0), RegistryMove 1 (Works 0),
     Advance 0 now, RegistryMove 2 (Works 0), Advance 0 now]"


inductive_simps service_run_Nil: "service_run env v [] u"
inductive_simps service_run_snoc: "service_run env v (es @ [e]) u"

interpretation sr: stepped_run "service_exec env" "service_run env"
  by unfold_locales (auto simp: service_run_Nil service_run_snoc)

theorem register_answer_torn:
  assumes "persist_path i = None" and "desired_version i \<noteq> pb_version b"
  shows "\<exists>v a. service_run env (service_start i d) (torn_schedule now r b) v \<and> handlers v ! 0 = Answered (RegisterReply a)
     \<and> rr_desired_policy_version a = desired_version i \<and> map_option version (rr_policy a) = Some (pb_version b)"
proof -
  have "map_option version (in_policy i) \<noteq> Some (pb_version b)"
    using assms(2) by (cases "in_policy i") auto
  with assms(1) show ?thesis unfolding sr.iff_exec_all
    by (simp add: torn_schedule_def service_start_def conc_start_def call_registry_def register_op_def on_handler_def
        awaited_def register_reply_def body_policy_def Let_def)
qed

end
