(* ===== verification/Fleet_Concurrent.thy ===== *)
theory Fleet_Concurrent
  imports Service_Concurrent Edge_Agent
begin

text \<open>
  Devices against the concurrent control plane: what agents do (\<open>crates/edge-agent/src/agent.rs\<close>)
  with the answers and commands that the handlers of \<open>Service_Concurrent\<close> have given. Between
  the two sides messages may be lost, repeated, delayed and reordered, and the disk of the
  device may fail at any operation.
\<close>

section \<open>Messages\<close>

datatype message = HeartbeatMsg HeartbeatResponse | CommandMsg CloudCommand

fun receive :: "Persisted json \<Rightarrow> message \<Rightarrow> 'z agent_sys_scheme \<Rightarrow> 'z agent_sys_scheme" where
  "receive js (HeartbeatMsg r) a = snd (handle_heartbeat js r a)"
| "receive js (CommandMsg c) a = handle_command js c a"

text \<open>The messages of a device, each with the outcomes of the I/O operations it leads to.\<close>

definition receive_all :: "Persisted json \<Rightarrow> (message \<times> io_outcome list) list \<Rightarrow> agent_sys \<Rightarrow> agent_sys" where
  "receive_all js ms a = fold (\<lambda>(m, G) b. receive js m (b\<lparr>faults := G\<rparr>)) ms a"

text \<open>What has left the control plane.\<close>

fun sent_by :: "service \<Rightarrow> message \<Rightarrow> bool" where
  "sent_by v (HeartbeatMsg r) \<longleftrightarrow> Answered (HeartbeatReply (Inr r)) \<in> set (handlers v)"
| "sent_by v (CommandMsg c) \<longleftrightarrow> (\<exists>h. Watching h \<in> set (handlers v) \<and> c \<in> set (w_delivered h))"

section \<open>Where a device's state comes from\<close>

fun said :: "message \<Rightarrow> (u64 \<times> Policy option) list" where
  "said (HeartbeatMsg r) = [(hr_desired_seq r, hr_policy r)]"
| "said (CommandMsg c) = update_of c"

lemma sent_told: "sent_by v m \<Longrightarrow> x \<in> set (said m) \<Longrightarrow> \<exists>h \<in> set (handlers v). x \<in> set (told h)"
  by (cases m) (force simp: updates_def)+

definition stamp :: "ReportedState \<Rightarrow> u64 \<times> u64" where
  "stamp r = (policy_version r, applied_seq r)"

lemma reconcile_stamp:
  "stamp (reconcile d r) = stamp r \<or> stamp (reconcile d r) = (version (policy d), seq d)"
  by (simp add: stamp_def reconcile_eq)

lemma local_policy_version [simp]: "version (local_policy q p) = version p"
  by (simp add: local_policy_def)

text \<open>One message changes the reported state to what it says, or not at all.\<close>

lemma receive_stamp:
  "stamp (reported_of (receive js m a)) = stamp (reported_of a)
   \<or> (\<exists>sq p. (sq, Some p) \<in> set (said m) \<and> stamp (reported_of (receive js m a)) = (version p, max sq 1))"
proof (cases m)
  case (HeartbeatMsg r)
  let ?b = "a\<lparr>m_control_plane_connected := 1\<rparr>"
  show ?thesis
  proof (cases "hr_has_policy r \<and> hr_policy r \<noteq> None")
    case True
    then obtain p where p: "hr_policy r = Some p" by blast
    let ?d = "\<lparr>seq = max (hr_desired_seq r) 1, policy = local_policy (last_good_policy (store a)) p,
        d_software_version = hr_desired_software_version r\<rparr>"
    have "receive js m a = snd (apply_desired js ?d ?b)"
      using True p HeartbeatMsg by (simp add: handle_heartbeat_def act_defs)
    then show ?thesis
      using HeartbeatMsg p ad.step_rep [of js ?d ?b] reconcile_stamp [of ?d "reported_of a"] by auto
  qed (use HeartbeatMsg in \<open>auto simp: handle_heartbeat_def act_defs\<close>)
next
  case (CommandMsg c)
  show ?thesis
  proof (cases "\<exists>p. cc_command c = Some (PolicyUpdate (Some p))")
    case True
    then obtain p where p: "cc_command c = Some (PolicyUpdate (Some p))" by blast
    let ?d = "\<lparr>seq = max (cc_seq c) 1, policy = p, d_software_version = []\<rparr>"
    show ?thesis
      using CommandMsg p wa.step_rep [of js ?d a] reconcile_stamp [of ?d "reported_of a"]
      by (auto simp: handle_command_def update_of_def)
  qed (use CommandMsg in \<open>auto simp: handle_command_def split: option.splits Command.splits\<close>)
qed

lemma receive_all_stamp:
  "stamp (reported_of (receive_all js ms a)) = stamp (reported_of a)
   \<or> (\<exists>m \<in> fst ` set ms. \<exists>sq p. (sq, Some p) \<in> set (said m) \<and> stamp (reported_of (receive_all js ms a)) = (version p, max sq 1))"
proof (induction ms arbitrary: a)
  case (Cons x ms)
  obtain m G where x: "x = (m, G)" by fastforce
  let ?b = "receive js m (a\<lparr>faults := G\<rparr>)"
  have eq: "receive_all js (x # ms) a = receive_all js ms ?b" and m: "m \<in> fst ` set (x # ms)"
    by (simp_all add: receive_all_def x)
  show ?case
  proof (cases "stamp (reported_of (receive_all js ms ?b)) = stamp (reported_of ?b)")
    case True
    have "stamp (reported_of ?b) = stamp (reported_of a) \<or> (\<exists>sq p. (sq, Some p) \<in> set (said m) \<and> stamp (reported_of ?b) = (version p, max sq 1))"
      using receive_stamp [of js m "a\<lparr>faults := G\<rparr>"] by simp
    with True eq m show ?thesis by metis
  next
    case False
    with Cons.IH [of ?b] eq show ?thesis by (metis image_insert insertCI list.simps(15))
  qed
qed (simp add: receive_all_def)

text \<open>A device that has applied something has the policy the registry had under that sequence number.\<close>

lemma received_past:
  assumes inv: "service_inv env s d fs v" and room: "room s (length fs)"
    and zero: "policy_seq (inner s) = 0 \<longrightarrow> in_policy (inner s) = None"
    and fresh: "applied_seq (reported_of a) = 0" and sent: "\<forall>m \<in> fst ` set ms. sent_by v m"
    and at: "applied_seq (reported_of (receive_all js ms a)) = sq" "0 < sq"
  shows "\<exists>i p. past env s fs i \<and> policy_seq i = sq \<and> in_policy i = Some p
     \<and> policy_version (reported_of (receive_all js ms a)) = version p"
proof -
  have start: "past env s fs (inner s)" by (auto simp: past_def intro: exI [of _ 0])
  from receive_all_stamp [of js ms a] fresh at obtain m q p where m: "m \<in> fst ` set ms" "(q, Some p) \<in> set (said m)"
    "policy_version (reported_of (receive_all js ms a)) = version p" "sq = max q 1"
    by (auto simp: stamp_def)
  obtain h where h: "h \<in> set (handlers v)" "(q, Some p) \<in> set (told h)" using sent_told sent m(1,2) by blast
  obtain j where j: "past env s fs j" "q = policy_seq j" "Some p = in_policy j"
    using told_past [OF _ h(2)] inv h(1) by (auto simp: service_inv_def)
  have "q \<noteq> 0"
    using past_determined [OF j(1) start room] past_start_le [OF j(1) room] j(2,3) zero by auto
  then have "1 \<le> q" using inc_le [of 0 q] by (simp add: word_gt_0)
  then have "sq = q" using m(4) by (simp add: max_def)
  with j m(3) show ?thesis by (intro exI [of _ j] exI [of _ p]) simp
qed

section \<open>Properties\<close>

text \<open>
  C6. Devices never disagree, however the control plane's requests interleave and whatever the network
  and the disks of the devices do: two devices that report the same applied sequence number
  report the same policy version, none is ahead of the control plane, and one that is level
  with it has the desired version.
\<close>

theorem devices_never_disagree:
  assumes "service_run env (service_start i d) es v" and "unat (policy_seq i) + length es < 2 ^ 64"
    and "policy_seq i = 0 \<longrightarrow> in_policy i = None"
    and "applied_seq (reported_of a) = 0" and "applied_seq (reported_of b) = 0"
    and "\<forall>m \<in> fst ` set ms. sent_by v m" and "\<forall>m \<in> fst ` set ns. sent_by v m"
    and "applied_seq (reported_of (receive_all js ms a)) = sq" and "applied_seq (reported_of (receive_all js ns b)) = sq"
    and "0 < sq"
  shows "policy_version (reported_of (receive_all js ms a)) = policy_version (reported_of (receive_all js ns b))
     \<and> sq \<le> policy_seq (shared (registry v))
     \<and> (sq = policy_seq (shared (registry v)) \<longrightarrow>
          map_option version (in_policy (shared (registry v))) = Some (policy_version (reported_of (receive_all js ms a))))"
proof -
  obtain s :: reg_sys and fs where fs: "service_inv env s d fs v" "length fs \<le> length es" "inner s = i"
    using service_run_inv [OF assms(1,2)] by blast
  have room: "room s (length fs)" using assms(2) fs(2,3) by (simp add: room_def)
  have lin: "lin_inv env s fs (registry v)" using fs(1) lin_inv_run by (auto simp: service_inv_def)
  note dev = received_past [OF fs(1) room assms(3) [folded fs(3)]]
  obtain j p where j: "past env s fs j" "policy_seq j = sq" "in_policy j = Some p"
    "policy_version (reported_of (receive_all js ms a)) = version p" using dev [OF assms(4,6,8,10)] by blast
  obtain l q where l: "past env s fs l" "policy_seq l = sq" "in_policy l = Some q"
    "policy_version (reported_of (receive_all js ns b)) = version q" using dev [OF assms(5,7,9,10)] by blast
  have "in_policy (shared (registry v)) = Some p" if "sq = policy_seq (shared (registry v))"
    using past_determined [OF j(1) past_shared [OF lin] room] j(2,3) that by simp
  moreover have "p = q" using past_determined [OF j(1) l(1) room] j(2,3) l(2,3) by simp
  ultimately show ?thesis using past_le_shared [OF lin j(1) room] j(2,4) l(4) by simp
qed

end
