(* ===== verification/Edge_Process.thy ===== *)
theory Edge_Process
  imports Edge_Main
begin

text \<open>
  The life of the two edge processes, from the end of their start-up to their exit
  (\<open>crates/edge-proxy/src/main.rs\<close>, \<open>crates/edge-agent/src/main.rs\<close>): \<open>main\<close>, the serving task and the
  connection tasks of \<open>Edge_Proxy\<close> as interleaved steps. When \<open>main\<close> returns, the runtime goes
  away with every task that has not ended.
\<close>

section \<open>The processes\<close>

text \<open>
  \<open>main\<close> waits, or has seen the signal and sleeps its second, or has returned. The serving task is
  about to bind its listener, runs, or has ended with a result.
\<close>

datatype phase = Up | Draining | Ended "main_error + unit"

record 'm process =
  ph :: phase
  px :: "'m proxy"
  serving :: "serve_end option"
  bound :: bool

definition process_start :: "'m server \<Rightarrow> 'm process" where
  "process_start s = \<lparr>ph = Up, px = proxy_start s, serving = None, bound = False\<rparr>"

text \<open>
  What can happen: the listener is bound or cannot be, a connection comes in or a connection task makes
  a step, accepting fails, the
  wait for the signal ends (with an error if false), the serving task sees the shutdown flag, \<open>main\<close> sees that the serving task has
  ended, or the sleep of a second is over.
\<close>

datatype process_event =
    Binds
  | BindFails io_error
  | Connect
  | TaskStep nat outcome
  | AcceptFails io_error
  | Signal bool
  | SeesShutdown
  | JoinsServe
  | SleepOver

definition on_proxy :: "'m semaphore \<Rightarrow> proxy_event \<Rightarrow> ('m, 'z) process_scheme \<Rightarrow> ('m, 'z) process_scheme option" where
  "on_proxy S e f = map_option (\<lambda>w. f\<lparr>px := w\<rparr>) (proxy_exec S e (px f))"

text \<open>The steps of the serving task and of the connections, the same in both binaries.\<close>

fun dataplane_exec :: "'m semaphore \<Rightarrow> process_event \<Rightarrow> ('m, 'z) process_scheme \<Rightarrow> ('m, 'z) process_scheme option" where
  "dataplane_exec S Binds f = (if \<not> bound f \<and> serving f = None then Some (f\<lparr>bound := True\<rparr>) else None)"
| "dataplane_exec S (BindFails e) f =
     (if \<not> bound f \<and> serving f = None then Some (f\<lparr>serving := Some (ServeErr e)\<rparr>) else None)"
| "dataplane_exec S Connect f = (if bound f then on_proxy S Accept f else None)"
| "dataplane_exec S (TaskStep i out) f = on_proxy S (Task i out) f"
| "dataplane_exec S (AcceptFails e) f =
     (if bound f then map_option (\<lambda>g. g\<lparr>serving := Some (ServeErr e)\<rparr>) (on_proxy S AcceptError f) else None)"
| "dataplane_exec S SeesShutdown f =
     (if bound f \<and> ph f = Draining then map_option (\<lambda>g. g\<lparr>serving := Some ServeOk\<rparr>) (on_proxy S Shutdown f) else None)"
| "dataplane_exec S _ f = None"

text \<open>
  The forwarder: \<open>main\<close> waits for the signal or for the serving task, whichever comes first; an
  error of the first wait counts as the signal.
\<close>

fun forwarder_exec :: "'m semaphore \<Rightarrow> process_event \<Rightarrow> 'm process \<Rightarrow> 'm process option" where
  "forwarder_exec S e f = (case ph f of
       Ended _ \<Rightarrow> None
     | Up \<Rightarrow> (case e of
           Signal _ \<Rightarrow> Some (f\<lparr>ph := Draining\<rparr>)
         | JoinsServe \<Rightarrow> map_option (\<lambda>r. f\<lparr>ph := Ended (map_sum id (\<lambda>_. ()) (edge_proxy_exit (ServeEnds r)))\<rparr>) (serving f)
         | _ \<Rightarrow> dataplane_exec S e f)
     | Draining \<Rightarrow> (case e of
           SleepOver \<Rightarrow> Some (f\<lparr>ph := Ended (Inr ())\<rparr>)
         | _ \<Rightarrow> dataplane_exec S e f))"

text \<open>
  The appliance: \<open>main\<close> waits for the signal only, an error of that wait ends it, and nobody looks
  at the serving task. After the signal it stops the agent, and after the second what is left
  of the serving task.
\<close>

record 'm appliance_process = "'m process" +
  agent_on :: bool

definition appliance_start :: "'m server \<Rightarrow> 'm appliance_process" where
  "appliance_start s = \<lparr>ph = Up, px = proxy_start s, serving = None, bound = False, agent_on = True\<rparr>"

fun appliance_exec :: "'m semaphore \<Rightarrow> process_event \<Rightarrow> 'm appliance_process \<Rightarrow> 'm appliance_process option" where
  "appliance_exec S e f = (case ph f of
       Ended _ \<Rightarrow> None
     | Up \<Rightarrow> (case e of
           Signal ok \<Rightarrow> Some (if ok then f\<lparr>ph := Draining, agent_on := False\<rparr> else f\<lparr>ph := Ended (Inl SignalWait)\<rparr>)
         | _ \<Rightarrow> dataplane_exec S e f)
     | Draining \<Rightarrow> (case e of
           SleepOver \<Rightarrow> Some (f\<lparr>ph := Ended (Inr ())\<rparr>)
         | _ \<Rightarrow> dataplane_exec S e f))"

section \<open>The dataplane inside a process\<close>

fun proxied :: "process_event \<Rightarrow> proxy_event list" where
  "proxied Connect = [Accept]"
| "proxied (TaskStep i out) = [Task i out]"
| "proxied (AcceptFails x) = [AcceptError]"
| "proxied SeesShutdown = [Shutdown]"
| "proxied _ = []"

lemma dataplane_proxy: "dataplane_exec S e f = Some g \<Longrightarrow> proxy_run S (px f) (proxied e) (px g)"
  by (cases "(S, e, f)" rule: dataplane_exec.cases)
    (auto simp: on_proxy_def simp del: proxy_exec.simps intro!: run_Nil run_Cons [OF _ run_Nil] split: if_splits)

lemma dataplane_frame:
  assumes "dataplane_exec S e f = Some g"
  shows "ph g = ph f" and "e \<noteq> Signal ok" "e \<noteq> JoinsServe" "e \<noteq> SleepOver"
    and "serving g = (case e of AcceptFails x \<Rightarrow> Some (ServeErr x) | BindFails x \<Rightarrow> Some (ServeErr x)
           | SeesShutdown \<Rightarrow> Some ServeOk | _ \<Rightarrow> serving f)"
    and "bound g \<longleftrightarrow> bound f \<or> e = Binds"
    and "e = Binds \<or> (\<exists>x. e = BindFails x) \<Longrightarrow> \<not> bound f \<and> serving f = None \<and> px g = px f"
    and "e = SeesShutdown \<Longrightarrow> ph f = Draining"
    and "(\<exists>x. e = AcceptFails x) \<or> e = SeesShutdown \<Longrightarrow> bound f \<and> listening (px f) \<and> \<not> listening (px g)"
    and "(\<And>x. e \<noteq> AcceptFails x) \<Longrightarrow> e \<noteq> SeesShutdown \<Longrightarrow> listening (px g) = listening (px f)"
    and "\<not> bound f \<Longrightarrow> tasks (px f) = [] \<Longrightarrow> px g = px f"
  using assms by (cases "(S, e, f)" rule: dataplane_exec.cases;
      auto simp: on_proxy_def split: if_splits option.splits prod.splits)+

lemma dataplane_agent: "dataplane_exec S e f = Some g \<Longrightarrow> agent_on g = agent_on f"
  by (cases "(S, e, f)" rule: dataplane_exec.cases) (auto simp: on_proxy_def split: if_splits)

text \<open>
  What holds at every moment of either process: the dataplane is a run of \<open>Edge_Proxy\<close>, and the
  result of the serving task tells what has ended it.
\<close>

definition process_inv :: "'m semaphore \<Rightarrow> 'm server \<Rightarrow> process_event list \<Rightarrow> ('m, 'z) process_scheme \<Rightarrow> bool" where
  "process_inv S s es f \<longleftrightarrow> (\<exists>ps. proxy_run S (proxy_start s) ps (px f))
     \<and> (bound f \<longleftrightarrow> Binds \<in> set es)
     \<and> (if bound f then (listening (px f) \<longleftrightarrow> serving f = None) \<and> (\<forall>x. BindFails x \<notin> set es)
        else px f = proxy_start s \<and> (\<forall>x. AcceptFails x \<notin> set es))
     \<and> (\<forall>x. AcceptFails x \<in> set es \<or> BindFails x \<in> set es \<longleftrightarrow> serving f = Some (ServeErr x))
     \<and> (serving f = None \<or> serving f = Some ServeOk \<and> ph f \<noteq> Up \<or> (\<exists>x. serving f = Some (ServeErr x)))
     \<and> (ph f = Up \<longrightarrow> (\<forall>ok. Signal ok \<notin> set es)) \<and> (ph f = Draining \<longrightarrow> (\<exists>ok. Signal ok \<in> set es))"

lemma process_inv_start: "process_inv S s [] (process_start s)" "process_inv S s [] (appliance_start s)"
  using run_Nil by (auto simp: process_inv_def process_start_def appliance_start_def proxy_start_def)

lemma process_inv_more: "process_inv S s es (f\<lparr>agent_on := x\<rparr>) = process_inv S s es f"
  by (simp add: process_inv_def)

lemma process_inv_dataplane:
  assumes "process_inv S s es f" and step: "dataplane_exec S e f = Some g"
  shows "process_inv S s (es @ [e]) g"
proof -
  note fr = dataplane_frame [OF step]
  have "\<exists>ps. proxy_run S (proxy_start s) ps (px g)"
    using assms(1) run_append [OF _ dataplane_proxy [OF step]] unfolding process_inv_def by blast
  moreover have "\<not> bound f \<Longrightarrow> px g = px f"
    using assms(1) fr(11) by (auto simp: process_inv_def proxy_start_def)
  ultimately show ?thesis
    using assms(1) fr(1-10) by (cases e) (auto simp: process_inv_def proxy_start_def split: if_splits)
qed

lemma process_inv_signal:
  assumes "process_inv S s es f" and "ph f = Up"
  shows "process_inv S s (es @ [Signal ok]) (f\<lparr>ph := Draining\<rparr>)"
  using assms by (auto simp: process_inv_def)

lemma process_inv_exit:
  assumes "process_inv S s es f" and "e = JoinsServe \<or> e = SleepOver \<or> (\<exists>ok. e = Signal ok)"
  shows "process_inv S s (es @ [e]) (f\<lparr>ph := Ended r\<rparr>)"
  using assms by (auto simp: process_inv_def)

text \<open>The active connections, in terms of the tasks of the dataplane.\<close>

lemma process_active:
  assumes "sem_ok S av" and "ProxyServer_new S cfg = Some s" and "process_inv S s es f"
  shows "unat (c_active (counters (srv (px f)))) = length (filter in_service (tasks (px f)))
     \<and> length (filter in_service (tasks (px f))) \<le> capacity cfg"
proof -
  obtain ps where run: "proxy_run S (proxy_start s) ps (px f)" using assms(3) by (auto simp: process_inv_def)
  note a = permits_account [OF assms(1,2) run]
  have le: "length (filter in_service (tasks (px f))) \<le> capacity cfg"
    using service_holds [of "tasks (px f)"] a(1) by simp
  have "c_active (counters s) = 0" using assms(2) by (auto simp: ProxyServer_new_def default_counters_def)
  then have "c_active (counters (srv (px f))) = of_nat (length (filter in_service (tasks (px f))))"
    using active.ledger [OF run] by (simp add: sum_tally)
  with a(2) le show ?thesis by (simp add: unat_of_nat)
qed

section \<open>Exits\<close>

text \<open>Why a process has ended.\<close>

definition forwarder_exit_ok :: "process_event list \<Rightarrow> 'm process \<Rightarrow> bool" where
  "forwarder_exit_ok es f \<longleftrightarrow> (case ph f of
       Ended (Inr _) \<Rightarrow> \<exists>ok. Signal ok \<in> set es
     | Ended (Inl x) \<Rightarrow> \<exists>e. x = Serving e \<and> (BindFails e \<in> set es \<or> AcceptFails e \<in> set es)
     | _ \<Rightarrow> True)"

lemma forwarder_step_cases [consumes 1, case_names dataplane signal joins slept]:
  assumes "forwarder_exec S e f = Some g"
  obtains "dataplane_exec S e f = Some g" "\<forall>r. ph f \<noteq> Ended r"
  | ok where "e = Signal ok" "ph f = Up" "g = f\<lparr>ph := Draining\<rparr>"
  | r where "e = JoinsServe" "ph f = Up" "serving f = Some r"
      "g = f\<lparr>ph := Ended (map_sum id (\<lambda>_. ()) (edge_proxy_exit (ServeEnds r)))\<rparr>"
  | "e = SleepOver" "ph f = Draining" "g = f\<lparr>ph := Ended (Inr ())\<rparr>"
  using assms by (cases "ph f"; cases e) (simp_all del: dataplane_exec.simps, blast+)

lemma appliance_step_cases [consumes 1, case_names dataplane signal fails slept]:
  assumes "appliance_exec S e f = Some g"
  obtains "dataplane_exec S e f = Some g" "\<forall>r. ph f \<noteq> Ended r"
  | "e = Signal True" "ph f = Up" "g = f\<lparr>ph := Draining, agent_on := False\<rparr>"
  | "e = Signal False" "ph f = Up" "g = f\<lparr>ph := Ended (Inl SignalWait)\<rparr>"
  | "e = SleepOver" "ph f = Draining" "g = f\<lparr>ph := Ended (Inr ())\<rparr>"
  using assms by (cases "ph f"; cases e) (simp_all del: dataplane_exec.simps split: if_splits)

lemma forwarder_step_inv:
  assumes "forwarder_exec S e f = Some g" and inv: "process_inv S s es f"
  shows "process_inv S s (es @ [e]) g \<and> forwarder_exit_ok (es @ [e]) g"
  using assms(1)
proof (cases rule: forwarder_step_cases)
  case dataplane
  have "ph g = ph f" using dataplane(1) by (rule dataplane_frame(1))
  with process_inv_dataplane [OF inv dataplane(1)] dataplane(2) show ?thesis
    by (simp add: forwarder_exit_ok_def split: phase.splits)
next
  case (signal ok)
  with process_inv_signal [OF inv] show ?thesis by (simp add: forwarder_exit_ok_def)
next
  case (joins r)
  then obtain x where "r = ServeErr x" using inv by (auto simp: process_inv_def)
  moreover from this have "BindFails x \<in> set es \<or> AcceptFails x \<in> set es" using inv joins by (auto simp: process_inv_def)
  ultimately show ?thesis using joins process_inv_exit [OF inv, of e] by (simp add: forwarder_exit_ok_def)
next
  case slept
  then have "\<exists>ok. Signal ok \<in> set es" using inv by (simp add: process_inv_def)
  with slept process_inv_exit [OF inv, of e] show ?thesis by (simp add: forwarder_exit_ok_def)
qed

lemma forwarder_run_inv:
  assumes "exec_all (forwarder_exec S) es (process_start s) = Some f"
  shows "process_inv S s es f \<and> forwarder_exit_ok es f"
  using assms
proof (induction rule: exec_all_invariant)
  case start
  show ?case using process_inv_start by (auto simp: forwarder_exit_ok_def process_start_def)
next
  case (step fs e f g)
  then show ?case using forwarder_step_inv by blast
qed

definition appliance_exit_ok :: "process_event list \<Rightarrow> 'm appliance_process \<Rightarrow> bool" where
  "appliance_exit_ok es f \<longleftrightarrow> (ph f = Up \<longrightarrow> agent_on f) \<and> (\<forall>r. ph f = Ended r \<longrightarrow>
     r = Inr () \<and> (\<exists>ok. Signal ok \<in> set es) \<or> r = Inl SignalWait \<and> Signal False \<in> set es)"

lemma appliance_step_inv:
  assumes "appliance_exec S e f = Some g" and inv: "process_inv S s es f" and ok: "appliance_exit_ok es f"
  shows "process_inv S s (es @ [e]) g \<and> appliance_exit_ok (es @ [e]) g"
  using assms(1)
proof (cases rule: appliance_step_cases)
  case dataplane
  have "ph g = ph f" "agent_on g = agent_on f" using dataplane_frame(1) [OF dataplane(1)] dataplane_agent [OF dataplane(1)] by simp_all
  with process_inv_dataplane [OF inv dataplane(1)] dataplane(2) ok show ?thesis by (simp add: appliance_exit_ok_def)
next
  case signal
  with process_inv_signal [OF inv, of True] process_inv_more [where f = "f\<lparr>ph := Draining\<rparr>"] show ?thesis
    by (simp add: appliance_exit_ok_def)
next
  case fails
  with process_inv_exit [OF inv, of e] show ?thesis by (fastforce simp: appliance_exit_ok_def)
next
  case slept
  then have "\<exists>ok. Signal ok \<in> set es" using inv by (simp add: process_inv_def)
  with slept process_inv_exit [OF inv, of e] show ?thesis by (simp add: appliance_exit_ok_def)
qed

lemma appliance_run_inv:
  assumes "exec_all (appliance_exec S) es (appliance_start s) = Some f"
  shows "process_inv S s es f \<and> appliance_exit_ok es f"
  using assms
proof (induction rule: exec_all_invariant)
  case start
  show ?case using process_inv_start by (auto simp: appliance_exit_ok_def appliance_start_def)
next
  case (step fs e f g)
  then show ?case using appliance_step_inv by blast
qed

section \<open>Properties\<close>

text \<open>
  C21. How the forwarder lives and ends. Until a signal it is up, and it accepts connections from the
  moment its port is bound until an accept fails; a port that cannot be bound or a failed accept
  lets it end with that error and nothing else does; otherwise it ends only after a signal,
  from which the second of waiting brings it to a regular exit whatever the connections do.
  At every moment the active connections are those the tasks say, within the configured limit.
\<close>

theorem forwarder_life:
  assumes "sem_ok S av" and "ProxyServer_new S cfg = Some s0"
    and "exec_all (forwarder_exec S) es (process_start s0) = Some f"
  shows "unat (c_active (counters (srv (px f)))) = length (filter in_service (tasks (px f)))
     \<and> length (filter in_service (tasks (px f))) \<le> capacity cfg
     \<and> (case ph f of
          Up \<Rightarrow> (\<forall>ok. Signal ok \<notin> set es)
            \<and> (bound f \<and> listening (px f) \<longleftrightarrow> Binds \<in> set es \<and> (\<forall>x. AcceptFails x \<notin> set es))
            \<and> (\<forall>x. BindFails x \<in> set es \<or> AcceptFails x \<in> set es
                 \<longrightarrow> forwarder_exec S JoinsServe f = Some (f\<lparr>ph := Ended (Inl (Serving x))\<rparr>))
            \<and> forwarder_exec S (Signal True) f = Some (f\<lparr>ph := Draining\<rparr>)
        | Draining \<Rightarrow> (\<exists>ok. Signal ok \<in> set es) \<and> forwarder_exec S SleepOver f = Some (f\<lparr>ph := Ended (Inr ())\<rparr>)
        | Ended (Inr _) \<Rightarrow> \<exists>ok. Signal ok \<in> set es
        | Ended (Inl x) \<Rightarrow> \<exists>e. x = Serving e \<and> (BindFails e \<in> set es \<or> AcceptFails e \<in> set es))"
proof -
  have inv: "process_inv S s0 es f" and exit: "forwarder_exit_ok es f" using forwarder_run_inv [OF assms(3)] by simp_all
  have "bound f \<and> listening (px f) \<longleftrightarrow> Binds \<in> set es \<and> (\<forall>x. AcceptFails x \<notin> set es)" if "ph f = Up"
    using inv that by (auto simp: process_inv_def split: if_splits)
  moreover have "forwarder_exec S JoinsServe f = Some (f\<lparr>ph := Ended (Inl (Serving x))\<rparr>)"
    if "ph f = Up" "BindFails x \<in> set es \<or> AcceptFails x \<in> set es" for x
    using inv that by (auto simp: process_inv_def)
  ultimately show ?thesis using inv exit process_active [OF assms(1,2) inv]
    by (cases "ph f") (auto simp: process_inv_def forwarder_exit_ok_def split: sum.splits)
qed

text \<open>
  One failed accept ends the forwarder with every connection it serves: the serving task returns
  the error, \<open>main\<close> returns with it, and the tasks are where they were.
\<close>

theorem accept_error_cuts_connections:
  assumes "ph f = Up" and "bound f" and "listening (px f)"
  shows "\<exists>g. exec_all (forwarder_exec S) [AcceptFails x, JoinsServe] f = Some g
     \<and> ph g = Ended (Inl (Serving x)) \<and> tasks (px g) = tasks (px f)"
  using assms by (simp add: on_proxy_def)

text \<open>
  The appliance does not end, it goes deaf: after a failed accept, or without a port, and without a
  signal it stays up, accepts nothing, and its agent runs on; whatever state it is in, the
  heartbeats it sends say that it is healthy.
\<close>

theorem appliance_goes_deaf:
  assumes "exec_all (appliance_exec S) es (appliance_start s0) = Some f"
    and "BindFails x \<in> set es \<or> AcceptFails x \<in> set es" and "\<forall>ok. Signal ok \<notin> set es"
  shows "ph f = Up \<and> \<not> (bound f \<and> listening (px f)) \<and> appliance_exec S Connect f = None \<and> agent_on f
     \<and> hb_health (heartbeat_request usage active a) = 1"
proof -
  have inv: "process_inv S s0 es f" and exit: "appliance_exit_ok es f" using appliance_run_inv [OF assms(1)] by simp_all
  have up: "ph f = Up" using inv exit assms(3) by (cases "ph f") (auto simp: process_inv_def appliance_exit_ok_def)
  moreover have "\<not> (bound f \<and> listening (px f))" using inv assms(2) by (auto simp: process_inv_def split: if_splits)
  ultimately show ?thesis using exit by (auto simp: on_proxy_def heartbeat_request_def appliance_exit_ok_def)
qed

end
