(* ===== verification/Registry_Lock.thy ===== *)
theory Registry_Lock
  imports Registry_Concurrent "HOL-Library.Multiset" "HOL-Library.Sublist"
begin

text \<open>
  The lock of the registry. \<open>Registry_Concurrent\<close> takes a critical section as one step; here it is
  what the code does: ask \<open>RwLock::read\<close> or \<open>RwLock::write\<close> for a guard, wait for it, read the
  registry, write back what has changed, and drop the guard. The save that follows asks again,
  for a read guard. Tokio's \<open>RwLock\<close> is a parameter with its documented behaviour (\<open>rwlock_ok\<close>).
\<close>

section \<open>The lock\<close>

datatype lock_mode = ReadMode | WriteMode

text \<open>
  A task asks for a guard with the first poll of \<open>read()\<close> or \<open>write()\<close>, which puts it in the queue,
  gets it with a later one, or not yet, and gives it back when the guard is dropped.
\<close>

record 'l rwlock =
  rw_new :: 'l
  rw_ask :: "nat \<Rightarrow> lock_mode \<Rightarrow> 'l \<Rightarrow> 'l"
  rw_get :: "nat \<Rightarrow> lock_mode \<Rightarrow> 'l \<Rightarrow> 'l option"
  rw_drop :: "nat \<Rightarrow> lock_mode \<Rightarrow> 'l \<Rightarrow> 'l"

text \<open>
  In terms of the guards that are out and the requests that wait: a write guard is given only when
  no guard is out, a read guard only when no write guard is, and when no guard is out one of
  the waiting requests is granted.
\<close>

definition rwlock_ok :: "'l rwlock \<Rightarrow> ('l \<Rightarrow> (nat \<times> lock_mode) multiset) \<Rightarrow> ('l \<Rightarrow> (nat \<times> lock_mode) multiset) \<Rightarrow> bool" where
  "rwlock_ok L held waits \<longleftrightarrow>
     held (rw_new L) = {#} \<and> waits (rw_new L) = {#}
     \<and> (\<forall>k m l. held (rw_ask L k m l) = held l \<and> waits (rw_ask L k m l) = add_mset (k, m) (waits l))
     \<and> (\<forall>k m l l'. rw_get L k m l = Some l' \<longrightarrow>
          (k, m) \<in># waits l \<and> held l' = add_mset (k, m) (held l) \<and> waits l' = waits l - {#(k, m)#}
          \<and> (\<forall>j n. (j, n) \<in># held l \<longrightarrow> m = ReadMode \<and> n = ReadMode))
     \<and> (\<forall>l. held l = {#} \<longrightarrow> waits l \<noteq> {#} \<longrightarrow> (\<exists>k m. (k, m) \<in># waits l \<and> rw_get L k m l \<noteq> None))
     \<and> (\<forall>k m l. held (rw_drop L k m l) = held l - {#(k, m)#} \<and> waits (rw_drop L k m l) = waits l)"

section \<open>Tasks\<close>

text \<open>Which guard a call works under.\<close>

definition mode_of :: "reg_call \<Rightarrow> lock_mode" where
  "mode_of c = (case c of Call _ \<Rightarrow> WriteMode | _ \<Rightarrow> ReadMode)"

text \<open>
  Where a call stands: before it asks, in the queue, under its guard with what it has read, done
  under its guard, the same for the save, and at the file operations or replied.
\<close>

datatype lock_task =
    Start reg_call
  | Queued reg_call
  | Inside reg_call Inner
  | Leaving lock_mode bool reg_reply
  | SaveStart reg_reply
  | SaveQueued reg_reply
  | SaveInside reg_reply Inner
  | SaveLeaving reg_reply "(path \<times> RegistrySnapshot) option"
  | Filing reg_task

text \<open>After the guard of the save is dropped: \<open>write_snapshot\<close>, which encodes first.\<close>

definition to_files :: "reg_env \<Rightarrow> reg_reply \<Rightarrow> (path \<times> RegistrySnapshot) option \<Rightarrow> reg_task" where
  "to_files env r x = (case x of
       None \<Rightarrow> Replied r
     | Some (p, snap) \<Rightarrow> (case encode (snap_json env) snap of None \<Rightarrow> Replied r | Some b \<Rightarrow> Creating p b r))"

record 'l lconc =
  rwl :: 'l
  mem :: Inner
  ldisk :: disk
  ltasks :: "lock_task list"

definition lock_start :: "'l rwlock \<Rightarrow> Inner \<Rightarrow> disk \<Rightarrow> 'l lconc" where
  "lock_start L i d = \<lparr>rwl = rw_new L, mem = i, ldisk = d, ltasks = []\<rparr>"

fun lock_step :: "'l rwlock \<Rightarrow> reg_env \<Rightarrow> nat \<Rightarrow> io_turn \<Rightarrow> lock_task \<Rightarrow> 'l \<times> Inner \<times> disk
    \<Rightarrow> (lock_task \<times> 'l \<times> Inner \<times> disk) option" where
  "lock_step L env k out (Start c) (l, i, d) = Some (Queued c, rw_ask L k (mode_of c) l, i, d)"
| "lock_step L env k out (Queued c) (l, i, d) =
     map_option (\<lambda>l'. (Inside c i, l', i, d)) (rw_get L k (mode_of c) l)"
| "lock_step L env k out (Inside c j) (l, i, d) =
     (case locked env c j of (r, save, j') \<Rightarrow>
        Some (Leaving (mode_of c) save r, l, if mode_of c = WriteMode then j' else i, d))"
| "lock_step L env k out (Leaving m save r) (l, i, d) =
     Some (if save then SaveStart r else Filing (Replied r), rw_drop L k m l, i, d)"
| "lock_step L env k out (SaveStart r) (l, i, d) = Some (SaveQueued r, rw_ask L k ReadMode l, i, d)"
| "lock_step L env k out (SaveQueued r) (l, i, d) =
     map_option (\<lambda>l'. (SaveInside r i, l', i, d)) (rw_get L k ReadMode l)"
| "lock_step L env k out (SaveInside r j) (l, i, d) =
     Some (SaveLeaving r (map_option (\<lambda>p. (p, snapshot_locked env j)) (persist_path j)), l, i, d)"
| "lock_step L env k out (SaveLeaving r x) (l, i, d) = Some (Filing (to_files env r x), rw_drop L k ReadMode l, i, d)"
| "lock_step L env k out (Filing t) (l, i, d) =
     (case task_step env out t (i, d) of None \<Rightarrow> None | Some (t', i', d') \<Rightarrow> Some (Filing t', l, i', d'))"

fun lock_exec :: "'l rwlock \<Rightarrow> reg_env \<Rightarrow> conc_event \<Rightarrow> 'l lconc \<Rightarrow> 'l lconc option" where
  "lock_exec L env (Spawn c) w = Some (w\<lparr>ltasks := ltasks w @ [Start c]\<rparr>)"
| "lock_exec L env (Move k out) w =
     (if k < length (ltasks w) then
        (case lock_step L env k out (ltasks w ! k) (rwl w, mem w, ldisk w) of
           None \<Rightarrow> None
         | Some (t, l, i, d) \<Rightarrow> Some \<lparr>rwl = l, mem = i, ldisk = d, ltasks = (ltasks w)[k := t]\<rparr>)
      else None)"

section \<open>Guards\<close>

fun guard_of :: "lock_task \<Rightarrow> lock_mode option" where
  "guard_of (Inside c j) = Some (mode_of c)"
| "guard_of (Leaving m save r) = Some m"
| "guard_of (SaveInside r j) = Some ReadMode"
| "guard_of (SaveLeaving r x) = Some ReadMode"
| "guard_of _ = None"

fun request_of :: "lock_task \<Rightarrow> lock_mode option" where
  "request_of (Queued c) = Some (mode_of c)"
| "request_of (SaveQueued r) = Some ReadMode"
| "request_of _ = None"

text \<open>The registry as a task under its guard has read it.\<close>

fun copy_of :: "lock_task \<Rightarrow> Inner option" where
  "copy_of (Inside c j) = Some j"
| "copy_of (SaveInside r j) = Some j"
| "copy_of _ = None"

text \<open>Only the file operations are left to a task that has made its snapshot.\<close>

fun filing_ok :: "lock_task \<Rightarrow> bool" where
  "filing_ok (Filing (Waiting c)) = False"
| "filing_ok (Filing (Persisting r)) = False"
| "filing_ok _ = True"

definition tasks_at :: "(lock_task \<Rightarrow> lock_mode option) \<Rightarrow> lock_task list \<Rightarrow> nat \<times> lock_mode \<Rightarrow> nat" where
  "tasks_at f ts x = of_bool (fst x < length ts \<and> f (ts ! fst x) = Some (snd x))"

text \<open>
  The guards that are out are those of the tasks, the requests that wait too, a write guard is
  alone, and what a task has read under its guard is still the registry.
\<close>

definition lock_inv :: "('l \<Rightarrow> (nat \<times> lock_mode) multiset) \<Rightarrow> ('l \<Rightarrow> (nat \<times> lock_mode) multiset) \<Rightarrow> 'l lconc \<Rightarrow> bool" where
  "lock_inv held waits w \<longleftrightarrow>
     count (held (rwl w)) = tasks_at guard_of (ltasks w) \<and> count (waits (rwl w)) = tasks_at request_of (ltasks w)
     \<and> (\<forall>k j n. (k, WriteMode) \<in># held (rwl w) \<longrightarrow> (j, n) \<in># held (rwl w) \<longrightarrow> j = k)
     \<and> (\<forall>t \<in> set (ltasks w). filing_ok t \<and> (\<forall>i. copy_of t = Some i \<longrightarrow> i = mem w))"

lemma lock_laws:
  assumes "rwlock_ok L held waits"
  shows "held (rw_new L) = {#}" "waits (rw_new L) = {#}"
    and "held (rw_ask L k m l) = held l" "waits (rw_ask L k m l) = add_mset (k, m) (waits l)"
    and "held (rw_drop L k m l) = held l - {#(k, m)#}" "waits (rw_drop L k m l) = waits l"
    and "rw_get L k m l = Some l' \<Longrightarrow> held l' = add_mset (k, m) (held l) \<and> waits l' = waits l - {#(k, m)#}
      \<and> (\<forall>j n. (j, n) \<in># held l \<longrightarrow> m = ReadMode \<and> n = ReadMode)"
    and "held l = {#} \<Longrightarrow> waits l \<noteq> {#} \<Longrightarrow> \<exists>k m. (k, m) \<in># waits l \<and> rw_get L k m l \<noteq> None"
  using assms unfolding rwlock_ok_def by blast+

lemma tasks_at_update:
  "k < length ts \<Longrightarrow> tasks_at f (ts[k := t]) x = (if fst x = k then of_bool (f t = Some (snd x)) else tasks_at f ts x)"
  by (simp add: tasks_at_def)

lemma tasks_at_append: "f t = None \<Longrightarrow> tasks_at f (ts @ [t]) = tasks_at f ts"
  by (auto simp: tasks_at_def fun_eq_iff nth_append less_Suc_eq)

lemma held_guard:
  assumes "lock_inv held waits w"
  shows "(k, m) \<in># held (rwl w) \<longleftrightarrow> k < length (ltasks w) \<and> guard_of (ltasks w ! k) = Some m"
    and "(k, m) \<in># waits (rwl w) \<longleftrightarrow> k < length (ltasks w) \<and> request_of (ltasks w ! k) = Some m"
  using assms by (simp_all add: lock_inv_def tasks_at_def flip: count_greater_zero_iff)

lemma write_alone:
  assumes "lock_inv held waits w" and "(k, WriteMode) \<in># held (rwl w)" and "(j, n) \<in># held (rwl w)"
  shows "j = k"
  using assms unfolding lock_inv_def by blast

lemma copy_guard: "copy_of t = Some i \<Longrightarrow> \<exists>m. guard_of t = Some m"
  by (cases t) auto

lemma filing_ok_step: "task_step env out t s = Some (t', s') \<Longrightarrow> filing_ok (Filing t) \<Longrightarrow> filing_ok (Filing t') \<and> fst s' = fst s"
  by (cases "(env, out, t, s)" rule: task_step.cases) (auto split: prod.splits if_splits)

lemma filing_ok_to_files: "filing_ok (Filing (to_files env r x))"
  by (auto simp: to_files_def split: option.splits)

text \<open>What a step of one task has to respect.\<close>

lemma lock_inv_update:
  assumes inv: "lock_inv held waits w" and k: "k < length (ltasks w)"
    and h: "\<And>x. count (held l) x = (if fst x = k then of_bool (guard_of t = Some (snd x)) else count (held (rwl w)) x)"
    and q: "\<And>x. count (waits l) x = (if fst x = k then of_bool (request_of t = Some (snd x)) else count (waits (rwl w)) x)"
    and excl: "\<And>j m n. guard_of t = Some m \<Longrightarrow> (j, n) \<in># held (rwl w) \<Longrightarrow> j \<noteq> k \<Longrightarrow> m = ReadMode \<and> n = ReadMode"
    and i: "i = mem w \<or> guard_of t = Some WriteMode" and t: "filing_ok t" "\<And>j. copy_of t = Some j \<Longrightarrow> j = i"
  shows "lock_inv held waits \<lparr>rwl = l, mem = i, ldisk = d, ltasks = (ltasks w)[k := t]\<rparr>"
proof -
  have others: "(j, n) \<in># held l \<longleftrightarrow> (j, n) \<in># held (rwl w)" if "j \<noteq> k" for j n
    using h [of "(j, n)"] that by (simp flip: count_greater_zero_iff)
  have own: "(k, n) \<in># held l \<longleftrightarrow> guard_of t = Some n" for n
    using h [of "(k, n)"] by (simp flip: count_greater_zero_iff)
  have "count (held l) = tasks_at guard_of ((ltasks w)[k := t])" "count (waits l) = tasks_at request_of ((ltasks w)[k := t])"
    using inv h q by (auto simp: fun_eq_iff tasks_at_update [OF k] lock_inv_def)
  moreover have "j = k'" if "(k', WriteMode) \<in># held l" "(j, n) \<in># held l" for k' j n
  proof (cases "k' = k")
    case True
    then have "guard_of t = Some WriteMode" using that(1) own by simp
    from excl [OF this, of j n] True that(2) others show ?thesis by auto
  next
    case False
    with that(1) others have w: "(k', WriteMode) \<in># held (rwl w)" by simp
    with excl [of n k' WriteMode] False that(2) own have "j \<noteq> k" by auto
    with that(2) others have "(j, n) \<in># held (rwl w)" by simp
    with w show ?thesis using write_alone [OF inv] by blast
  qed
  moreover have "filing_ok u \<and> (\<forall>j. copy_of u = Some j \<longrightarrow> j = i)" if "u \<in> set ((ltasks w)[k := t])" for u
  proof -
    from that obtain j where j: "j < length (ltasks w)" "u = (if j = k then t else ltasks w ! j)"
      by (auto simp: in_set_conv_nth nth_list_update)
    show ?thesis
    proof (cases "j = k")
      case False
      then have u: "u = ltasks w ! j" "filing_ok u" "\<And>c. copy_of u = Some c \<Longrightarrow> c = mem w"
        using inv j by (auto simp: lock_inv_def)
      have "copy_of u = Some c \<Longrightarrow> i = mem w" for c
        using copy_guard [of u c] held_guard(1) [OF inv, of j] u(1) j(1) i excl [of WriteMode j] False by auto
      with u show ?thesis by blast
    qed (use t j in simp)
  qed
  ultimately show ?thesis by (simp add: lock_inv_def)
qed

lemma lock_inv_move:
  assumes L: "rwlock_ok L held waits" and inv: "lock_inv held waits w" and k: "k < length (ltasks w)"
    and step: "lock_step L env k out (ltasks w ! k) (rwl w, mem w, ldisk w) = Some (t, l, i, d)"
  shows "lock_inv held waits \<lparr>rwl = l, mem = i, ldisk = d, ltasks = (ltasks w)[k := t]\<rparr>"
proof -
  let ?u = "ltasks w ! k"
  have at: "count (held (rwl w)) (k, m) = of_bool (guard_of ?u = Some m)"
    "count (waits (rwl w)) (k, m) = of_bool (request_of ?u = Some m)" for m
    using inv k by (simp_all add: lock_inv_def tasks_at_def)
  have u: "filing_ok ?u" "copy_of ?u = Some j \<Longrightarrow> j = mem w" for j
    using inv nth_mem [OF k] by (auto simp: lock_inv_def)
  have alone: "(j, n) \<in># held (rwl w) \<Longrightarrow> guard_of ?u = Some m \<Longrightarrow> j \<noteq> k \<Longrightarrow> m = ReadMode \<and> n = ReadMode" for j m n
    using write_alone [OF inv, of k j n] write_alone [OF inv, of j k m] held_guard(1) [OF inv, of k] k
    by (cases m; cases n) auto
  note laws = lock_laws [OF L]
  show ?thesis using step at u alone
    by (cases "(L, env, k, out, ?u, (rwl w, mem w, ldisk w))" rule: lock_step.cases)
      (auto simp: laws prod_eq_iff filing_ok_to_files split: prod.splits option.splits if_splits
        dest!: laws(7) filing_ok_step intro!: lock_inv_update [OF inv k], blast+)
qed

lemma lock_inv_exec:
  assumes L: "rwlock_ok L held waits" and inv: "lock_inv held waits w" and step: "lock_exec L env e w = Some u"
  shows "lock_inv held waits u"
proof (cases e)
  case (Spawn c)
  with step have "u = w\<lparr>ltasks := ltasks w @ [Start c]\<rparr>" by simp
  with inv write_alone [OF inv] show ?thesis unfolding lock_inv_def by (simp add: tasks_at_append)
next
  case (Move k out)
  with step obtain t l i d where "k < length (ltasks w)"
    "lock_step L env k out (ltasks w ! k) (rwl w, mem w, ldisk w) = Some (t, l, i, d)"
    "u = \<lparr>rwl = l, mem = i, ldisk = d, ltasks = (ltasks w)[k := t]\<rparr>" by (auto split: if_splits option.splits)
  with lock_inv_move [OF L inv] show ?thesis by blast
qed

lemma lock_inv_start:
  assumes "rwlock_ok L held waits"
  shows "lock_inv held waits (lock_start L i d)"
  using lock_laws(1,2) [OF assms] by (simp add: lock_inv_def lock_start_def tasks_at_def fun_eq_iff)

lemma lock_inv_run:
  assumes "rwlock_ok L held waits" and "exec_all (lock_exec L env) es (lock_start L i d) = Some w"
  shows "lock_inv held waits w"
  by (rule exec_all_invariant [OF assms(2)]) (use assms(1) lock_inv_start lock_inv_exec in blast)+

section \<open>Critical sections as single steps\<close>

text \<open>
  The task of \<open>Registry_Concurrent\<close> a call corresponds to: its critical section counts as done when
  it has written back, its snapshot as taken when it has read the registry for it.
\<close>

fun coarse_task :: "reg_env \<Rightarrow> lock_task \<Rightarrow> reg_task" where
  "coarse_task env (Start c) = Waiting c"
| "coarse_task env (Queued c) = Waiting c"
| "coarse_task env (Inside c j) = Waiting c"
| "coarse_task env (Leaving m save r) = (if save then Persisting r else Replied r)"
| "coarse_task env (SaveStart r) = Persisting r"
| "coarse_task env (SaveQueued r) = Persisting r"
| "coarse_task env (SaveInside r j) = Persisting r"
| "coarse_task env (SaveLeaving r x) = to_files env r x"
| "coarse_task env (Filing t) = t"

definition coarse :: "reg_env \<Rightarrow> 'l lconc \<Rightarrow> conc" where
  "coarse env w = \<lparr>shared = mem w, cdisk = ldisk w, calls = map (coarse_task env) (ltasks w)\<rparr>"

lemma locked_read_only: "mode_of c = ReadMode \<Longrightarrow> snd (snd (locked env c i)) = i"
  by (cases "(env, c, i)" rule: locked.cases) (auto simp: mode_of_def)

lemma coarse_step:
  assumes "lock_step L env k out t (l, i, d) = Some (t', l', i', d')" and "\<And>j. copy_of t = Some j \<Longrightarrow> j = i"
  shows "coarse_task env t' = coarse_task env t \<and> i' = i \<and> d' = d
     \<or> task_step env out (coarse_task env t) (i, d) = Some (coarse_task env t', i', d')"
  using assms locked_read_only [of _ env i]
  by (cases "(L, env, k, out, t, (l, i, d))" rule: lock_step.cases)
    (auto simp: to_files_def split: prod.splits option.splits if_splits, (metis lock_mode.exhaust snd_conv)+)

lemma coarse_move:
  assumes "lock_inv held waits w" and "lock_exec L env (Move k out) w = Some u"
  shows "coarse env u = coarse env w \<or> conc_exec env (Move k out) (coarse env w) = Some (coarse env u)"
proof -
  from assms(2) obtain t l i d where k: "k < length (ltasks w)"
    and step: "lock_step L env k out (ltasks w ! k) (rwl w, mem w, ldisk w) = Some (t, l, i, d)"
    and u: "u = \<lparr>rwl = l, mem = i, ldisk = d, ltasks = (ltasks w)[k := t]\<rparr>" by (auto split: if_splits option.splits)
  have "copy_of (ltasks w ! k) = Some j \<Longrightarrow> j = mem w" for j using assms(1) nth_mem [OF k] by (auto simp: lock_inv_def)
  from coarse_step [OF step this] k show ?thesis
    by (auto simp: coarse_def u map_update list_update_same_conv)
qed

lemma coarse_exec:
  assumes "lock_inv held waits w" and "lock_exec L env e w = Some u"
  shows "conc_exec env e (coarse env w) = Some (coarse env u) \<or> coarse env u = coarse env w \<and> (\<exists>k out. e = Move k out)"
proof (cases e)
  case (Spawn c)
  with assms(2) show ?thesis by (auto simp: coarse_def)
next
  case (Move k out)
  with coarse_move [OF assms(1), of L env k out u] assms(2) show ?thesis by blast
qed

lemma coarse_run:
  assumes "rwlock_ok L held waits" and "exec_all (lock_exec L env) es (lock_start L i d) = Some w"
  shows "lock_inv held waits w \<and> (\<exists>fs. subseq fs es \<and> spawned fs = spawned es \<and> conc_run env (conc_start i d) fs (coarse env w))"
  using assms(2)
proof (rule exec_all_invariant)
  have "coarse env (lock_start L i d) = conc_start i d" by (simp add: coarse_def lock_start_def conc_start_def)
  then show "lock_inv held waits (lock_start L i d) \<and> (\<exists>fs. subseq fs [] \<and> spawned fs = spawned []
      \<and> conc_run env (conc_start i d) fs (coarse env (lock_start L i d)))"
    using lock_inv_start [OF assms(1)] conc_Nil by auto
next
  fix es e v u
  assume "lock_inv held waits v \<and> (\<exists>fs. subseq fs es \<and> spawned fs = spawned es \<and> conc_run env (conc_start i d) fs (coarse env v))"
    and step: "lock_exec L env e v = Some u"
  then obtain fs where fs: "subseq fs es" "spawned fs = spawned es" "conc_run env (conc_start i d) fs (coarse env v)"
    and inv: "lock_inv held waits v" by blast
  from coarse_exec [OF inv step]
  have "\<exists>fs. subseq fs (es @ [e]) \<and> spawned fs = spawned (es @ [e]) \<and> conc_run env (conc_start i d) fs (coarse env u)"
  proof
    assume "conc_exec env e (coarse env v) = Some (coarse env u)"
    from conc_snoc [OF fs(3) this] fs(1,2) show ?thesis by (cases e) (auto intro!: exI [of _ "fs @ [e]"])
  next
    assume "coarse env u = coarse env v \<and> (\<exists>k out. e = Move k out)"
    with fs show ?thesis by (auto intro!: exI [of _ fs] subseq_rev_drop_many)
  qed
  with lock_inv_exec [OF assms(1) inv step]
  show "lock_inv held waits u \<and> (\<exists>fs. subseq fs (es @ [e]) \<and> spawned fs = spawned (es @ [e])
      \<and> conc_run env (conc_start i d) fs (coarse env u))" by blast
qed

section \<open>Waiting ends\<close>

text \<open>A task that does not wait for a guard and has not replied can go on.\<close>

lemma unblocked_moves:
  assumes "\<And>r. t \<noteq> Filing (Replied r)" and "request_of t = None"
  shows "\<exists>x. lock_step L env k out t (l, i, d) = Some x"
proof (cases t)
  case (Filing u)
  then obtain x where "task_step env out u (i, d) = Some x" using assms(1) task_step_enabled by blast
  with Filing show ?thesis by (cases x) auto
qed (use assms in \<open>auto split: prod.splits\<close>)

lemma move_enabled:
  "k < length (ltasks w) \<Longrightarrow> \<exists>x. lock_step L env k out (ltasks w ! k) (rwl w, mem w, ldisk w) = Some x
     \<Longrightarrow> \<exists>u. lock_exec L env (Move k out) w = Some u"
  by auto

lemma lock_progress:
  assumes L: "rwlock_ok L held waits" and inv: "lock_inv held waits w"
    and j: "j < length (ltasks w)" "\<And>r. ltasks w ! j \<noteq> Filing (Replied r)"
  shows "\<exists>k < length (ltasks w). \<forall>out. \<exists>u. lock_exec L env (Move k out) w = Some u"
proof (cases "\<exists>k < length (ltasks w). (\<forall>r. ltasks w ! k \<noteq> Filing (Replied r)) \<and> request_of (ltasks w ! k) = None")
  case True
  then obtain k where k: "k < length (ltasks w)" "\<And>r. ltasks w ! k \<noteq> Filing (Replied r)" "request_of (ltasks w ! k) = None"
    by blast
  have "\<exists>u. lock_exec L env (Move k out) w = Some u" for out
    using move_enabled [OF k(1) unblocked_moves [OF k(2,3)]] .
  with k(1) show ?thesis by blast
next
  case False
  have "guard_of (ltasks w ! k) = None" if "k < length (ltasks w)" for k
    using False that by (cases "ltasks w ! k") auto
  then have "held (rwl w) = {#}" using held_guard(1) [OF inv] by (metis multiset_nonemptyE option.distinct(1) surj_pair)
  moreover obtain m where "request_of (ltasks w ! j) = Some m" using False j by fastforce
  then have "waits (rwl w) \<noteq> {#}" using held_guard(2) [OF inv, of j m] j(1) by auto
  ultimately obtain k m where k: "(k, m) \<in># waits (rwl w)" "rw_get L k m (rwl w) \<noteq> None"
    using lock_laws(8) [OF L] by blast
  then have "k < length (ltasks w)" "request_of (ltasks w ! k) = Some m" using held_guard(2) [OF inv] by simp_all
  moreover from this(2) k(2) have "\<exists>x. lock_step L env k out (ltasks w ! k) (rwl w, mem w, ldisk w) = Some x" for out
    by (cases "ltasks w ! k") auto
  ultimately show ?thesis using move_enabled by blast
qed

text \<open>Every step leads a call on, or writes some of its bytes.\<close>

fun stage :: "lock_task \<Rightarrow> nat" where
  "stage (Start c) = 13"
| "stage (Queued c) = 12"
| "stage (Inside c j) = 11"
| "stage (Leaving m save r) = 10"
| "stage (SaveStart r) = 9"
| "stage (SaveQueued r) = 8"
| "stage (SaveInside r j) = 7"
| "stage (SaveLeaving r x) = 6"
| "stage (Filing (Waiting c)) = 5"
| "stage (Filing (Persisting r)) = 4"
| "stage (Filing (Creating p b r)) = 3"
| "stage (Filing (Filling p n off b r)) = 2"
| "stage (Filing (Renaming p r)) = 1"
| "stage (Filing (Replied r)) = 0"

fun bytes_left :: "lock_task \<Rightarrow> nat" where
  "bytes_left (Filing (Filling p n off b r)) = length b"
| "bytes_left t = 0"

lemma file_step_closer:
  "task_step env out t s = Some (t', s') \<Longrightarrow>
     (stage (Filing t'), bytes_left (Filing t')) \<in> {(a, b). a < stage (Filing t) \<or> a = stage (Filing t) \<and> b < bytes_left (Filing t)}"
  by (cases "(env, out, t, s)" rule: task_step.cases) (auto split: prod.splits option.splits if_splits)

lemma step_closer:
  assumes "lock_step L env k out t (l, i, d) = Some (t', x)"
  shows "((stage t', bytes_left t'), (stage t, bytes_left t)) \<in> less_than <*lex*> less_than"
proof (cases t)
  case (SaveLeaving r x)
  with assms show ?thesis by (auto simp: to_files_def split: option.splits)
next
  case (Filing u)
  with assms file_step_closer [of env out u "(i, d)"] show ?thesis by (auto split: option.splits)
qed (use assms in \<open>auto split: prod.splits\<close>)

definition closer :: "('l lconc \<times> 'l lconc) set" where
  "closer = inv_image (less_than <*lex*> less_than)
     (\<lambda>w. (sum_list (map stage (ltasks w)), sum_list (map bytes_left (ltasks w))))"

lemma wf_closer: "wf closer"
  by (auto simp: closer_def)

lemma sum_list_update_nat:
  "k < length xs \<Longrightarrow> sum_list (map f (xs[k := y])) + f (xs ! k) = sum_list (map f xs) + (f y :: nat)"
proof (induction xs arbitrary: k)
  case (Cons x xs)
  then show ?case by (cases k) (auto simp: add.assoc)
qed simp

lemma move_closer:
  assumes "lock_exec L env (Move k out) w = Some u"
  shows "(u, w) \<in> closer"
proof -
  from assms obtain t l i d where k: "k < length (ltasks w)"
    and step: "lock_step L env k out (ltasks w ! k) (rwl w, mem w, ldisk w) = Some (t, l, i, d)"
    and u: "ltasks u = (ltasks w)[k := t]" by (auto split: if_splits option.splits)
  from step_closer [OF step] sum_list_update_nat [OF k, of stage t] sum_list_update_nat [OF k, of bytes_left t]
  show ?thesis by (auto simp: closer_def u)
qed

section \<open>Properties\<close>

text \<open>
  C19. No call of the registry waits forever. At every moment of any interleaving, with the guards asked
  for, held and dropped as the code does, either every call has replied or some call can go on,
  whatever the disk does; and there is no infinite sequence of steps of the calls that are
  there. So whatever the scheduler does, without new calls all of them come to their replies:
  the lock cannot deadlock, and no save or failed write holds up another call.
\<close>

theorem registry_calls_finish:
  assumes "rwlock_ok L held waits" and "exec_all (lock_exec L env) es (lock_start L i d) = Some w"
  shows "((\<forall>t \<in> set (ltasks w). \<exists>r. t = Filing (Replied r))
       \<or> (\<exists>k < length (ltasks w). \<forall>out. \<exists>u. lock_exec L env (Move k out) w = Some u))
     \<and> \<not> (\<exists>run. run 0 = w \<and> (\<forall>n. \<exists>k out. lock_exec L env (Move k out) (run n) = Some (run (Suc n))))"
proof
  note inv = lock_inv_run [OF assms]
  show "(\<forall>t \<in> set (ltasks w). \<exists>r. t = Filing (Replied r))
      \<or> (\<exists>k < length (ltasks w). \<forall>out. \<exists>u. lock_exec L env (Move k out) w = Some u)"
    using lock_progress [OF assms(1) inv] by (metis in_set_conv_nth)
  show "\<not> (\<exists>run. run 0 = w \<and> (\<forall>n. \<exists>k out. lock_exec L env (Move k out) (run n) = Some (run (Suc n))))"
    using wf_closer move_closer unfolding wf_iff_no_infinite_down_chain by blast
qed

text \<open>
  C40. The critical sections are atomic. Every interleaving of the calls with their guards, in which a
  call reads the registry, others may run, and only then it writes back, corresponds to one of
  \<open>Registry_Concurrent\<close> with the same calls in the same order, fewer steps, the same registry
  and the same files, in which a call that has replied has given the same reply. So what is
  shown there of all interleavings (that they are linearizable, what a crash leaves on disk)
  holds of the program with its lock.
\<close>

theorem guarded_sections_atomic:
  assumes "rwlock_ok L held waits" and "exec_all (lock_exec L env) es (lock_start L i d) = Some w"
  shows "\<exists>fs. subseq fs es \<and> spawned fs = spawned es \<and> conc_run env (conc_start i d) fs (coarse env w)
     \<and> shared (coarse env w) = mem w \<and> cdisk (coarse env w) = ldisk w
     \<and> (\<forall>k r. k < length (ltasks w) \<longrightarrow> ltasks w ! k = Filing (Replied r) \<longrightarrow> calls (coarse env w) ! k = Replied r)"
  using coarse_run [OF assms] by (auto simp: coarse_def)

end
