(* ===== verification/Concurrent_Witnesses.thy ===== *)
theory Concurrent_Witnesses
  imports Fleet_Witnesses Fleet_Concurrent Edge_Process Registry_Lock
begin

text \<open>
  Concrete instances of the properties of the concurrent control plane, of the devices against it
  and of the edge processes.
\<close>

section \<open>The service\<close>

text \<open>
  A push, a device that registers and sends a heartbeat, and another that watches: every
  registry call is followed through, the watch stream delivers the policy.
\<close>

definition ex_body :: PolicyBody where
  "ex_body = \<lparr>pb_version = 42, pb_max_connections = None, pb_idle_timeout_secs = None, pb_default_upstream = None\<rparr>"

definition ex_register :: RegisterRequest where
  "ex_register = \<lparr>rq_identity = Some \<lparr>id_device_id = ''edge-1'', id_hardware_id = ''hw'', id_software_version = ''0.1.0''\<rparr>,
     rq_reported_policy_version = ''0'', rq_reported_software_version = []\<rparr>"

definition ex_heartbeat :: HeartbeatRequest where
  "ex_heartbeat = \<lparr>hb_device_id = ''edge-1'', hb_reported_policy_version = ''0'', hb_reported_software_version = [],
     hb_health = 1, hb_usage = None, hb_active_connections = 0\<rparr>"

definition ex_report :: EdgeReport where
  "ex_report = \<lparr>er_device_id = ''edge-2'', er_reported_policy_version = show_u64 0, er_reported_software_version = [],
     er_health = 1, er_usage = None, er_active_connections = 0, er_applied_seq = 0\<rparr>"

definition ex_command :: CloudCommand where
  "ex_command = \<lparr>cc_seq = 1, cc_command = Some (PolicyUpdate (Some (body_policy ex_body)))\<rparr>"

definition ex_response :: HeartbeatResponse where
  "ex_response = \<lparr>hr_desired_policy_version = 42, hr_policy = Some (body_policy ex_body), hr_has_policy = True,
     hr_desired_software_version = [], hr_pending_ota = None, hr_has_pending_ota = False, hr_desired_seq = 1\<rparr>"

definition ex_watch :: watch where
  "ex_watch = \<lparr>w_pc = Receiving, w_queue = [], w_delivered = [ex_command], w_open = True, w_reports = [ex_report]\<rparr>"

definition ex_service_events :: "service_event list" where
  "ex_service_events = [Arrive 1 (HttpRq (PostPolicy ex_body)), Arrive 2 (RegisterRq ex_register),
     RegistryMove 1 (Works 0), RegistryMove 1 (Works 0), RegistryMove 0 (Works 0), RegistryMove 0 (Works 0),
     Arrive 3 (HeartbeatRq ex_heartbeat), Arrive 3 WatchRq, Report 3 4 ex_report, RegistryMove 2 (Works 0),
     RegistryMove 3 (Works 0), Advance 2 5, Advance 3 5, RegistryMove 4 (Works 0), Advance 3 6, Advance 3 6, Deliver 3]"

abbreviation ex_empty_disk :: disk where
  "ex_empty_disk \<equiv> \<lparr>names = Map.empty, inodes = []\<rparr>"

lemma ex_service_run:
  "\<exists>v. service_run sample_reg_env (service_start default_inner ex_empty_disk) ex_service_events v
     \<and> length (handlers v) = 4 \<and> handlers v ! 2 = Answered (HeartbeatReply (Inr ex_response))
     \<and> handlers v ! 3 = Watching ex_watch \<and> policy_seq (shared (registry v)) = 1"
  unfolding sr.iff_exec_all ex_service_events_def
  by (simp add: service_start_def conc_start_def call_registry_def on_handler_def awaited_def register_op_def heartbeat_op_def
      report_op_def body_policy_def on_watch_def receive_report_def watch_advance_def deliver_def watch_start_def
      channel_capacity_def heartbeat_reply_def watch_command_def parse_show_u64 default_inner_def Let_def heartbeat_of_usage_def
      ex_body_def ex_register_def ex_heartbeat_def ex_report_def ex_command_def ex_response_def ex_watch_def)


lemma ex_service_room: "unat (policy_seq default_inner) + length ex_service_events < 2 ^ 64"
  by (simp add: default_inner_def ex_service_events_def)

lemma watch_stream_in_order_witness:
  "\<exists>v. service_run sample_reg_env (service_start default_inner ex_empty_disk) ex_service_events v
     \<and> Watching ex_watch \<in> set (handlers v) \<and> er_applied_seq ex_report < cc_seq ex_command
     \<and> length (w_delivered ex_watch @ w_queue ex_watch) \<le> length (w_reports ex_watch)"
proof -
  obtain v where v: "service_run sample_reg_env (service_start default_inner ex_empty_disk) ex_service_events v"
    "length (handlers v) = 4" "handlers v ! 3 = Watching ex_watch" using ex_service_run by blast
  then have "Watching ex_watch \<in> set (handlers v)" using nth_mem [of 3 "handlers v"] by simp
  from watch_stream_in_order [OF v(1) ex_service_room this] this v(1) show ?thesis
    by (auto simp: ex_watch_def ex_command_def)
qed

section \<open>Devices\<close>

definition ex_applied :: ReportedState where
  "ex_applied = \<lparr>policy_version = 42, r_software_version = [], applied_seq = 1\<rparr>"

lemma ex_agent_disk: "disk_ok sample_json (ex_agent\<lparr>faults := G\<rparr>) \<longleftrightarrow> G = []"
  by (simp add: disk_ok_def sample_json_total)

lemma ex_agent_reported: "reported_of ex_agent = default_reported"
  by (simp add: ex_agent_sel fresh_store_def)

lemma ex_reconcile:
  "version (policy d) = 42 \<Longrightarrow> seq d = 1 \<Longrightarrow> reconcile d default_reported = ex_applied"
  by (simp add: reconcile_eq default_reported_def ex_applied_def)

lemma ex_device_watches: "reported_of (receive_all sample_json [(CommandMsg ex_command, [])] ex_agent) = ex_applied"
proof -
  let ?d = "\<lparr>seq = max 1 1, policy = body_policy ex_body, d_software_version = []\<rparr> :: DesiredState"
  have "receive_all sample_json [(CommandMsg ex_command, [])] ex_agent = watch_apply sample_json ?d (ex_agent\<lparr>faults := []\<rparr>)"
    by (simp add: receive_all_def handle_command_def ex_command_def)
  then show ?thesis
    using watch_apply_reliable [of sample_json "ex_agent\<lparr>faults := []\<rparr>" ?d] ex_agent_disk ex_reconcile [of ?d]
    by (simp add: ex_agent_reported body_policy_def ex_body_def)
qed

lemma ex_device_polls: "reported_of (receive_all sample_json [(HeartbeatMsg ex_response, [])] ex_agent) = ex_applied"
proof -
  let ?a = "ex_agent\<lparr>faults := [], m_control_plane_connected := 1\<rparr>"
  let ?d = "\<lparr>seq = max 1 1, policy = local_policy (last_good_policy (store ex_agent)) (body_policy ex_body),
      d_software_version = []\<rparr> :: DesiredState"
  have r: "receive_all sample_json [(HeartbeatMsg ex_response, [])] ex_agent = snd (apply_desired sample_json ?d ?a)"
    by (simp add: receive_all_def handle_heartbeat_def act_defs ex_response_def)
  have "disk_ok sample_json ?a" by (simp add: disk_ok_def sample_json_total)
  from apply_desired_reliable [OF this, of ?d] r show ?thesis
    using ex_reconcile [of ?d] by (auto simp: ex_agent_reported body_policy_def ex_body_def)
qed

lemma devices_never_disagree_witness:
  "\<exists>v. service_run sample_reg_env (service_start default_inner ex_empty_disk) ex_service_events v
     \<and> policy_version (reported_of (receive_all sample_json [(HeartbeatMsg ex_response, [])] ex_agent))
       = policy_version (reported_of (receive_all sample_json [(CommandMsg ex_command, [])] ex_agent))
     \<and> map_option version (in_policy (shared (registry v))) = Some 42"
proof -
  obtain v where v: "service_run sample_reg_env (service_start default_inner ex_empty_disk) ex_service_events v"
    "length (handlers v) = 4" "handlers v ! 2 = Answered (HeartbeatReply (Inr ex_response))"
    "handlers v ! 3 = Watching ex_watch" "policy_seq (shared (registry v)) = 1" using ex_service_run by blast
  have "sent_by v (HeartbeatMsg ex_response)" using v(2,3) nth_mem [of 2 "handlers v"] by simp
  moreover have "sent_by v (CommandMsg ex_command)"
    using v(2,4) nth_mem [of 3 "handlers v"] by (auto simp: ex_watch_def intro: exI [of _ ex_watch])
  moreover have "policy_seq default_inner = 0 \<longrightarrow> in_policy default_inner = None" by (simp add: default_inner_def)
  ultimately have "map_option version (in_policy (shared (registry v))) = Some 42
    \<and> policy_version (reported_of (receive_all sample_json [(HeartbeatMsg ex_response, [])] ex_agent))
       = policy_version (reported_of (receive_all sample_json [(CommandMsg ex_command, [])] ex_agent))"
    using devices_never_disagree [OF v(1) ex_service_room, of ex_agent ex_agent "[(HeartbeatMsg ex_response, [])]"
        "[(CommandMsg ex_command, [])]" sample_json 1] v(5) ex_device_polls ex_device_watches
    by (simp add: ex_agent_reported default_reported_def ex_applied_def)
  with v(1) show ?thesis by blast
qed

section \<open>Progress\<close>

lemma handlers_progress_witness:
  "\<exists>v. service_run sample_reg_env (service_start default_inner ex_empty_disk) [Arrive 1 (HttpRq (PostPolicy ex_body))] v
     \<and> ((\<exists>u. service_exec sample_reg_env (Advance 0 2) v = Some u)
        \<or> (\<exists>u. service_exec sample_reg_env (RegistryMove 0 Fails) v = Some u))"
proof -
  let ?es = "[Arrive 1 (HttpRq (PostPolicy ex_body))]"
  obtain v where v: "service_run sample_reg_env (service_start default_inner ex_empty_disk) ?es v" "handlers v = [Pushing 42 0]"
    unfolding sr.iff_exec_all by (simp add: service_start_def conc_start_def call_registry_def ex_body_def)
  then have "0 < length (handlers v)" by simp
  from handlers_progress [OF v(1) this, where now = 2 and out = Fails] v show ?thesis
    by (auto simp del: service_exec.simps)
qed

section \<open>Processes\<close>

lemma forwarder_life_witness:
  "\<exists>f. exec_all (forwarder_exec counting_semaphore) [Binds, Connect, TaskStep 0 Auto, AcceptFails OtherIo, JoinsServe] (process_start ex_server) = Some f
     \<and> ph f = Ended (Inl (Serving OtherIo)) \<and> length (filter in_service (tasks (px f))) \<le> capacity ex_cfg"
proof -
  let ?es = "[Binds, Connect, TaskStep 0 Auto, AcceptFails OtherIo, JoinsServe]"
  obtain f where f: "exec_all (forwarder_exec counting_semaphore) ?es (process_start ex_server) = Some f"
    "ph f = Ended (Inl (Serving OtherIo))"
    by (simp add: process_start_def on_proxy_def proxy_start_def ex_server_def counting_semaphore_def)
  from forwarder_life [OF counting_semaphore_ok ex_server_new f(1)] f show ?thesis by blast
qed

section \<open>Lock\<close>

text \<open>A lock that serves its queue in order, as Tokio documents it.\<close>

definition fifo_lock :: "((nat \<times> lock_mode) list \<times> (nat \<times> lock_mode) list) rwlock" where
  "fifo_lock = \<lparr>rw_new = ([], []),
     rw_ask = (\<lambda>k m l. (fst l, snd l @ [(k, m)])),
     rw_get = (\<lambda>k m l. case snd l of
         [] \<Rightarrow> None
       | x # q \<Rightarrow> if x = (k, m) \<and> list_all (\<lambda>y. m = ReadMode \<and> snd y = ReadMode) (fst l)
           then Some (x # fst l, q) else None),
     rw_drop = (\<lambda>k m l. (remove1 (k, m) (fst l), snd l))\<rparr>"

lemma fifo_lock_ok: "rwlock_ok fifo_lock (\<lambda>l. mset (fst l)) (\<lambda>l. mset (snd l))"
proof -
  have "\<exists>k m. (k, m) \<in> set (snd l) \<and> rw_get fifo_lock k m l \<noteq> None" if "fst l = []" "snd l \<noteq> []" for l
    using that by (cases "snd l") (auto simp: fifo_lock_def)
  then show ?thesis
    by (auto simp: rwlock_ok_def fifo_lock_def list_all_iff split: list.splits if_splits)
qed

text \<open>A push is in its critical section, a reader waits: the reader cannot go on, but somebody can.\<close>

definition ex_contended :: "conc_event list" where
  "ex_contended = [Spawn (Call (SetPolicy ex_policy_42)), Spawn CurrentPolicy, Move 0 Fails, Move 0 Fails, Move 1 Fails]"

lemma ex_contended_run:
  "\<exists>w. exec_all (lock_exec fifo_lock sample_reg_env) ex_contended (lock_start fifo_lock default_inner d) = Some w
     \<and> ltasks w = [Inside (Call (SetPolicy ex_policy_42)) default_inner, Queued CurrentPolicy]
     \<and> lock_exec fifo_lock sample_reg_env (Move 1 Fails) w = None"
  by (simp add: ex_contended_def lock_start_def fifo_lock_def mode_of_def)

lemma registry_calls_finish_witness:
  "\<exists>w. exec_all (lock_exec fifo_lock sample_reg_env) ex_contended
        (lock_start fifo_lock default_inner \<lparr>names = Map.empty, inodes = []\<rparr>) = Some w
     \<and> lock_exec fifo_lock sample_reg_env (Move 1 Fails) w = None
     \<and> (\<exists>k < length (ltasks w). \<forall>out. \<exists>u. lock_exec fifo_lock sample_reg_env (Move k out) w = Some u)"
proof -
  obtain w where w: "exec_all (lock_exec fifo_lock sample_reg_env) ex_contended
      (lock_start fifo_lock default_inner \<lparr>names = Map.empty, inodes = []\<rparr>) = Some w"
    "ltasks w = [Inside (Call (SetPolicy ex_policy_42)) default_inner, Queued CurrentPolicy]"
    "lock_exec fifo_lock sample_reg_env (Move 1 Fails) w = None"
    using ex_contended_run by blast
  with registry_calls_finish [OF fifo_lock_ok w(1)] show ?thesis by (auto simp del: lock_exec.simps)
qed

lemma guarded_sections_atomic_witness:
  "\<exists>w fs. exec_all (lock_exec fifo_lock sample_reg_env) ex_contended
        (lock_start fifo_lock default_inner \<lparr>names = Map.empty, inodes = []\<rparr>) = Some w
     \<and> subseq fs ex_contended
     \<and> conc_run sample_reg_env (conc_start default_inner \<lparr>names = Map.empty, inodes = []\<rparr>) fs (coarse sample_reg_env w)"
proof -
  obtain w where w: "exec_all (lock_exec fifo_lock sample_reg_env) ex_contended
      (lock_start fifo_lock default_inner \<lparr>names = Map.empty, inodes = []\<rparr>) = Some w"
    using ex_contended_run by blast
  with guarded_sections_atomic [OF fifo_lock_ok w] show ?thesis by blast
qed

end
