(* ===== verification/Spec2Isabelle.thy ===== *)
theory Spec2Isabelle
  imports Witnesses Concurrent_Witnesses
begin

text \<open>
  EdgeWarden: verification library of the edge appliance and its control plane.

  \<^bold>\<open>The program.\<close> An edge appliance forwards TCP traffic (\<open>crates/edge-proxy\<close>), keeps a durable
  desired-state store (\<open>crates/edge-state\<close>), takes signed A/B updates (\<open>crates/edge-ota\<close>),
  supervises its health with a hardware bypass (\<open>crates/edge-health\<close>) and polls or watches a
  cloud control plane (\<open>crates/edge-agent\<close>, with the backoff of \<open>crates/edge-protocol\<close>). The
  control plane (\<open>crates/control-plane\<close>) keeps a registry of devices and the desired state
  with a sequence number, answers the agents over gRPC, takes policy pushes over HTTP and
  gates rollouts by rings. \<open>crates/edge-telemetry\<close> names the metrics, \<open>crates/storm\<close> is the
  load generator.

  \<^bold>\<open>Conventions.\<close> A Rust method with a mutable receiver that returns a \<open>Result\<close> is an action:
  a function from the state to an error or a value and the new state, the state after an
  error included (\<open>Edge_Prelude\<close>). Integers have their width. A panic is \<open>None\<close>. The disk is a
  map from paths to contents with a schedule of faults (\<open>Durable_File\<close>): each I/O operation
  takes the next outcome, a write may be torn, an empty schedule is a disk that works. The
  network is a schedule too: whether the link comes up and which request or reply is lost.
  Time is an argument of the operations that read the clock.

  \<^bold>\<open>Theories.\<close>
  \<^item> \<open>Edge_Prelude\<close>, \<open>Rust_Std\<close>, \<open>Durable_File\<close>: words and saturating arithmetic, actions with
    their Hoare rules, runs of events (locale \<open>stepped_run\<close>), strings, \<open>f64\<close> comparisons, and the two save protocols as instances of
    the locale \<open>atomic_save\<close>.
  \<^item> \<open>Rust_Float\<close>, \<open>Socket_Addr\<close>: what the code uses of the standard library beyond that, binary64
    arithmetic with correct rounding and the parsing of decimals, with error bounds; the
    parser of socket addresses, which reads back the text of every address.
  \<^item> \<open>Backoff\<close> (\<open>edge-protocol/src/lib.rs\<close>): delays against a reference on natural numbers.
  \<^item> \<open>Edge_State\<close> (\<open>edge-state/src/lib.rs\<close>): diff, reconciliation (locales \<open>reconciler\<close> and
    \<open>reliable_reconciler\<close>) and the store; crash consistency, durability, convergence.
  \<^item> \<open>Ota_Version\<close>, \<open>Edge_Ota\<close>, \<open>Ota_Safety\<close>, \<open>Ota_Function\<close>, \<open>Ota_Rollback\<close>
    (\<open>edge-ota/src/lib.rs\<close>): version comparison, the update state machine with its journal,
    and over all reachable states that only signed artifacts get into a slot that boots,
    that an update runs to its end, that commits are atomic, versions are never rolled back
    and a restart resumes from the journal.
  \<^item> \<open>Edge_Health\<close> (\<open>edge-health/src/lib.rs\<close>): verdicts, bypass controllers as a record of
    methods with their contract as the locale \<open>bypass_controller\<close>, watchdog, memory probe.
  \<^item> \<open>Edge_Probes\<close> (\<open>edge-health/src/lib.rs\<close>, \<open>usage\<close> of the agent): CPU and uptime probes and the
    resource snapshot; exact seconds, accurate and bounded CPU figures.
  \<^item> \<open>Rollout\<close>, \<open>Registry\<close>, \<open>Fleet_Service\<close> (\<open>control-plane/src\<close>): gates and rings; registry,
    snapshots and sequence numbers (locale \<open>versioned_source\<close>); the handlers, the operator
    API and the server's TLS decision.
  \<^item> \<open>Registry_Concurrent\<close> (\<open>control-plane/src/registry.rs\<close>): the registry's calls as interleaved
    atomic steps (critical section, snapshot, creation, writes and rename of the temporary
    file) on a disk of inodes; linearizability with respect to \<open>Registry\<close>, recoverability when
    saves do not overlap, and what happens when they do.
  \<^item> \<open>Registry_Lock\<close> (the same file): the calls with the read and write guards of the lock, asked for,
    waited for and dropped as the code does; no deadlock, every call comes to its reply, and
    every such run is one of \<open>Registry_Concurrent\<close>, whose critical sections are thus atomic.
  \<^item> \<open>Control_Main\<close> (\<open>control-plane/src/main.rs\<close>): routes, start of the two servers, their join.
  \<^item> \<open>Service_Concurrent\<close> (\<open>control-plane/src/service.rs\<close>, the API of \<open>main.rs\<close>): the handlers as tasks
    that await calls of \<open>Registry_Concurrent\<close>, with the watch task's channel of 32 commands;
    all answers with one sequence number carry one policy, a watch stream keeps its order and
    never goes back, a handler waits only for its registry call or its client; a registration
    can be answered from two moments.
  \<^item> \<open>Edge_Agent\<close> (\<open>edge-agent/src/agent.rs\<close>): the endpoint it connects to and its TLS configuration, one synchronization against the
    handlers of \<open>Fleet_Service\<close>, the turns of the polling and watch loops; the agent as an
    instance of the reconciler locales; what a partition leaves alone.
  \<^item> \<open>Fleet\<close>: control plane and devices composed, with operators, lossy networks, failing
    device disks and restarts of both sides as events; the invariant that relates every
    device to the control plane, and convergence.
  \<^item> \<open>Fleet_Concurrent\<close>: devices that take in whatever the concurrent handlers have answered, in any
    order and with failing disks; they never disagree about a sequence number.
  \<^item> \<open>Edge_Proxy\<close> (\<open>edge-proxy/src/server.rs\<close>, \<open>config.rs\<close>): the connection handler as its
    sequence of atomic operations, the server as their interleaving; the counters and the
    permits as accounts (locale \<open>task_ledger\<close>), admission bound and books.
  \<^item> \<open>Proxy_Clock\<close> (the same files): the server with a clock and the timeouts around its two waits;
    after shutdown it drains within their sum, whatever the peers do.
  \<^item> \<open>Edge_Boot\<close> (\<open>edge-agent/src/main.rs\<close>): what the dataplane starts with, from the stored
    policy or the operator's settings.
  \<^item> \<open>Edge_Main\<close> (\<open>edge-proxy/src/main.rs\<close>, \<open>edge-agent/src/main.rs\<close>): both binaries from their
    command line to the running tasks, resolution of upstreams.
  \<^item> \<open>Edge_Process\<close> (the same files): the processes from then on, \<open>main\<close>, the serving task and the
    connections interleaved, with failed binds, signals, failed accepts and the wait of a second;
    when and how each process ends, and what an accept error does to both.
  \<^item> \<open>Transparent\<close> (\<open>edge-proxy/src/transparent.rs\<close>), \<open>Edge_Telemetry\<close> (metrics, rendering and
    endpoint), \<open>Storm\<close> (clients, percentiles, rates and report).
  \<^item> \<open>Sample_Env\<close>, \<open>Sample_Fleet\<close>, \<open>Witnesses\<close>, \<open>Fleet_Witnesses\<close>, \<open>Concurrent_Witnesses\<close>: concrete
    parameters and, for each property with hypotheses, an instance at which they hold.

  \<^bold>\<open>Parameters and what is assumed of them.\<close> \<open>serde_json\<close>: what was encoded decodes to the same
  value (\<open>json_ok\<close>); for registry snapshots, encoding does not fail, finite numbers come back
  up to the last bit and others make the snapshot unreadable (\<open>snap_json_ok\<close>). Hash order: a
  permutation. SHA-256, hex, Ed25519: as far as needed for a release signed with the matching
  key (\<open>release_laws\<close>); the safety of the slots needs nothing of them. The random generator
  stays in its range. Tokio's semaphore counts permits and panics above its maximum
  (\<open>sem_ok\<close>). Tokio's lock gives a write guard alone, read guards together, and when none is out
  one of the waiting requests gets its guard (\<open>rwlock_ok\<close>); its timers do not fire early and a
  task that can go on is run within some bounded lag (a number, an argument). What tonic makes
  of a URI and a TLS configuration is not assumed. The Prometheus registry accepts well-formed new names (\<open>prom_ok\<close>). The resolver,
  sockets and the kernel's files are plain arguments.

  \<^bold>\<open>Bounds.\<close> Loops that end only on shutdown are runs of turns or events given as lists, of any
  length. Sequence numbers are 64-bit words; theorems that need them not to wrap bound the
  number of events by \<open>2 ^ 64\<close>. The proxy's tasks have no fuel: after shutdown each connection
  makes at most nine steps, within the two timeouts and nine times the lag, which is proved.
  The registry's calls have none either: no infinite sequence of their steps exists. Decoders of the sample codecs recurse on
  their input.

  \<^bold>\<open>Not modelled.\<close> Bytes on sockets and the relay's copying; TLS, gRPC and HTTP transport and
  serialization of messages; command-line parsing and logging; real time except in \<open>Proxy_Clock\<close>
  (elsewhere timers and the wait of a second are events that may come at any moment); the Prometheus
  text encoder; directories and permissions of the file system; a crash of the machine that
  loses written data, as opposed to a crash of the process. The control plane's disk is
  assumed to work and its calls to come one after the other in \<open>Fleet\<close>, since a lost
  snapshot makes it reissue sequence numbers; its behaviour under faults is in \<open>Registry\<close> and
  under concurrency in \<open>Registry_Concurrent\<close> and \<open>Service_Concurrent\<close>. Accessors that return a
  field and the unused \<open>HealthGate\<close> have no definition of their own.
\<close>

end
